(* ===== verification/Prelude.thy ===== *)
theory Prelude
  imports Main "HOL-Library.Word" "HOL-Library.Char_ord" "HOL-Library.AList"
begin

text \<open>
  Shared vocabulary of the development: the model's byte strings and results, the index loops
  the Go code writes by hand, finite maps as association lists, and the lemma collections the
  component theories add to.

  A Go \<^verbatim>\<open>byte\<close> is a \<^typ>\<open>char\<close> (256 values), a \<^verbatim>\<open>[]byte\<close> or \<^verbatim>\<open>string\<close> whose identity does not
  matter is a list of them. A \<^verbatim>\<open>uint64\<close> is a \<^typ>\<open>64 word\<close>; a Go \<^verbatim>\<open>int\<close> that can overflow
  is computed in a \<^typ>\<open>64 word\<close> and read with \<^const>\<open>sint\<close>. A function that returns
  \<^verbatim>\<open>(value, error)\<close> returns a sum whose left side is the error.
\<close>

type_synonym byte = char
type_synonym bytes = "char list"
type_synonym u64 = "64 word"
type_synonym ('e, 'a) result = "'e + 'a"

abbreviation bval :: "byte \<Rightarrow> nat" where
  "bval b \<equiv> of_char b"

named_theorems scan_simps \<open>what the scanners of the packet parser compute on known input\<close>
named_theorems codec_simps \<open>decoding an encoded value gives it back\<close>
named_theorems alist_simps \<open>lookups in updated association lists\<close>
named_theorems inv_intros \<open>operations keep the invariant of their component\<close>

section \<open>Index loops\<close>

text \<open>\<^verbatim>\<open>for i < len(data) && p(data[i]) { i++ }\<close>\<close>

function skip_while :: "(byte \<Rightarrow> bool) \<Rightarrow> bytes \<Rightarrow> nat \<Rightarrow> nat" where
  "skip_while p data i = (if i < length data \<and> p (data ! i) then skip_while p data (Suc i) else i)"
  by pat_completeness auto
termination
  by (relation "measure (\<lambda>(p, data, i). length data - i)") auto

declare skip_while.simps [simp del]

lemma skip_while_ge: "i \<le> skip_while p data i"
proof (induction p data i rule: skip_while.induct)
  case (1 p data i)
  then show ?case by (subst skip_while.simps) auto
qed

lemma skip_while_le: "i \<le> length data \<Longrightarrow> skip_while p data i \<le> length data"
proof (induction p data i rule: skip_while.induct)
  case (1 p data i)
  then show ?case by (subst skip_while.simps) auto
qed

lemma skip_while_stop [scan_simps]:
  "\<not> (i < length data \<and> p (data ! i)) \<Longrightarrow> skip_while p data i = i"
  by (subst skip_while.simps) auto

lemma skip_while_stops_at:
  "skip_while p data i < length data \<Longrightarrow> \<not> p (data ! skip_while p data i)"
proof (induction p data i rule: skip_while.induct)
  case (1 p data i)
  then show ?case by (cases "i < length data \<and> p (data ! i)") (auto simp: skip_while.simps [of p data i])
qed

text \<open>A run of bytes that satisfy the test, starting at the index, is skipped whole.\<close>

lemma skip_while_run:
  assumes "\<forall>b \<in> set xs. p b"
  shows "skip_while p (pre @ xs @ rest) (length pre) = skip_while p (pre @ xs @ rest) (length pre + length xs)"
  using assms
proof (induction xs arbitrary: pre)
  case Nil
  then show ?case by simp
next
  case (Cons b bs)
  have "skip_while p ((pre @ [b]) @ bs @ rest) (length (pre @ [b])) =
      skip_while p ((pre @ [b]) @ bs @ rest) (length (pre @ [b]) + length bs)"
    using Cons.prems by (intro Cons.IH) auto
  then show ?case
    using Cons.prems by (subst skip_while.simps) (simp add: nth_append)
qed

definition stops :: "(byte \<Rightarrow> bool) \<Rightarrow> bytes \<Rightarrow> bool" where
  "stops p rest \<longleftrightarrow> (case rest of [] \<Rightarrow> True | b # _ \<Rightarrow> \<not> p b)"

lemma stops_simps [simp]: "stops p []" "stops p (b # bs) \<longleftrightarrow> \<not> p b"
  by (simp_all add: stops_def)

lemma skip_while_exact [scan_simps]:
  assumes "\<forall>b \<in> set xs. p b" "stops p rest"
  shows "skip_while p (pre @ xs @ rest) (length pre) = length pre + length xs"
proof -
  have "\<not> (length pre + length xs < length (pre @ xs @ rest)
      \<and> p ((pre @ xs @ rest) ! (length pre + length xs)))"
    using assms(2) by (cases rest) (auto simp: nth_append)
  then show ?thesis
    using skip_while_run [OF assms(1)] by (simp add: skip_while_stop)
qed

section \<open>Maps as association lists\<close>

text \<open>
  A Go map is an association list with distinct keys. \<^verbatim>\<open>m[k] = v\<close> is \<^const>\<open>AList.update\<close>,
  \<^verbatim>\<open>delete(m, k)\<close> is \<^const>\<open>AList.delete\<close>, a lookup is \<^const>\<open>map_of\<close>. Iteration visits every
  entry once, in the order of the list; Go leaves that order open, so what is stated about a
  result that depends on it is stated about its set or multiset of elements.
\<close>

definition wf_map :: "('k \<times> 'v) list \<Rightarrow> bool" where
  "wf_map m \<longleftrightarrow> distinct (map fst m)"

lemma wf_map_empty [simp]: "wf_map []"
  by (simp add: wf_map_def)

lemma wf_map_update [simp]: "wf_map m \<Longrightarrow> wf_map (AList.update k v m)"
  by (simp add: wf_map_def distinct_update)

lemma wf_map_delete [simp]: "wf_map m \<Longrightarrow> wf_map (AList.delete k m)"
  by (simp add: wf_map_def distinct_delete)

lemma wf_map_filter [simp]: "wf_map m \<Longrightarrow> wf_map (filter p m)"
  by (simp add: wf_map_def distinct_map_filter)

lemma map_of_update_if [alist_simps]:
  "map_of (AList.update k v m) k' = (if k' = k then Some v else map_of m k')"
  by (simp add: update_conv')

lemma map_of_delete_if [alist_simps]:
  "map_of (AList.delete k m) k' = (if k' = k then None else map_of m k')"
  by (simp add: delete_conv')

lemma map_of_filter_wf [alist_simps]:
  assumes "wf_map m"
  shows "map_of (filter p m) k = (case map_of m k of None \<Rightarrow> None | Some v \<Rightarrow> if p (k, v) then Some v else None)"
  using assms
proof (induction m)
  case (Cons kv m)
  obtain k' v' where "kv = (k', v')" by (cases kv)
  with Cons show ?case
    by (force simp: wf_map_def split: option.splits dest: map_of_SomeD)
qed simp

lemma wf_map_in_iff: "wf_map m \<Longrightarrow> (k, v) \<in> set m \<longleftrightarrow> map_of m k = Some v"
  by (simp add: wf_map_def)

lemma wf_map_values_card: "wf_map m \<Longrightarrow> length m = card (dom (map_of m))"
  by (simp only: wf_map_def dom_map_of_conv_image_fst distinct_card [of "map fst m", simplified, symmetric] length_map)

section \<open>Reachable states\<close>

text \<open>
  Every stateful component is a start state and a total step function over its operations. What
  holds at the start and is kept by every operation holds after every run.
\<close>

fun run_ops :: "('s \<Rightarrow> 'o \<Rightarrow> 's) \<Rightarrow> 's \<Rightarrow> 'o list \<Rightarrow> 's" where
  "run_ops step s [] = s"
| "run_ops step s (x # xs) = run_ops step (step s x) xs"

lemma run_ops_append [simp]: "run_ops step s (xs @ ys) = run_ops step (run_ops step s xs) ys"
  by (induction xs arbitrary: s) auto

locale component =
  fixes init :: 's
    and step :: "'s \<Rightarrow> 'o \<Rightarrow> 's"
    and inv :: "'s \<Rightarrow> bool"
  assumes inv_init: "inv init"
    and inv_step: "inv s \<Longrightarrow> inv (step s x)"
begin

lemma inv_run_from: "inv s \<Longrightarrow> inv (run_ops step s xs)"
  by (induction xs arbitrary: s) (auto intro: inv_step)

lemma inv_run: "inv (run_ops step init xs)"
  by (rule inv_run_from) (rule inv_init)

end

text \<open>Updating one element changes a sum over the list by the difference.\<close>

lemma sum_list_map_update:
  fixes m :: "'a \<Rightarrow> nat"
  shows "i < length xs \<Longrightarrow> sum_list (map m (xs[i := x])) + m (xs ! i) = sum_list (map m xs) + m x"
  by (induction xs arbitrary: i) (auto simp: less_Suc_eq_0_disj split: nat.split)

section \<open>Concurrent work that ends\<close>

text \<open>
  A step relation whose steps keep an invariant and use up an effort, whichever of them is taken: every run is as long as the effort at
  most.
\<close>

locale progress =
  fixes work :: "'s \<Rightarrow> 's \<Rightarrow> bool"
    and ok :: "'s \<Rightarrow> bool"
    and effort :: "'s \<Rightarrow> nat"
  assumes work_ok: "work s t \<Longrightarrow> ok s \<Longrightarrow> ok t"
    and work_effort: "work s t \<Longrightarrow> ok s \<Longrightarrow> effort t < effort s"
begin

lemma run_ok: "(work ^^ n) s t \<Longrightarrow> ok s \<Longrightarrow> ok t \<and> n + effort t \<le> effort s"
proof (induction n arbitrary: t)
  case (Suc n)
  then obtain u where "(work ^^ n) s u" "work u t" by auto
  then show ?case using Suc.IH [of u] Suc.prems(2) work_ok [of u t] work_effort [of u t] by auto
qed simp

lemma run_keeps: "(\<And>s t. work s t \<Longrightarrow> f t = f s) \<Longrightarrow> (work ^^ n) s t \<Longrightarrow> f t = f s"
  by (induction n arbitrary: t) auto

lemma run_ends: "ok s \<Longrightarrow> \<exists>n t. (work ^^ n) s t \<and> (\<nexists>u. work t u)"
proof (induction "effort s" arbitrary: s rule: less_induct)
  case less
  show ?case
  proof (cases "\<exists>u. work s u")
    case True
    then obtain u where u: "work s u" by blast
    then obtain n t where "(work ^^ n) u t" "\<nexists>v. work t v" using less.hyps [OF work_effort work_ok] less.prems by blast
    then show ?thesis using u by (meson relpowp_Suc_I2)
  next
    case False
    then show ?thesis by (intro exI [of _ 0] exI [of _ s]) auto
  qed
qed

end

end
