(* ===== verification/GoLib.thy ===== *)
theory GoLib
  imports Prelude
begin

text \<open>
  The parts of the Go standard library the sources call, as far as they call them: decimal
  numbers and quoting of \<^verbatim>\<open>strconv\<close>, the byte searches of \<^verbatim>\<open>bytes\<close> and \<^verbatim>\<open>strings\<close>, and the varints of
  \<^verbatim>\<open>encoding/binary\<close>. Nothing here is mapped to a line of the repository.
\<close>

section \<open>Decimal numbers\<close>

definition is_dec_digit :: "byte \<Rightarrow> bool" where
  "is_dec_digit b \<longleftrightarrow> CHR ''0'' \<le> b \<and> b \<le> CHR ''9''"

definition dec_digit :: "nat \<Rightarrow> byte" where
  "dec_digit d = char_of (48 + d)"

definition digit_val :: "byte \<Rightarrow> nat" where
  "digit_val b = bval b - 48"

text \<open>\<^verbatim>\<open>strconv.AppendUint\<close> and \<^verbatim>\<open>FormatUint\<close> in base 10; \<^verbatim>\<open>AppendInt\<close> and \<^verbatim>\<open>Itoa\<close> put a sign before it.\<close>

fun format_nat :: "nat \<Rightarrow> bytes" where
  "format_nat n = (if n < 10 then [dec_digit n] else format_nat (n div 10) @ [dec_digit (n mod 10)])"

declare format_nat.simps [simp del]

definition format_uint :: "u64 \<Rightarrow> bytes" where
  "format_uint v = format_nat (unat v)"

definition format_int :: "int \<Rightarrow> bytes" where
  "format_int v = (if v < 0 then CHR ''-'' # format_nat (nat (- v)) else format_nat (nat v))"

lemma bval_dec_digit [simp]: "d < 10 \<Longrightarrow> bval (dec_digit d) = 48 + d"
  by (simp add: dec_digit_def)

lemma digit_val_dec_digit [simp]: "d < 10 \<Longrightarrow> digit_val (dec_digit d) = d"
  by (simp add: digit_val_def)

lemma is_dec_digit_dec_digit [simp]: "d < 10 \<Longrightarrow> is_dec_digit (dec_digit d)"
  by (simp add: is_dec_digit_def less_eq_char_def)

lemma is_dec_digit_bval: "is_dec_digit b \<longleftrightarrow> 48 \<le> bval b \<and> bval b \<le> 57"
  by (simp add: is_dec_digit_def less_eq_char_def)

lemma format_nat_digits: "b \<in> set (format_nat n) \<Longrightarrow> is_dec_digit b"
proof (induction n rule: format_nat.induct)
  case (1 n)
  then show ?case by (subst (asm) (2) format_nat.simps) (auto split: if_splits)
qed

lemma format_nat_not_Nil [simp]: "format_nat n \<noteq> []"
  by (subst format_nat.simps) simp

lemma format_nat_hd [simp]: "is_dec_digit (hd (format_nat n))"
  by (rule format_nat_digits [of _ n]) simp

text \<open>The value of a run of digits, read from the left as the parsers do.\<close>

definition digits_val :: "'a::semiring_1 \<Rightarrow> bytes \<Rightarrow> 'a" where
  "digits_val acc bs = foldl (\<lambda>a b. a * 10 + of_nat (digit_val b)) acc bs"

lemma digits_val_format_nat: "digits_val 0 (format_nat n) = of_nat n"
proof (induction n rule: format_nat.induct)
  case (1 n)
  show ?case
  proof (cases "n < 10")
    case True
    then show ?thesis by (simp add: format_nat.simps [of n] digits_val_def)
  next
    case False
    have "of_nat (n div 10) * 10 + of_nat (n mod 10) = (of_nat (n div 10 * 10 + n mod 10) :: 'a)"
      by (simp only: of_nat_add of_nat_mult of_nat_numeral)
    with False 1 show ?thesis
      by (simp add: format_nat.simps [of n] digits_val_def)
  qed
qed

text \<open>
  The loop \<^verbatim>\<open>for i < len(s) && isDigit(s[i]) { acc = acc*10 + (s[i]-'0'); i++ }\<close>: the value, and how
  many bytes it read.
\<close>

fun read_digits :: "'a::semiring_1 \<Rightarrow> bytes \<Rightarrow> 'a \<times> nat" where
  "read_digits acc [] = (acc, 0)"
| "read_digits acc (b # bs) =
     (if is_dec_digit b
      then (case read_digits (acc * 10 + of_nat (digit_val b)) bs of (v, i) \<Rightarrow> (v, Suc i))
      else (acc, 0))"

lemma read_digits_run:
  assumes "\<forall>b \<in> set ds. is_dec_digit b" "stops is_dec_digit rest"
  shows "read_digits acc (ds @ rest) = (digits_val acc ds, length ds)"
  using assms
proof (induction ds arbitrary: acc)
  case Nil
  then show ?case by (cases rest) (simp_all add: digits_val_def)
next
  case (Cons d ds)
  then show ?case by (simp add: digits_val_def)
qed

lemma read_digits_format_nat [scan_simps]:
  "stops is_dec_digit rest \<Longrightarrow> read_digits 0 (format_nat n @ rest) = (of_nat n, length (format_nat n))"
  by (simp add: read_digits_run format_nat_digits digits_val_format_nat)

lemma read_digits_le: "snd (read_digits acc bs) \<le> length bs"
  by (induction acc bs rule: read_digits.induct) (auto split: prod.splits)

text \<open>
  \<^verbatim>\<open>strconv.ParseUint(s, 10, 64)\<close>: digits only (base 10 admits no sign and no underscore), an error when the
  string is empty or the value does not fit.
\<close>

definition parse_uint :: "bytes \<Rightarrow> u64 option" where
  "parse_uint s =
     (if s \<noteq> [] \<and> list_all is_dec_digit s \<and> digits_val 0 s < (2 ^ 64 :: nat)
      then Some (of_nat (digits_val 0 s)) else None)"

lemma parse_uint_format_uint [codec_simps]: "parse_uint (format_uint v) = Some v"
  using unsigned_less [of v, where 'a = nat]
  by (simp add: parse_uint_def format_uint_def digits_val_format_nat list_all_iff format_nat_digits)

lemma parse_uint_Nil [simp]: "parse_uint [] = None"
  by (simp add: parse_uint_def)

lemma format_uint_not_Nil [simp]: "format_uint v \<noteq> []"
  by (simp add: format_uint_def)

text \<open>
  \<^verbatim>\<open>strconv.Atoi\<close>: an optional sign, digits, and the range of a 64-bit \<^verbatim>\<open>int\<close>.
\<close>

definition atoi :: "bytes \<Rightarrow> int option" where
  "atoi s =
     (let body = (case s of b # bs \<Rightarrow> if b = CHR ''-'' \<or> b = CHR ''+'' then bs else s | [] \<Rightarrow> []);
          neg = (case s of b # _ \<Rightarrow> b = CHR ''-'' | [] \<Rightarrow> False);
          v = int (digits_val 0 body)
      in if body = [] \<or> \<not> list_all is_dec_digit body then None
         else if neg then (if v \<le> 2 ^ 63 then Some (- v) else None)
         else if v < 2 ^ 63 then Some v else None)"

section \<open>Searching\<close>

text \<open>\<^verbatim>\<open>bytes.IndexByte\<close>; \<^verbatim>\<open>-1\<close> is \<^const>\<open>None\<close>.\<close>

fun index_byte :: "byte \<Rightarrow> bytes \<Rightarrow> nat option" where
  "index_byte c [] = None"
| "index_byte c (b # bs) = (if b = c then Some 0 else map_option Suc (index_byte c bs))"

lemma index_byte_split [scan_simps]: "c \<notin> set xs \<Longrightarrow> index_byte c (xs @ c # ys) = Some (length xs)"
  by (induction xs) auto

lemma index_byte_None: "index_byte c bs = None \<longleftrightarrow> c \<notin> set bs"
  by (induction bs) auto

lemma index_byte_Some: "index_byte c bs = Some i \<Longrightarrow> i < length bs \<and> bs ! i = c \<and> c \<notin> set (take i bs)"
  by (induction bs arbitrary: i) (auto split: if_splits)

text \<open>\<^verbatim>\<open>bytes.Index\<close>, \<^verbatim>\<open>bytes.Contains\<close>, \<^verbatim>\<open>strings.HasPrefix\<close>, \<^verbatim>\<open>HasSuffix\<close>.\<close>

fun has_prefix :: "bytes \<Rightarrow> bytes \<Rightarrow> bool" where
  "has_prefix s [] = True"
| "has_prefix [] (p # ps) = False"
| "has_prefix (b # bs) (p # ps) = (b = p \<and> has_prefix bs ps)"

lemma has_prefix_iff: "has_prefix s p \<longleftrightarrow> take (length p) s = p"
  by (induction s p rule: has_prefix.induct) auto

definition has_suffix :: "bytes \<Rightarrow> bytes \<Rightarrow> bool" where
  "has_suffix s p \<longleftrightarrow> has_prefix (rev s) (rev p)"

fun index_sub :: "bytes \<Rightarrow> bytes \<Rightarrow> nat option" where
  "index_sub [] p = (if p = [] then Some 0 else None)"
| "index_sub (b # bs) p = (if has_prefix (b # bs) p then Some 0 else map_option Suc (index_sub bs p))"

definition contains :: "bytes \<Rightarrow> bytes \<Rightarrow> bool" where
  "contains s p \<longleftrightarrow> index_sub s p \<noteq> None"

section \<open>Quoting\<close>

text \<open>
  \<^verbatim>\<open>strconv.AppendQuote\<close> walks the runes of its argument. \<^verbatim>\<open>utf8.DecodeRuneInString\<close> returns the rune and
  its width, \<^const>\<open>None\<close> here where it returns \<^verbatim>\<open>(RuneError, 1)\<close> for an invalid byte. Which runes
  above \<^verbatim>\<open>0x7f\<close> \<^verbatim>\<open>strconv.IsPrint\<close> accepts is a Unicode table: it is the parameter \<open>isprint\<close>.
\<close>

definition cont_byte :: "nat \<Rightarrow> nat \<Rightarrow> byte \<Rightarrow> bool" where
  "cont_byte lo hi b \<longleftrightarrow> lo \<le> bval b \<and> bval b \<le> hi"

fun decode_rune :: "bytes \<Rightarrow> (nat \<times> nat) option" where
  "decode_rune [] = None"
| "decode_rune (b0 # bs) =
     (let x = bval b0 in
      if x < 128 then Some (x, 1)
      else if 194 \<le> x \<and> x \<le> 223 then
        (case bs of b1 # _ \<Rightarrow>
           if cont_byte 128 191 b1 then Some ((x - 192) * 64 + (bval b1 - 128), 2) else None
         | _ \<Rightarrow> None)
      else if 224 \<le> x \<and> x \<le> 239 then
        (case bs of b1 # b2 # _ \<Rightarrow>
           if cont_byte (if x = 224 then 160 else 128) (if x = 237 then 159 else 191) b1
              \<and> cont_byte 128 191 b2
           then Some ((x - 224) * 4096 + (bval b1 - 128) * 64 + (bval b2 - 128), 3) else None
         | _ \<Rightarrow> None)
      else if 240 \<le> x \<and> x \<le> 244 then
        (case bs of b1 # b2 # b3 # _ \<Rightarrow>
           if cont_byte (if x = 240 then 144 else 128) (if x = 244 then 143 else 191) b1
              \<and> cont_byte 128 191 b2 \<and> cont_byte 128 191 b3
           then Some ((x - 240) * 262144 + (bval b1 - 128) * 4096 + (bval b2 - 128) * 64
                      + (bval b3 - 128), 4) else None
         | _ \<Rightarrow> None)
      else None)"

definition hex_digit :: "nat \<Rightarrow> byte" where
  "hex_digit d = ''0123456789abcdef'' ! (d mod 16)"

fun hex_digits :: "nat \<Rightarrow> nat \<Rightarrow> bytes" where
  "hex_digits 0 v = []"
| "hex_digits (Suc k) v = hex_digit (v div 16 ^ k) # hex_digits k v"

definition escaped_rune :: "(nat \<Rightarrow> bool) \<Rightarrow> nat \<Rightarrow> bytes \<Rightarrow> bytes" where
  "escaped_rune isprint r raw =
     (if r = 34 \<or> r = 92 then [CHR 0x5C, char_of r]
      else if (if r < 128 then 32 \<le> r \<and> r < 127 else isprint r) then raw
      else if r = 7 then [CHR 0x5C, CHR ''a'']
      else if r = 8 then [CHR 0x5C, CHR ''b'']
      else if r = 12 then [CHR 0x5C, CHR ''f'']
      else if r = 10 then [CHR 0x5C, CHR ''n'']
      else if r = 13 then [CHR 0x5C, CHR ''r'']
      else if r = 9 then [CHR 0x5C, CHR ''t'']
      else if r = 11 then [CHR 0x5C, CHR ''v'']
      else if r < 32 \<or> r = 127 then [CHR 0x5C, CHR ''x''] @ hex_digits 2 r
      else if r < 65536 then [CHR 0x5C, CHR ''u''] @ hex_digits 4 r
      else [CHR 0x5C, CHR ''U''] @ hex_digits 8 r)"

function quote_runes :: "(nat \<Rightarrow> bool) \<Rightarrow> bytes \<Rightarrow> bytes" where
  "quote_runes isprint [] = []"
| "quote_runes isprint (b # bs) =
     (case decode_rune (b # bs) of
        None \<Rightarrow> [CHR 0x5C, CHR ''x''] @ hex_digits 2 (bval b) @ quote_runes isprint bs
      | Some (r, width) \<Rightarrow>
          escaped_rune isprint r (take width (b # bs)) @ quote_runes isprint (drop (width - 1) bs))"
  by pat_completeness auto
termination
  by (relation "measure (\<lambda>(p, s). length s)") auto

definition quote :: "(nat \<Rightarrow> bool) \<Rightarrow> bytes \<Rightarrow> bytes" where
  "quote isprint s = [CHR 0x22] @ quote_runes isprint s @ [CHR 0x22]"

text \<open>Printable ASCII other than the quote and the backslash is quoted as it is.\<close>

definition plain_byte :: "byte \<Rightarrow> bool" where
  "plain_byte b \<longleftrightarrow> 32 \<le> bval b \<and> bval b < 127 \<and> bval b \<noteq> 34 \<and> bval b \<noteq> 92"

lemma quote_runes_plain: "\<forall>b \<in> set s. plain_byte b \<Longrightarrow> quote_runes isprint s = s"
  by (induction s) (auto simp: plain_byte_def escaped_rune_def)

lemma quote_plain [scan_simps]:
  "\<forall>b \<in> set s. plain_byte b \<Longrightarrow> quote isprint s = [CHR 0x22] @ s @ [CHR 0x22]"
  by (simp add: quote_def quote_runes_plain)

section \<open>Varints\<close>

text \<open>\<^verbatim>\<open>binary.PutUvarint\<close>: seven bits at a time, the lowest first, the top bit set on all but the last byte.\<close>

fun uvarint_bytes :: "nat \<Rightarrow> bytes" where
  "uvarint_bytes n = (if n < 128 then [char_of n] else char_of (n mod 128 + 128) # uvarint_bytes (n div 128))"

declare uvarint_bytes.simps [simp del]

definition put_uvarint :: "u64 \<Rightarrow> bytes" where
  "put_uvarint v = uvarint_bytes (unat v)"

text \<open>
  \<^verbatim>\<open>binary.Uvarint\<close>: the value and the number of bytes read; \<open>0\<close> bytes when the input ends too early, a
  negative number when the value does not fit. The bits of the bytes do not overlap, so that \<^verbatim>\<open>|\<close> adds.
\<close>

fun uvarint_from :: "nat \<Rightarrow> nat \<Rightarrow> bytes \<Rightarrow> u64 \<times> int" where
  "uvarint_from i x [] = (0, 0)"
| "uvarint_from i x (b # bs) =
     (if i = 10 then (0, - (int i + 1))
      else if bval b < 128 then
        (if i = 9 \<and> bval b > 1 then (0, - (int i + 1)) else (of_nat (x + bval b * 2 ^ (7 * i)), int i + 1))
      else uvarint_from (Suc i) (x + (bval b mod 128) * 2 ^ (7 * i)) bs)"

definition uvarint :: "bytes \<Rightarrow> u64 \<times> int" where
  "uvarint bs = uvarint_from 0 0 bs"

lemma uvarint_from_bytes:
  assumes "n * 2 ^ (7 * i) < 2 ^ 64" "i \<le> 9"
  shows "uvarint_from i x (uvarint_bytes n @ rest) = (of_nat (x + n * 2 ^ (7 * i)), int (i + length (uvarint_bytes n)))"
  using assms
proof (induction n arbitrary: i x rule: uvarint_bytes.induct)
  case (1 n)
  show ?case
  proof (cases "n < 128")
    case True
    have "\<not> (i = 9 \<and> n > 1)"
    proof
      assume "i = 9 \<and> n > 1"
      then have "2 * 2 ^ 63 \<le> n * 2 ^ (7 * i)" by simp
      with 1(2) show False by simp
    qed
    with True 1 show ?thesis by (auto simp: uvarint_bytes.simps [of n])
  next
    case False
    have "2 ^ 7 * 2 ^ (7 * i) \<le> n * 2 ^ (7 * i)" using False by (intro mult_right_mono) auto
    with 1(2) have "(2::nat) ^ 7 * 2 ^ (7 * i) < 2 ^ 64" by (rule le_less_trans [rotated])
    then have "(2::nat) ^ (7 + 7 * i) < 2 ^ 64" by (simp only: power_add)
    then have "7 + 7 * i < 64" by (rule power_less_imp_less_exp [rotated]) simp
    then have i: "Suc i \<le> 9" by simp
    have "n div 128 * 2 ^ (7 * Suc i) = (n div 128 * 128) * 2 ^ (7 * i)" by (simp add: power_add)
    also have "\<dots> \<le> n * 2 ^ (7 * i)" by (intro mult_right_mono) auto
    finally have fits: "n div 128 * 2 ^ (7 * Suc i) < 2 ^ 64" using 1(2) by simp
    have b: "bval (char_of (n mod 128 + 128) :: char) = n mod 128 + 128" by simp
    have sum: "(x + n mod 128 * 2 ^ (7 * i)) + n div 128 * 2 ^ (7 * Suc i) = x + n * 2 ^ (7 * i)"
    proof -
      have "n mod 128 * 2 ^ (7 * i) + n div 128 * 2 ^ (7 * Suc i) = (n mod 128 + 128 * (n div 128)) * 2 ^ (7 * i)"
        unfolding distrib_right mult_Suc_right power_add by simp
      also have "n mod 128 + 128 * (n div 128) = n" by (simp add: add.commute)
      finally show ?thesis by (simp only: add.assoc)
    qed
    show ?thesis
      using 1(1) [OF False fits i, of "x + n mod 128 * 2 ^ (7 * i)", unfolded sum] False b i
      by (simp add: uvarint_bytes.simps [of n])
  qed
qed

lemma uvarint_bytes_not_Nil [simp]: "uvarint_bytes n \<noteq> []" "put_uvarint v \<noteq> []"
  by (simp_all add: uvarint_bytes.simps [of n] put_uvarint_def uvarint_bytes.simps [of "unat v"])

lemma uvarint_put [codec_simps]: "uvarint (put_uvarint v @ rest) = (v, int (length (put_uvarint v)))"
  using uvarint_from_bytes [of "unat v" 0 0 rest] unsigned_less [of v, where 'a = nat]
  by (simp add: uvarint_def put_uvarint_def)

lemma uvarint_from_bound: "snd (uvarint_from i x bs) \<le> int (i + length bs)"
  by (induction i x bs rule: uvarint_from.induct) auto

lemma uvarint_bound: "snd (uvarint bs) \<le> int (length bs)"
  using uvarint_from_bound [of 0 0 bs] by (simp add: uvarint_def)

end
