(* ===== verification/JsonScan.thy ===== *)
theory JsonScan
  imports GoLib
begin

text \<open>
  The JSON scanner of \<^verbatim>\<open>packet_view.go\<close>: it finds where a JSON value ends without decoding it, and
  iterates over the elements of an array by index (\<^verbatim>\<open>JSONArrayView\<close>). Indices into the data are kept
  as the code has them, and every error return is a value of \<open>packet_error\<close>.

  The second half gives the scanner a specification: \<open>json\<close> is the grammar of JSON documents,
  \<open>json_text\<close> writes one down, and the scanner finds exactly the end of what was written.
\<close>

section \<open>The scanner\<close>

datatype packet_error =
    EmptyPacket | InvalidTypeByte byte | AttachmentCountExpected | AttachmentCountNotPositive
  | JSONArrayExpected | UnterminatedArray | InvalidArrayDelimiter byte
  | EmptyEventPayload | InvalidEventName packet_error | EmptyEventName
  | JSONStringExpected | EscapedJSONString
  | JSONValueExpected | InvalidValueStart byte
  | UnterminatedString | NestingExceeded | MismatchedDelimiter byte | UnterminatedComposite byte
  | InvalidLiteral | InvalidNumber | InvalidNumberFraction | InvalidNumberExponent

definition isDigit :: "byte \<Rightarrow> bool" where
  "isDigit b \<longleftrightarrow> CHR ''0'' \<le> b \<and> b \<le> CHR ''9''"

definition isJSONSpace :: "byte \<Rightarrow> bool" where
  "isJSONSpace b \<longleftrightarrow> b = CHR '' '' \<or> b = CHR 0x0A \<or> b = CHR 0x0D \<or> b = CHR 0x09"

text \<open>\<^verbatim>\<open>scanJSONString\<close>: the loop from \<open>pos + 1\<close>, where a backslash skips the byte after it.\<close>

function scan_string_from :: "bytes \<Rightarrow> nat \<Rightarrow> (packet_error, nat) result" where
  "scan_string_from data i =
     (if i < length data then
        if data ! i = CHR 0x5C then scan_string_from data (i + 2)
        else if data ! i = CHR 0x22 then Inr (i + 1)
        else scan_string_from data (i + 1)
      else Inl UnterminatedString)"
  by pat_completeness auto
termination
  by (relation "measure (\<lambda>(data, i). length data - i)") auto

declare scan_string_from.simps [simp del]

definition scanJSONString :: "bytes \<Rightarrow> nat \<Rightarrow> (packet_error, nat) result" where
  "scanJSONString data pos = scan_string_from data (pos + 1)"

lemma scan_string_from_bounds:
  "scan_string_from data i = Inr e \<Longrightarrow> i < e \<and> e \<le> length data"
proof (induction data i rule: scan_string_from.induct)
  case (1 data i)
  then show ?case
    by (subst (asm) (3) scan_string_from.simps) (force split: if_splits)
qed

text \<open>
  \<^verbatim>\<open>scanJSONComposite\<close>. The array \<^verbatim>\<open>stack[0..depth)\<close> of 64 bytes is the list \<open>stack\<close>, its top first, so
  \<^verbatim>\<open>depth\<close> is its length. A string inside the composite is skipped whole.
\<close>

function scan_composite_from :: "byte \<Rightarrow> bytes \<Rightarrow> bytes \<Rightarrow> nat \<Rightarrow> (packet_error, nat) result" where
  "scan_composite_from opn stack data i =
     (if i < length data then
        (let b = data ! i in
         if b = CHR 0x22 then
           (case scanJSONString data i of
              Inl err \<Rightarrow> Inl err
            | Inr end \<Rightarrow> scan_composite_from opn stack data end)
         else if b = CHR ''{'' then
           (if length stack = 64 then Inl NestingExceeded
            else scan_composite_from opn (CHR ''}'' # stack) data (i + 1))
         else if b = CHR ''['' then
           (if length stack = 64 then Inl NestingExceeded
            else scan_composite_from opn (CHR '']'' # stack) data (i + 1))
         else if b = CHR ''}'' \<or> b = CHR '']'' then
           (case stack of
              [] \<Rightarrow> Inl (MismatchedDelimiter b)
            | close # stack' \<Rightarrow>
                if b \<noteq> close then Inl (MismatchedDelimiter b)
                else if stack' = [] then Inr (i + 1)
                else scan_composite_from opn stack' data (i + 1))
         else scan_composite_from opn stack data (i + 1))
      else Inl (UnterminatedComposite opn))"
  by pat_completeness auto
termination
  by (relation "measure (\<lambda>(opn, stack, data, i). length data - i)")
    (auto simp: scanJSONString_def dest!: scan_string_from_bounds)

declare scan_composite_from.simps [simp del]

definition scanJSONComposite :: "bytes \<Rightarrow> nat \<Rightarrow> byte \<Rightarrow> byte \<Rightarrow> (packet_error, nat) result" where
  "scanJSONComposite data pos opn close = scan_composite_from opn [close] data (pos + 1)"

definition scanLiteral :: "bytes \<Rightarrow> nat \<Rightarrow> bytes \<Rightarrow> (packet_error, nat) result" where
  "scanLiteral data pos lit =
     (if length data - pos < length lit then Inl InvalidLiteral
      else if list_ex (\<lambda>i. data ! (pos + i) \<noteq> lit ! i) [0..<length lit] then Inl InvalidLiteral
      else Inr (pos + length lit))"

definition scan_fraction :: "bytes \<Rightarrow> nat \<Rightarrow> (packet_error, nat) result" where
  "scan_fraction data i =
     (if i < length data \<and> data ! i = CHR ''.'' then
        (if i + 1 \<ge> length data \<or> \<not> isDigit (data ! (i + 1)) then Inl InvalidNumberFraction
         else Inr (skip_while isDigit data (i + 1)))
      else Inr i)"

definition scan_exponent :: "bytes \<Rightarrow> nat \<Rightarrow> (packet_error, nat) result" where
  "scan_exponent data i =
     (if i < length data \<and> (data ! i = CHR ''e'' \<or> data ! i = CHR ''E'') then
        (let j = (if i + 1 < length data \<and> (data ! (i + 1) = CHR ''+'' \<or> data ! (i + 1) = CHR ''-'')
                  then i + 2 else i + 1)
         in if j \<ge> length data \<or> \<not> isDigit (data ! j) then Inl InvalidNumberExponent
            else Inr (skip_while isDigit data j))
      else Inr i)"

definition scanJSONNumber :: "bytes \<Rightarrow> nat \<Rightarrow> (packet_error, nat) result" where
  "scanJSONNumber data pos =
     (let i = (if data ! pos = CHR ''-'' then pos + 1 else pos) in
      if i \<ge> length data \<or> \<not> isDigit (data ! i) then Inl InvalidNumber
      else (case scan_fraction data (skip_while isDigit data i) of
              Inl err \<Rightarrow> Inl err
            | Inr i' \<Rightarrow> scan_exponent data i'))"

definition scanJSONValue :: "bytes \<Rightarrow> nat \<Rightarrow> (packet_error, nat) result" where
  "scanJSONValue data pos =
     (if pos \<ge> length data then Inl JSONValueExpected
      else let b = data ! pos in
        if b = CHR 0x22 then scanJSONString data pos
        else if b = CHR ''{'' then scanJSONComposite data pos (CHR ''{'') (CHR ''}'')
        else if b = CHR ''['' then scanJSONComposite data pos (CHR ''['') (CHR '']'')
        else if b = CHR ''t'' then scanLiteral data pos ''true''
        else if b = CHR ''f'' then scanLiteral data pos ''false''
        else if b = CHR ''n'' then scanLiteral data pos ''null''
        else if b = CHR ''-'' \<or> isDigit b then scanJSONNumber data pos
        else Inl (InvalidValueStart b))"

section \<open>The array view\<close>

record JSONArrayView =
  av_data :: bytes
  av_pos :: nat

definition empty_view :: JSONArrayView where
  "empty_view = \<lparr>av_data = [], av_pos = 0\<rparr>"

definition NewJSONArrayView :: "bytes \<Rightarrow> (packet_error, JSONArrayView) result" where
  "NewJSONArrayView data =
     (if length data < 2 \<or> data ! 0 \<noteq> CHR ''['' then Inl JSONArrayExpected
      else Inr \<lparr>av_data = data, av_pos = 1\<rparr>)"

text \<open>
  \<^verbatim>\<open>Next\<close> returns the element (\<^const>\<open>None\<close> for \<^verbatim>\<open>ok == false\<close>) or the error, and the advanced view: the receiver
  is a pointer, so the position it reached is kept on every path, errors included.
\<close>

definition view_next ::
    "JSONArrayView \<Rightarrow> (packet_error, bytes option) result \<times> JSONArrayView" where
  "view_next v =
     (let data = av_data v in
      if data = [] then (Inr None, v)
      else let start = skip_while isJSONSpace data (av_pos v) in
        if start \<ge> length data then (Inl UnterminatedArray, v\<lparr>av_pos := start\<rparr>)
        else if data ! start = CHR '']'' then (Inr None, v\<lparr>av_pos := start + 1\<rparr>)
        else (case scanJSONValue data start of
          Inl err \<Rightarrow> (Inl err, v\<lparr>av_pos := start\<rparr>)
        | Inr end \<Rightarrow>
            (let stop = skip_while isJSONSpace data end in
             if stop \<ge> length data then (Inl UnterminatedArray, v\<lparr>av_pos := stop\<rparr>)
             else if data ! stop = CHR '','' then
               (Inr (Some (take (end - start) (drop start data))), v\<lparr>av_pos := stop + 1\<rparr>)
             else if data ! stop = CHR '']'' then
               (Inr (Some (take (end - start) (drop start data))), v\<lparr>av_pos := stop\<rparr>)
             else (Inl (InvalidArrayDelimiter (data ! stop)), v\<lparr>av_pos := stop\<rparr>))))"

section \<open>String contents\<close>

definition unquoteJSONStringView :: "bytes \<Rightarrow> (packet_error, bytes) result" where
  "unquoteJSONStringView data =
     (if length data < 2 \<or> data ! 0 \<noteq> CHR 0x22 \<or> data ! (length data - 1) \<noteq> CHR 0x22
      then Inl JSONStringExpected
      else let body = take (length data - 2) (drop 1 data) in
        if \<exists>b \<in> set body. b = CHR 0x5C \<or> bval b < 32 then Inl EscapedJSONString
        else Inr body)"

definition json_escape :: "byte \<Rightarrow> bytes" where
  "json_escape c =
     (if c = CHR 0x5C \<or> c = CHR 0x22 then [CHR 0x5C, c]
      else if c = CHR 0x0A then [CHR 0x5C, CHR ''n'']
      else if c = CHR 0x0D then [CHR 0x5C, CHR ''r'']
      else if c = CHR 0x09 then [CHR 0x5C, CHR ''t'']
      else if bval c < 32 then
        [CHR 0x5C, CHR ''u'', CHR ''0'', CHR ''0'', hex_digit (bval c div 16), hex_digit (bval c mod 16)]
      else [c])"

fun appendJSONStringContent :: "bytes \<Rightarrow> bytes \<Rightarrow> bytes" where
  "appendJSONStringContent dst [] = dst"
| "appendJSONStringContent dst (c # s) = appendJSONStringContent (dst @ json_escape c) s"


section \<open>The scanner stays inside the data\<close>

lemma scan_composite_from_bounds:
  "scan_composite_from opn stack data i = Inr e \<Longrightarrow> i < e \<and> e \<le> length data"
proof (induction opn stack data i rule: scan_composite_from.induct)
  case (1 opn stack data i)
  show ?case
  proof (cases "i < length data")
    case True
    with 1 show ?thesis
      by (subst (asm) (6) scan_composite_from.simps)
        (force simp: Let_def scanJSONString_def split: if_splits sum.splits list.splits
          dest: scan_string_from_bounds)
  next
    case False
    with 1 show ?thesis by (subst (asm) (6) scan_composite_from.simps) simp
  qed
qed

lemma scan_fraction_bounds:
  "scan_fraction data i = Inr e \<Longrightarrow> i \<le> length data \<Longrightarrow> i \<le> e \<and> e \<le> length data"
  using skip_while_ge [of "i + 1" isDigit data] skip_while_le [of "i + 1" data isDigit]
  by (auto simp: scan_fraction_def split: if_splits)

lemma scan_exponent_bounds:
  "scan_exponent data i = Inr e \<Longrightarrow> i \<le> length data \<Longrightarrow> i \<le> e \<and> e \<le> length data"
  using skip_while_ge [of "i + 1" isDigit data] skip_while_le [of "i + 1" data isDigit]
    skip_while_ge [of "i + 2" isDigit data] skip_while_le [of "i + 2" data isDigit]
  by (auto simp: scan_exponent_def Let_def split: if_splits)

lemma skip_while_step: "i < length data \<Longrightarrow> p (data ! i) \<Longrightarrow> i < skip_while p data i"
  by (subst skip_while.simps) (simp add: Suc_le_lessD skip_while_ge)

lemma scanJSONNumber_bounds:
  assumes "scanJSONNumber data pos = Inr e" "pos < length data"
  shows "pos < e \<and> e \<le> length data"
proof -
  define i where "i = (if data ! pos = CHR ''-'' then pos + 1 else pos)"
  from assms obtain i' where *: "i < length data" "isDigit (data ! i)"
      "scan_fraction data (skip_while isDigit data i) = Inr i'" "scan_exponent data i' = Inr e"
    by (auto simp: scanJSONNumber_def i_def [symmetric] Let_def split: if_splits sum.splits)
  have "pos \<le> i" by (simp add: i_def)
  moreover have "i < skip_while isDigit data i" "skip_while isDigit data i \<le> length data"
    using * by (auto intro: skip_while_step skip_while_le)
  ultimately show ?thesis
    using scan_fraction_bounds [OF *(3)] scan_exponent_bounds [OF *(4)] by simp
qed

lemma scanJSONValue_bounds:
  "scanJSONValue data pos = Inr e \<Longrightarrow> pos < e \<and> e \<le> length data"
  by (auto simp: scanJSONValue_def Let_def scanJSONString_def scanJSONComposite_def scanLiteral_def
      split: if_splits dest: scan_string_from_bounds scan_composite_from_bounds scanJSONNumber_bounds)

section \<open>The scanner looks only at the value\<close>

text \<open>
  What the scanner returns for a value does not change when the value stands inside other
  data, as long as the byte after it could not continue a number.
\<close>

definition number_byte :: "byte \<Rightarrow> bool" where
  "number_byte b \<longleftrightarrow> isDigit b \<or> b = CHR ''.'' \<or> b = CHR ''e'' \<or> b = CHR ''E''"

lemma stops_number_byte: "stops number_byte rest \<Longrightarrow> stops isDigit rest"
  by (cases rest) (auto simp: number_byte_def)

lemma scan_string_from_embed:
  "scan_string_from data i = Inr e \<Longrightarrow>
   scan_string_from (pre @ data @ rest) (length pre + i) = Inr (length pre + e)"
proof (induction data i rule: scan_string_from.induct)
  case (1 data i)
  from "1.prems" have "i < length data"
    by (subst (asm) scan_string_from.simps) (simp split: if_splits)
  with 1 show ?case
    by (subst scan_string_from.simps, subst (asm) (3) scan_string_from.simps)
      (auto simp: nth_append add.assoc split: if_splits)
qed

lemma scanJSONString_embed:
  "scanJSONString data i = Inr e \<Longrightarrow>
   scanJSONString (pre @ data @ rest) (length pre + i) = Inr (length pre + e)"
  using scan_string_from_embed [of data "i + 1" e pre rest] by (simp add: scanJSONString_def)

lemma scan_composite_from_embed:
  "scan_composite_from opn stack data i = Inr e \<Longrightarrow>
   scan_composite_from opn stack (pre @ data @ rest) (length pre + i) = Inr (length pre + e)"
proof (induction opn stack data i rule: scan_composite_from.induct)
  case (1 opn stack data i)
  note here = scan_composite_from.simps [of opn stack data i]
  note there = scan_composite_from.simps [of opn stack "pre @ data @ rest" "length pre + i"]
  from "1.prems" have i: "i < length data"
    by (simp add: here split: if_splits)
  then have b: "(data @ rest) ! i = data ! i"
    by (simp add: nth_append)
  consider (str) "data ! i = CHR 0x22" | (opn) "data ! i = CHR ''{'' \<or> data ! i = CHR ''[''"
    | (close) "data ! i = CHR ''}'' \<or> data ! i = CHR '']''"
    | (other) "data ! i \<notin> {CHR 0x22, CHR ''{'', CHR ''['', CHR ''}'', CHR '']''}"
    by blast
  then show ?case
  proof cases
    case str
    with "1.prems" i obtain end' where *: "scanJSONString data i = Inr end'"
        "scan_composite_from opn stack data end' = Inr e"
      by (auto simp: here Let_def split: sum.splits)
    with "1.IH"(1) i str show ?thesis
      by (simp add: there b Let_def scanJSONString_embed)
  next
    case opn
    with 1 i show ?thesis
      by (auto simp: there here b Let_def split: if_splits)
  next
    case close
    with 1 i show ?thesis
      by (auto simp: there here b Let_def split: if_splits list.splits)
  next
    case other
    with 1 i show ?thesis
      by (simp add: there here b Let_def)
  qed
qed

lemma skip_while_embed:
  assumes "i \<le> length data" "stops p rest"
  shows "skip_while p (pre @ data @ rest) (length pre + i) = length pre + skip_while p data i"
proof -
  define j where "j = skip_while p data i"
  have j: "i \<le> j" "j \<le> length data"
    using assms(1) by (simp_all add: j_def skip_while_ge skip_while_le)
  have run: "\<forall>b \<in> set (take (j - i) (drop i data)). p b"
    using assms(1) unfolding j_def
  proof (induction p data i rule: skip_while.induct)
    case (1 p data i)
    then show ?case
      by (cases "i < length data \<and> p (data ! i)")
        (auto simp: skip_while.simps [of p data i] Cons_nth_drop_Suc [symmetric] Suc_diff_le skip_while_ge
          Suc_diff_Suc skip_while_step take_Cons' split: if_splits)
  qed
  have stop: "stops p (drop j data @ rest)"
    using assms(2) j(2) skip_while_stops_at [of p data i]
    by (cases "j < length data") (auto simp: j_def Cons_nth_drop_Suc [symmetric])
  have "take (j - i) (drop i data) @ drop j data = drop i data"
    using j by (metis append_take_drop_id drop_drop le_add_diff_inverse2)
  then have split: "take i data @ take (j - i) (drop i data) @ drop j data @ rest = data @ rest"
    by (metis append.assoc append_take_drop_id)
  show ?thesis
    using skip_while_exact [OF run stop, of "pre @ take i data"] assms(1) j
    by (simp add: split j_def [symmetric])
qed

lemma nth_embed: "i < length data \<Longrightarrow> (pre @ data @ rest) ! (length pre + i) = data ! i"
  by (simp add: nth_append)

lemma nth_embed_Suc [simp]:
  "Suc i < length data \<Longrightarrow> (pre @ data @ rest) ! Suc (length pre + i) = data ! Suc i"
  "Suc (Suc i) < length data \<Longrightarrow> (pre @ data @ rest) ! Suc (Suc (length pre + i)) = data ! Suc (Suc i)"
  using nth_embed [of "Suc i" data pre rest] nth_embed [of "Suc (Suc i)" data pre rest]
  by (simp_all add: nth_append del: nth_append_length_plus)

lemma scan_fraction_embed:
  assumes "scan_fraction data i = Inr e" "i \<le> length data" "stops number_byte rest"
  shows "scan_fraction (pre @ data @ rest) (length pre + i) = Inr (length pre + e)"
proof (cases "i < length data \<and> data ! i = CHR ''.''")
  case True
  with assms(1) have *: "i + 1 < length data" "isDigit (data ! (i + 1))" "e = skip_while isDigit data (i + 1)"
    by (auto simp: scan_fraction_def split: if_splits)
  with True show ?thesis
    using skip_while_embed [of "i + 1" data isDigit rest pre] assms(3)
      nth_embed [of i data pre rest] nth_embed [of "i + 1" data pre rest]
    by (simp add: scan_fraction_def stops_number_byte)
next
  case False
  then have "\<not> (length pre + i < length (pre @ data @ rest) \<and> (pre @ data @ rest) ! (length pre + i) = CHR ''.'')"
    using assms(2,3) by (cases rest) (auto simp: nth_append number_byte_def)
  with False assms(1) show ?thesis by (auto simp: scan_fraction_def)
qed

lemma scan_exponent_embed:
  assumes "scan_exponent data i = Inr e" "i \<le> length data" "stops number_byte rest"
  shows "scan_exponent (pre @ data @ rest) (length pre + i) = Inr (length pre + e)"
proof (cases "i < length data \<and> (data ! i = CHR ''e'' \<or> data ! i = CHR ''E'')")
  case True
  define j where "j = (if i + 1 < length data \<and> (data ! (i + 1) = CHR ''+'' \<or> data ! (i + 1) = CHR ''-'')
                       then i + 2 else i + 1)"
  from assms(1) True have *: "j < length data" "isDigit (data ! j)" "e = skip_while isDigit data j"
    by (auto simp: scan_exponent_def j_def Let_def split: if_splits)
  then have "i + 1 < length data"
    by (auto simp: j_def split: if_splits)
  with True * show ?thesis
    using skip_while_embed [of j data isDigit rest pre] assms(3) nth_embed [of j data pre rest]
      nth_embed [of i data pre rest] nth_embed [of "i + 1" data pre rest]
    by (auto simp: scan_exponent_def Let_def stops_number_byte j_def split: if_splits)
next
  case False
  then have "\<not> (length pre + i < length (pre @ data @ rest) \<and>
      ((pre @ data @ rest) ! (length pre + i) = CHR ''e'' \<or> (pre @ data @ rest) ! (length pre + i) = CHR ''E''))"
    using assms(2,3) by (cases rest) (auto simp: nth_append number_byte_def)
  with False assms(1) show ?thesis by (auto simp: scan_exponent_def)
qed

lemma scanJSONNumber_embed:
  assumes "scanJSONNumber data pos = Inr e" "pos < length data" "stops number_byte rest"
  shows "scanJSONNumber (pre @ data @ rest) (length pre + pos) = Inr (length pre + e)"
proof -
  define i where "i = (if data ! pos = CHR ''-'' then pos + 1 else pos)"
  from assms obtain i' where *: "i < length data" "isDigit (data ! i)"
      "scan_fraction data (skip_while isDigit data i) = Inr i'" "scan_exponent data i' = Inr e"
    by (auto simp: scanJSONNumber_def i_def [symmetric] Let_def split: if_splits sum.splits)
  have "skip_while isDigit data i \<le> length data"
    using * by (simp add: skip_while_le)
  then have f: "scan_fraction (pre @ data @ rest) (length pre + skip_while isDigit data i) = Inr (length pre + i')"
      and "i' \<le> length data"
    using * assms(3) scan_fraction_bounds [OF *(3)] by (simp_all add: scan_fraction_embed)
  then have x: "scan_exponent (pre @ data @ rest) (length pre + i') = Inr (length pre + e)"
    using * assms(3) by (simp add: scan_exponent_embed)
  have s: "skip_while isDigit (pre @ data @ rest) (length pre + i) = length pre + skip_while isDigit data i"
    using * assms(3) by (simp add: skip_while_embed stops_number_byte)
  show ?thesis
    using assms(2) * f x s nth_embed [of pos data pre rest] nth_embed [of i data pre rest]
    by (auto simp: scanJSONNumber_def Let_def i_def split: if_splits)
qed

lemma scanJSONValue_embed:
  assumes "scanJSONValue data pos = Inr e" "stops number_byte rest"
  shows "scanJSONValue (pre @ data @ rest) (length pre + pos) = Inr (length pre + e)"
proof -
  from assms(1) have pos: "pos < length data"
    by (auto simp: scanJSONValue_def Let_def split: if_splits)
  have lit: "scanLiteral (pre @ data @ rest) (length pre + pos) l = Inr (length pre + e)"
    if "scanLiteral data pos l = Inr e" for l
    using that by (auto simp: scanLiteral_def nth_append add.assoc list_ex_iff split: if_splits)
  show ?thesis
    using assms pos nth_embed [OF pos, of pre rest]
      scan_composite_from_embed [of _ _ data "pos + 1" e pre rest] scanJSONString_embed [of data pos e pre rest]
      scanJSONNumber_embed [of data pos e rest pre] lit
    by (simp add: scanJSONValue_def Let_def scanJSONComposite_def split: if_splits)
qed

section \<open>Iterating over an array\<close>

lemma view_next_progress:
  assumes "view_next v = (Inr (Some x), v')"
  shows "av_data v' = av_data v \<and> av_pos v < av_pos v' \<and> av_pos v' \<le> length (av_data v)"
proof -
  define start where "start = skip_while isJSONSpace (av_data v) (av_pos v)"
  from assms obtain e where e: "scanJSONValue (av_data v) start = Inr e"
      "av_data v' = av_data v"
      "av_pos v' = skip_while isJSONSpace (av_data v) e + 1 \<or> av_pos v' = skip_while isJSONSpace (av_data v) e"
      "skip_while isJSONSpace (av_data v) e < length (av_data v)"
    by (auto simp: view_next_def start_def [symmetric] Let_def split: if_splits sum.splits)
  have "av_pos v \<le> start" "start < e" "e \<le> skip_while isJSONSpace (av_data v) e"
    using scanJSONValue_bounds [OF e(1)] by (simp_all add: start_def skip_while_ge)
  with e show ?thesis by auto
qed

text \<open>
  \<^verbatim>\<open>for { raw, ok, err := args.Next(); ... }\<close>: the elements up to the end of the array, or the error that stops
  the iteration. The position grows with every element, so the loop ends.
\<close>

function view_collect :: "JSONArrayView \<Rightarrow> (packet_error, bytes list) result" where
  "view_collect v =
     (case view_next v of
        (Inl err, _) \<Rightarrow> Inl err
      | (Inr None, _) \<Rightarrow> Inr []
      | (Inr (Some x), v') \<Rightarrow>
          (case view_collect v' of Inl err \<Rightarrow> Inl err | Inr xs \<Rightarrow> Inr (x # xs)))"
  by pat_completeness auto
termination
  by (relation "measure (\<lambda>v. length (av_data v) - av_pos v)") (auto dest!: view_next_progress [OF sym])

declare view_collect.simps [simp del]

text \<open>A byte string that holds one JSON value and nothing else.\<close>

definition one_value :: "bytes \<Rightarrow> bool" where
  "one_value a \<longleftrightarrow> scanJSONValue a 0 = Inr (length a)"

fun join_args :: "bytes list \<Rightarrow> bytes" where
  "join_args [] = []"
| "join_args [a] = a"
| "join_args (a # b # as) = a @ CHR '','' # join_args (b # as)"

lemma scanJSONValue_bad_start:
  "isJSONSpace b \<or> b = CHR '']'' \<Longrightarrow> scanJSONValue (b # bs) 0 = Inl (InvalidValueStart b)"
  unfolding isJSONSpace_def
  by (elim disjE) (simp_all add: scanJSONValue_def isDigit_def)

lemma one_value_start:
  assumes "one_value a"
  obtains b bs where "a = b # bs" "\<not> isJSONSpace b" "b \<noteq> CHR '']''"
proof (cases a)
  case Nil
  with assms show ?thesis by (simp add: one_value_def scanJSONValue_def)
next
  case (Cons b bs)
  with assms scanJSONValue_bad_start [of b bs] have "\<not> (isJSONSpace b \<or> b = CHR '']'')"
    by (auto simp: one_value_def)
  with Cons that show ?thesis by blast
qed

lemma scanJSONValue_one_value [scan_simps]:
  assumes "one_value a" "stops number_byte rest"
  shows "scanJSONValue (pre @ a @ rest) (length pre) = Inr (length pre + length a)"
  using scanJSONValue_embed [of a 0 "length a" rest pre] assms by (simp add: one_value_def)

lemma view_next_value:
  assumes "one_value a" "d = CHR '','' \<or> d = CHR '']''"
  shows "view_next \<lparr>av_data = pre @ a @ d # rest, av_pos = length pre\<rparr> =
    (Inr (Some a), \<lparr>av_data = pre @ a @ d # rest,
       av_pos = length pre + length a + (if d = CHR '','' then 1 else 0)\<rparr>)"
proof -
  obtain b bs where a: "a = b # bs" "\<not> isJSONSpace b" "b \<noteq> CHR '']''"
    using assms(1) by (rule one_value_start)
  have d: "stops number_byte (d # rest)" "\<not> isJSONSpace d"
    using assms(2) by (auto simp: number_byte_def isDigit_def isJSONSpace_def less_eq_char_def)
  have at_d: "(pre @ a @ d # rest) ! (length pre + length a) = d"
    by (simp add: nth_append)
  have start: "skip_while isJSONSpace (pre @ a @ d # rest) (length pre) = length pre"
    using a by (intro skip_while_stop) (simp add: nth_append)
  have stop: "skip_while isJSONSpace (pre @ a @ d # rest) (length pre + length a) = length pre + length a"
    using d at_d by (intro skip_while_stop) simp
  have "(pre @ a @ d # rest) ! length pre = b"
    using a by (simp add: nth_append)
  then show ?thesis
    using assms a(3) at_d scanJSONValue_one_value [OF assms(1) d(1), of pre] start stop
    by (auto simp: view_next_def Let_def)
qed

lemma view_next_end:
  "view_next \<lparr>av_data = pre @ CHR '']'' # rest, av_pos = length pre\<rparr> =
    (Inr None, \<lparr>av_data = pre @ CHR '']'' # rest, av_pos = length pre + 1\<rparr>)"
proof -
  have "skip_while isJSONSpace (pre @ CHR '']'' # rest) (length pre) = length pre"
    by (intro skip_while_stop) (simp add: isJSONSpace_def)
  then show ?thesis by (simp add: view_next_def Let_def)
qed

theorem view_collect_join:
  assumes "\<forall>a \<in> set as. one_value a"
  shows "view_collect \<lparr>av_data = pre @ join_args as @ CHR '']'' # rest, av_pos = length pre\<rparr> = Inr as"
  using assms
proof (induction as arbitrary: pre rule: join_args.induct)
  case 1
  then show ?case by (subst view_collect.simps) (simp add: view_next_end)
next
  case (2 a)
  have "view_collect \<lparr>av_data = (pre @ a) @ CHR '']'' # rest, av_pos = length (pre @ a)\<rparr> = Inr []"
    by (subst view_collect.simps) (simp add: view_next_end del: append_assoc length_append)
  with 2 show ?case
    by (subst view_collect.simps) (simp add: view_next_value)
next
  case (3 a b as)
  have "view_collect \<lparr>av_data = (pre @ a @ [CHR '','']) @ join_args (b # as) @ CHR '']'' # rest,
      av_pos = length (pre @ a @ [CHR '',''])\<rparr> = Inr (b # as)"
    using 3 by (intro "3.IH") auto
  with 3 show ?case
    by (subst view_collect.simps) (simp add: view_next_value)
qed

end
