(* ===== verification/JsonGrammar.thy ===== *)
theory JsonGrammar
  imports JsonScan
begin

text \<open>
  The texts the scanner must delimit. A string is a list of chunks (a byte, or a backslash and a
  byte); the inside of an object or array is a list of tokens, which are bytes such as
  commas, colons, spaces, digits and letters, strings, and bracketed groups. Every JSON document is
  a \<open>json_value\<close> of this grammar, whatever its white space. The scanner finds the end of each
  such value whose brackets nest at most 64 deep, the size of the array \<^verbatim>\<open>stack\<close>.
\<close>

datatype chunk = Raw byte | Esc byte

datatype tok = TByte byte | TString "chunk list" | TBraces "tok list" | TBrackets "tok list"

datatype number = Number (neg: bool) (whole: bytes) (frac: "bytes option")
  (expo: "(byte \<times> byte option \<times> bytes) option")

datatype json_value =
    JNull | JTrue | JFalse | JNumber number | JString "chunk list"
  | JObject "tok list" | JArray "tok list"

fun chunk_text :: "chunk \<Rightarrow> bytes" where
  "chunk_text (Raw b) = [b]"
| "chunk_text (Esc b) = [CHR 0x5C, b]"

fun wf_chunk :: "chunk \<Rightarrow> bool" where
  "wf_chunk (Raw b) \<longleftrightarrow> b \<noteq> CHR 0x22 \<and> b \<noteq> CHR 0x5C"
| "wf_chunk (Esc b) \<longleftrightarrow> True"

definition chunks_text :: "chunk list \<Rightarrow> bytes" where
  "chunks_text cs = concat (map chunk_text cs)"

definition string_text :: "chunk list \<Rightarrow> bytes" where
  "string_text cs = CHR 0x22 # chunks_text cs @ [CHR 0x22]"

fun tok_text :: "tok \<Rightarrow> bytes" where
  "tok_text (TByte b) = [b]"
| "tok_text (TString cs) = string_text cs"
| "tok_text (TBraces ts) = CHR ''{'' # concat (map tok_text ts) @ [CHR ''}'']"
| "tok_text (TBrackets ts) = CHR ''['' # concat (map tok_text ts) @ [CHR '']'']"

fun wf_tok :: "tok \<Rightarrow> bool" where
  "wf_tok (TByte b) \<longleftrightarrow> b \<notin> {CHR 0x22, CHR ''{'', CHR ''}'', CHR ''['', CHR '']''}"
| "wf_tok (TString cs) \<longleftrightarrow> list_all wf_chunk cs"
| "wf_tok (TBraces ts) \<longleftrightarrow> list_all wf_tok ts"
| "wf_tok (TBrackets ts) \<longleftrightarrow> list_all wf_tok ts"

fun tok_depth :: "tok \<Rightarrow> nat" where
  "tok_depth (TByte b) = 0"
| "tok_depth (TString cs) = 0"
| "tok_depth (TBraces ts) = Suc (Max (insert 0 (set (map tok_depth ts))))"
| "tok_depth (TBrackets ts) = Suc (Max (insert 0 (set (map tok_depth ts))))"

definition toks_depth :: "tok list \<Rightarrow> nat" where
  "toks_depth ts = Max (insert 0 (set (map tok_depth ts)))"

definition opt_text :: "('a \<Rightarrow> bytes) \<Rightarrow> 'a option \<Rightarrow> bytes" where
  "opt_text f o' = (case o' of None \<Rightarrow> [] | Some x \<Rightarrow> f x)"

definition frac_text :: "bytes option \<Rightarrow> bytes" where
  "frac_text = opt_text (\<lambda>ds. CHR ''.'' # ds)"

definition expo_text :: "(byte \<times> byte option \<times> bytes) option \<Rightarrow> bytes" where
  "expo_text = opt_text (\<lambda>(e, sign, ds). e # opt_text (\<lambda>s. [s]) sign @ ds)"

definition number_text :: "number \<Rightarrow> bytes" where
  "number_text n = (if neg n then ''-'' else []) @ whole n @ frac_text (frac n) @ expo_text (expo n)"

definition digit_run :: "bytes \<Rightarrow> bool" where
  "digit_run ds \<longleftrightarrow> ds \<noteq> [] \<and> list_all isDigit ds"

definition wf_number :: "number \<Rightarrow> bool" where
  "wf_number n \<longleftrightarrow> digit_run (whole n)
     \<and> (case frac n of None \<Rightarrow> True | Some ds \<Rightarrow> digit_run ds)
     \<and> (case expo n of None \<Rightarrow> True
        | Some (e, sign, ds) \<Rightarrow> e \<in> {CHR ''e'', CHR ''E''} \<and> digit_run ds
            \<and> (case sign of None \<Rightarrow> True | Some s \<Rightarrow> s \<in> {CHR ''+'', CHR ''-''}))"

fun value_text :: "json_value \<Rightarrow> bytes" where
  "value_text JNull = ''null''"
| "value_text JTrue = ''true''"
| "value_text JFalse = ''false''"
| "value_text (JNumber n) = number_text n"
| "value_text (JString cs) = string_text cs"
| "value_text (JObject ts) = CHR ''{'' # concat (map tok_text ts) @ [CHR ''}'']"
| "value_text (JArray ts) = CHR ''['' # concat (map tok_text ts) @ [CHR '']'']"

fun wf_value :: "json_value \<Rightarrow> bool" where
  "wf_value (JNumber n) \<longleftrightarrow> wf_number n"
| "wf_value (JString cs) \<longleftrightarrow> list_all wf_chunk cs"
| "wf_value (JObject ts) \<longleftrightarrow> list_all wf_tok ts \<and> toks_depth ts < 64"
| "wf_value (JArray ts) \<longleftrightarrow> list_all wf_tok ts \<and> toks_depth ts < 64"
| "wf_value _ \<longleftrightarrow> True"

section \<open>Strings\<close>

lemma scan_string_chunks:
  assumes "list_all wf_chunk cs"
  shows "scan_string_from (pre @ chunks_text cs @ CHR 0x22 # rest) (length pre)
    = Inr (length pre + length (chunks_text cs) + 1)"
  using assms
proof (induction cs arbitrary: pre)
  case Nil
  then show ?case by (subst scan_string_from.simps) (simp add: chunks_text_def)
next
  case (Cons c cs)
  have IH: "scan_string_from ((pre @ chunk_text c) @ chunks_text cs @ CHR 0x22 # rest) (length (pre @ chunk_text c))
      = Inr (length (pre @ chunk_text c) + length (chunks_text cs) + 1)"
    using Cons.prems by (intro Cons.IH) simp
  with Cons.prems show ?case
    by (cases c; subst scan_string_from.simps) (simp_all add: chunks_text_def nth_append)
qed

lemma scanJSONString_text:
  "list_all wf_chunk cs \<Longrightarrow>
   scanJSONString (pre @ string_text cs @ rest) (length pre) = Inr (length pre + length (string_text cs))"
  using scan_string_chunks [of cs "pre @ [CHR 0x22]" rest]
  by (simp add: scanJSONString_def string_text_def)

section \<open>Composites\<close>

lemma toks_depth_le: "t \<in> set ts \<Longrightarrow> tok_depth t \<le> toks_depth ts"
  by (simp add: toks_depth_def)

text \<open>A well-formed token inside a composite is passed over and leaves the stack as it was.\<close>

definition passes :: "bytes \<Rightarrow> nat \<Rightarrow> bool" where
  "passes txt d \<longleftrightarrow> (\<forall>opn stack pre rest. stack \<noteq> [] \<longrightarrow> length stack + d \<le> 64 \<longrightarrow>
     scan_composite_from opn stack (pre @ txt @ rest) (length pre)
     = scan_composite_from opn stack (pre @ txt @ rest) (length pre + length txt))"

lemma passesD:
  "passes txt d \<Longrightarrow> stack \<noteq> [] \<Longrightarrow> length stack + d \<le> 64 \<Longrightarrow>
   scan_composite_from opn stack (pre @ txt @ rest) (length pre)
   = scan_composite_from opn stack (pre @ txt @ rest) (length pre + length txt)"
  unfolding passes_def by blast

lemma passes_mono: "passes txt d \<Longrightarrow> d \<le> d' \<Longrightarrow> passes txt d'"
  by (simp add: passes_def)

lemma passes_concat:
  assumes "\<forall>t \<in> set txts. passes t d"
  shows "passes (concat txts) d"
  unfolding passes_def
proof (intro allI impI)
  fix opn :: byte and stack pre rest :: bytes
  assume "stack \<noteq> []" "length stack + d \<le> 64"
  then show "scan_composite_from opn stack (pre @ concat txts @ rest) (length pre)
     = scan_composite_from opn stack (pre @ concat txts @ rest) (length pre + length (concat txts))"
    using assms
  proof (induction txts arbitrary: pre)
    case (Cons t txts)
    have "scan_composite_from opn stack (pre @ t @ concat txts @ rest) (length pre)
        = scan_composite_from opn stack ((pre @ t) @ concat txts @ rest) (length (pre @ t))"
      using Cons.prems passesD [of t d stack opn pre "concat txts @ rest"] by simp
    also have "\<dots> = scan_composite_from opn stack ((pre @ t) @ concat txts @ rest) (length (pre @ t) + length (concat txts))"
      using Cons.prems by (intro Cons.IH) auto
    finally show ?case by (simp add: add.assoc)
  qed simp
qed

lemma passes_group:
  assumes "passes txt d" "(b, close) \<in> {(CHR ''{'', CHR ''}''), (CHR ''['', CHR '']'')}"
  shows "passes (b # txt @ [close]) (Suc d)"
  unfolding passes_def
proof (intro allI impI)
  fix opn :: byte and stack pre rest :: bytes
  assume st: "stack \<noteq> []" "length stack + Suc d \<le> 64"
  let ?D = "pre @ b # txt @ close # rest"
  have "scan_composite_from opn stack ?D (length pre)
      = scan_composite_from opn (close # stack) ?D (length pre + 1)"
    using assms(2) st by (subst scan_composite_from.simps) (auto simp: Let_def)
  also have "\<dots> = scan_composite_from opn (close # stack) ?D (length pre + 1 + length txt)"
    using passesD [OF assms(1), of "close # stack" opn "pre @ [b]" "close # rest"] st by simp
  also have "\<dots> = scan_composite_from opn stack ?D (length pre + 1 + length txt + 1)"
  proof -
    have "?D ! (length pre + 1 + length txt) = close"
      using nth_append_length [of "pre @ b # txt" close rest] by simp
    then show ?thesis
      using assms(2) st by (subst scan_composite_from.simps) (auto simp: Let_def)
  qed
  finally show "scan_composite_from opn stack (pre @ (b # txt @ [close]) @ rest) (length pre)
     = scan_composite_from opn stack (pre @ (b # txt @ [close]) @ rest) (length pre + length (b # txt @ [close]))"
    by (simp add: add.assoc)
qed

lemma passes_tok: "wf_tok t \<Longrightarrow> passes (tok_text t) (tok_depth t)"
proof (induction t)
  case (TByte b)
  then show ?case
    unfolding passes_def by (auto simp: scan_composite_from.simps [of _ _ _ "length _"] Let_def)
next
  case (TString cs)
  have "scan_composite_from opn stack (pre @ string_text cs @ rest) (length pre)
     = scan_composite_from opn stack (pre @ string_text cs @ rest) (length pre + length (string_text cs))"
    for opn stack pre rest
    using TString scanJSONString_text [of cs pre rest]
    by (subst scan_composite_from.simps) (simp add: Let_def string_text_def nth_append)
  then show ?case by (simp add: passes_def)
next
  case (TBraces ts)
  then have "passes (concat (map tok_text ts)) (toks_depth ts)"
    by (intro passes_concat) (auto simp: list_all_iff intro: passes_mono toks_depth_le)
  then show ?case
    using passes_group [of _ "toks_depth ts" "CHR ''{''" "CHR ''}''"] by (simp add: toks_depth_def)
next
  case (TBrackets ts)
  then have "passes (concat (map tok_text ts)) (toks_depth ts)"
    by (intro passes_concat) (auto simp: list_all_iff intro: passes_mono toks_depth_le)
  then show ?case
    using passes_group [of _ "toks_depth ts" "CHR ''[''" "CHR '']''"] by (simp add: toks_depth_def)
qed

lemma scanJSONComposite_text:
  assumes "list_all wf_tok ts" "toks_depth ts < 64" "close = CHR ''}'' \<or> close = CHR '']''"
  shows "scanJSONComposite (b # concat (map tok_text ts) @ [close]) 0 opn close
    = Inr (length (concat (map tok_text ts)) + 2)"
proof -
  have "passes (concat (map tok_text ts)) (toks_depth ts)"
    using assms(1) by (intro passes_concat) (auto simp: list_all_iff intro: passes_mono passes_tok toks_depth_le)
  from passesD [OF this, of "[close]" opn "[b]" "[close]"] assms(2)
  have "scanJSONComposite (b # concat (map tok_text ts) @ [close]) 0 opn close
      = scan_composite_from opn [close] (b # concat (map tok_text ts) @ [close]) (1 + length (concat (map tok_text ts)))"
    by (simp add: scanJSONComposite_def)
  also have "\<dots> = Inr (length (concat (map tok_text ts)) + 2)"
    using assms(3) by (subst scan_composite_from.simps) (auto simp: Let_def)
  finally show ?thesis .
qed

section \<open>Numbers\<close>

lemma digit_runD: "digit_run ds \<Longrightarrow> ds \<noteq> [] \<and> (\<forall>b \<in> set ds. isDigit b)"
  by (auto simp: digit_run_def list_all_iff)

lemma digit_run_at: "digit_run ds \<Longrightarrow> isDigit ((pre @ ds @ rest) ! length pre)"
  by (cases ds) (auto dest: digit_runD)

lemma not_isDigit [simp]:
  "\<not> isDigit CHR ''.''" "\<not> isDigit CHR ''e''" "\<not> isDigit CHR ''E''" "\<not> isDigit CHR ''-''" "\<not> isDigit CHR ''+''"
  "\<not> isDigit CHR '',''" "\<not> isDigit CHR '']''" "\<not> isDigit CHR ''[''" "\<not> isDigit CHR ''{''" "\<not> isDigit CHR ''/''"
  "\<not> isDigit CHR 0x22" "\<not> isDigit CHR ''t''" "\<not> isDigit CHR ''f''" "\<not> isDigit CHR ''n''"
  by (simp_all add: isDigit_def)

lemma scan_fraction_text:
  assumes "case fr of None \<Rightarrow> True | Some ds \<Rightarrow> digit_run ds" "stops isDigit rest" "stops (\<lambda>b. b = CHR ''.'') rest"
  shows "scan_fraction (pre @ frac_text fr @ rest) (length pre) = Inr (length pre + length (frac_text fr))"
proof (cases fr)
  case None
  with assms(3) show ?thesis
    by (cases rest) (auto simp: scan_fraction_def frac_text_def opt_text_def)
next
  case (Some ds)
  with assms(1) have ds: "digit_run ds" by simp
  have "skip_while isDigit ((pre @ [CHR ''.'']) @ ds @ rest) (length (pre @ [CHR ''.''])) = length (pre @ [CHR ''.'']) + length ds"
    using digit_runD [OF ds] assms(2) by (intro skip_while_exact) auto
  moreover have "isDigit ((pre @ CHR ''.'' # ds @ rest) ! Suc (length pre))"
    using digit_run_at [OF ds, of "pre @ [CHR ''.'']" rest] by simp
  ultimately show ?thesis
    using Some digit_runD [OF ds]
    by (auto simp: scan_fraction_def frac_text_def opt_text_def not_le)
qed

lemma scan_exponent_text:
  assumes "case ex of None \<Rightarrow> True | Some (e, sign, ds) \<Rightarrow> e \<in> {CHR ''e'', CHR ''E''} \<and> digit_run ds
            \<and> (case sign of None \<Rightarrow> True | Some s \<Rightarrow> s \<in> {CHR ''+'', CHR ''-''})"
  shows "scan_exponent (pre @ expo_text ex) (length pre) = Inr (length pre + length (expo_text ex))"
proof (cases ex)
  case None
  then show ?thesis by (simp add: scan_exponent_def expo_text_def opt_text_def)
next
  case (Some x)
  then obtain e sign ds where x: "ex = Some (e, sign, ds)" by (cases x) auto
  with assms have ds: "digit_run ds" and e: "e = CHR ''e'' \<or> e = CHR ''E''" by auto
  define q where "q = pre @ e # opt_text (\<lambda>s. [s]) sign"
  have skip: "skip_while isDigit (q @ ds) (length q) = length q + length ds"
    using skip_while_exact [of ds isDigit "[]" q] digit_runD [OF ds] by simp
  have dig: "isDigit ((q @ ds) ! length q)"
    using digit_run_at [OF ds, of q "[]"] by simp
  have "ds \<noteq> []" using digit_runD [OF ds] by simp
  show ?thesis
  proof (cases sign)
    case None
    moreover have "\<not> (hd ds = CHR ''+'' \<or> hd ds = CHR ''-'')"
      using digit_runD [OF ds] by (metis hd_in_set not_isDigit(4,5))
    ultimately show ?thesis
      using x e skip dig \<open>ds \<noteq> []\<close>
      by (auto simp: scan_exponent_def expo_text_def opt_text_def q_def Let_def not_le nth_append hd_conv_nth)
  next
    case (Some s)
    moreover have "s = CHR ''+'' \<or> s = CHR ''-''" using assms x Some by auto
    ultimately show ?thesis
      using x e skip dig \<open>ds \<noteq> []\<close>
      by (auto simp: scan_exponent_def expo_text_def opt_text_def q_def Let_def not_le nth_append)
  qed
qed

lemma scanJSONNumber_text:
  assumes "wf_number n"
  shows "scanJSONNumber (number_text n) 0 = Inr (length (number_text n))"
proof -
  define sg where "sg = (if neg n then ''-'' else [])"
  define w f x where "w = whole n" and "f = frac_text (frac n)" and "x = expo_text (expo n)"
  have nt: "number_text n = sg @ w @ f @ x"
    by (simp add: number_text_def sg_def w_def f_def x_def)
  have w: "digit_run w" using assms by (simp add: wf_number_def w_def)
  have x_stops: "stops isDigit x" "stops (\<lambda>b. b = CHR ''.'') x"
    using assms by (auto simp: x_def expo_text_def opt_text_def wf_number_def split: option.splits)
  then have fx_stops: "stops isDigit (f @ x)"
    by (auto simp: f_def frac_text_def opt_text_def split: option.splits)
  have skip: "skip_while isDigit (sg @ w @ f @ x) (length sg) = length (sg @ w)"
    using skip_while_exact [OF _ fx_stops, of w sg] digit_runD [OF w] by simp
  have fr: "scan_fraction ((sg @ w) @ f @ x) (length (sg @ w)) = Inr (length (sg @ w @ f))"
    unfolding f_def using assms x_stops
    by (subst scan_fraction_text) (auto simp: wf_number_def split: option.splits)
  have ex: "scan_exponent ((sg @ w @ f) @ x) (length (sg @ w @ f)) = Inr (length (sg @ w @ f @ x))"
    unfolding x_def using assms
    by (subst scan_exponent_text) (auto simp: wf_number_def split: option.splits)
  have hd_w: "isDigit ((sg @ w @ f @ x) ! length sg)" using digit_run_at [OF w, of sg "f @ x"] .
  have first: "(if number_text n ! 0 = CHR ''-'' then 0 + 1 else 0) = length sg"
  proof -
    have "isDigit (w ! 0)" "w \<noteq> []" using digit_runD [OF w] by simp_all
    then show ?thesis by (auto simp: nt sg_def nth_append)
  qed
  have "w \<noteq> []" using digit_runD [OF w] by simp
  then show ?thesis
    unfolding scanJSONNumber_def first Let_def
    using hd_w skip fr ex by (simp add: nt)
qed

section \<open>Every value is delimited\<close>

lemma value_text_starts:
  "wf_number n \<Longrightarrow> \<exists>b bs. number_text n = b # bs \<and> (b = CHR ''-'' \<or> isDigit b)"
  using digit_runD [of "whole n"]
  by (cases "whole n") (auto simp: number_text_def wf_number_def)

lemma digit_start_scan:
  "b = CHR ''-'' \<or> isDigit b \<Longrightarrow> scanJSONValue (b # bs) 0 = scanJSONNumber (b # bs) 0"
proof (elim disjE)
  assume "isDigit b"
  then have "b \<notin> {CHR 0x22, CHR ''{'', CHR ''['', CHR ''t'', CHR ''f'', CHR ''n''}"
    by auto
  with \<open>isDigit b\<close> show ?thesis by (simp add: scanJSONValue_def)
qed (simp add: scanJSONValue_def)

lemma one_value_text:
  assumes "wf_value v"
  shows "one_value (value_text v)"
proof (cases v)
  case (JNumber n)
  with assms have n: "wf_number n" by simp
  then obtain b bs where *: "number_text n = b # bs" "b = CHR ''-'' \<or> isDigit b"
    using value_text_starts by blast
  with JNumber show ?thesis
    using digit_start_scan [OF *(2), of bs] scanJSONNumber_text [OF n] by (simp add: one_value_def)
next
  case (JString cs)
  with assms scanJSONString_text [of cs "[]" "[]"] show ?thesis
    by (simp add: one_value_def scanJSONValue_def string_text_def)
next
  case (JObject ts)
  with assms scanJSONComposite_text [of ts "CHR ''}''" "CHR ''{''" "CHR ''{''"] show ?thesis
    by (simp add: one_value_def scanJSONValue_def)
next
  case (JArray ts)
  with assms scanJSONComposite_text [of ts "CHR '']''" "CHR ''[''" "CHR ''[''"] show ?thesis
    by (simp add: one_value_def scanJSONValue_def)
qed (simp_all add: one_value_def scanJSONValue_def scanLiteral_def)

end
