(* ===== verification/PacketView.thy ===== *)
theory PacketView
  imports JsonGrammar
begin

text \<open>
  The Socket.IO packet codec of \<^verbatim>\<open>packet_view.go\<close>: \<open>ParsePacketView\<close> and the \<^verbatim>\<open>Append*\<close> functions that
  write packets. A destination slice is threaded as the code threads it; the functions that end in
  \<^verbatim>\<open>String\<close> take the namespace as a string and are kept apart from those that take bytes. The
  theorems show that what the printers write the parser reads back, and what every packet the
  parser accepts looks like.
\<close>

section \<open>Packets\<close>

datatype PacketType =
    PacketConnect | PacketDisconnect | PacketEvent | PacketAck | PacketConnectError
  | PacketBinaryEvent | PacketBinaryAck

fun type_code :: "PacketType \<Rightarrow> nat" where
  "type_code PacketConnect = 0"
| "type_code PacketDisconnect = 1"
| "type_code PacketEvent = 2"
| "type_code PacketAck = 3"
| "type_code PacketConnectError = 4"
| "type_code PacketBinaryEvent = 5"
| "type_code PacketBinaryAck = 6"

definition packet_types :: "PacketType list" where
  "packet_types = [PacketConnect, PacketDisconnect, PacketEvent, PacketAck, PacketConnectError,
     PacketBinaryEvent, PacketBinaryAck]"

text \<open>\<^verbatim>\<open>byte('0'+typ)\<close>, and \<^verbatim>\<open>PacketType(b-'0')\<close> on the bytes from 0 to 6.\<close>

definition type_byte :: "PacketType \<Rightarrow> byte" where
  "type_byte t = char_of (48 + type_code t)"

definition type_of_byte :: "byte \<Rightarrow> PacketType" where
  "type_of_byte b = packet_types ! (bval b - 48)"

definition is_binary :: "PacketType \<Rightarrow> bool" where
  "is_binary t \<longleftrightarrow> t = PacketBinaryEvent \<or> t = PacketBinaryAck"

record PacketView =
  pv_Type :: PacketType
  pv_Namespace :: bytes
  pv_ID :: u64
  pv_HasID :: bool
  pv_Attachments :: int
  pv_Binary :: "bytes list"
  pv_Payload :: bytes
  pv_Event :: bytes
  pv_Args :: JSONArrayView

definition defaultNamespaceBytes :: bytes where
  "defaultNamespaceBytes = ''/''"

section \<open>Parsing\<close>

definition splitEventPayload :: "bytes \<Rightarrow> (packet_error, bytes \<times> JSONArrayView) result" where
  "splitEventPayload data =
     (case NewJSONArrayView data of
        Inl err \<Rightarrow> Inl err
      | Inr arr \<Rightarrow>
          (case view_next arr of
             (Inl err, _) \<Rightarrow> Inl err
           | (Inr None, _) \<Rightarrow> Inl EmptyEventPayload
           | (Inr (Some first), arr') \<Rightarrow>
               (case unquoteJSONStringView first of
                  Inl err \<Rightarrow> Inl (InvalidEventName err)
                | Inr event \<Rightarrow> if event = [] then Inl EmptyEventName else Inr (event, arr'))))"

text \<open>
  The attachment count is accumulated in an \<^verbatim>\<open>int\<close>, which wraps at 64 bits, and only then compared
  with zero; the packet id is accumulated in a \<^verbatim>\<open>uint64\<close>.
\<close>

definition parse_attachments :: "PacketType \<Rightarrow> bytes \<Rightarrow> (packet_error, int \<times> bytes) result" where
  "parse_attachments typ data =
     (if is_binary typ then
        (let (attachments, i) = read_digits (0 :: u64) data in
         if i = 0 \<or> i \<ge> length data \<or> data ! i \<noteq> CHR ''-'' then Inl AttachmentCountExpected
         else if sint attachments \<le> 0 then Inl AttachmentCountNotPositive
         else Inr (sint attachments, drop (i + 1) data))
      else Inr (0, data))"

definition parse_namespace :: "bytes \<Rightarrow> bytes \<times> bytes" where
  "parse_namespace data =
     (if data \<noteq> [] \<and> data ! 0 = CHR ''/'' then
        (case index_byte (CHR '','') data of
           None \<Rightarrow> (data, [])
         | Some idx \<Rightarrow> (take idx data, drop (idx + 1) data))
      else (defaultNamespaceBytes, data))"

definition parse_id :: "bytes \<Rightarrow> u64 \<times> bool \<times> bytes" where
  "parse_id data =
     (if data \<noteq> [] \<and> isDigit (data ! 0) then
        (let (id, i) = read_digits 0 data in (id, True, drop i data))
      else (0, False, data))"

text \<open>The final \<^verbatim>\<open>switch p.Type\<close>.\<close>

definition parse_payload :: "PacketView \<Rightarrow> (packet_error, PacketView) result" where
  "parse_payload p =
     (if pv_Type p = PacketEvent \<or> pv_Type p = PacketBinaryEvent then
        (case splitEventPayload (pv_Payload p) of
           Inl err \<Rightarrow> Inl err
         | Inr (event, args) \<Rightarrow> Inr (p\<lparr>pv_Event := event, pv_Args := args\<rparr>))
      else if (pv_Type p = PacketAck \<or> pv_Type p = PacketBinaryAck) \<and> pv_Payload p \<noteq> [] then
        (case NewJSONArrayView (pv_Payload p) of
           Inl err \<Rightarrow> Inl err
         | Inr args \<Rightarrow> Inr (p\<lparr>pv_Args := args\<rparr>))
      else Inr p)"

definition ParsePacketView :: "bytes \<Rightarrow> (packet_error, PacketView) result" where
  "ParsePacketView input =
     (case input of
        [] \<Rightarrow> Inl EmptyPacket
      | b # data \<Rightarrow>
          if b < CHR ''0'' \<or> b > CHR ''6'' then Inl (InvalidTypeByte b)
          else (case parse_attachments (type_of_byte b) data of
              Inl err \<Rightarrow> Inl err
            | Inr (attachments, data1) \<Rightarrow>
                (let (nsp, data2) = parse_namespace data1;
                     (ident, hasID, payload) = parse_id data2
                 in parse_payload \<lparr>pv_Type = type_of_byte b, pv_Namespace = nsp, pv_ID = ident,
                      pv_HasID = hasID, pv_Attachments = attachments, pv_Binary = [],
                      pv_Payload = payload, pv_Event = [], pv_Args = empty_view\<rparr>)))"

section \<open>Printing\<close>

definition appendPacketHeader ::
    "bytes \<Rightarrow> PacketType \<Rightarrow> int \<Rightarrow> bytes \<Rightarrow> u64 \<Rightarrow> bool \<Rightarrow> bytes" where
  "appendPacketHeader dst typ attachments namespace ident hasID =
     (let d1 = dst @ [type_byte typ];
          d2 = (if is_binary typ then d1 @ format_int attachments @ ''-'' else d1);
          d3 = (if length namespace \<noteq> 0 \<and> namespace \<noteq> defaultNamespaceBytes
                then d2 @ namespace @ '','' else d2)
      in if hasID then d3 @ format_uint ident else d3)"

definition appendPacketHeaderString ::
    "bytes \<Rightarrow> PacketType \<Rightarrow> int \<Rightarrow> bytes \<Rightarrow> u64 \<Rightarrow> bool \<Rightarrow> bytes" where
  "appendPacketHeaderString dst typ attachments namespace ident hasID =
     (let d1 = dst @ [type_byte typ];
          d2 = (if is_binary typ then d1 @ format_int attachments @ ''-'' else d1);
          d3 = (if namespace \<noteq> [] \<and> namespace \<noteq> ''/'' then d2 @ namespace @ '','' else d2)
      in if hasID then d3 @ format_uint ident else d3)"

definition AppendPacketHeader :: "bytes \<Rightarrow> PacketType \<Rightarrow> bytes \<Rightarrow> u64 \<Rightarrow> bool \<Rightarrow> bytes" where
  "AppendPacketHeader dst typ namespace ident hasID = appendPacketHeader dst typ 0 namespace ident hasID"

text \<open>The handshake object that both connect printers write after their header.\<close>

definition append_handshake :: "bytes \<Rightarrow> bytes \<Rightarrow> bytes \<Rightarrow> bytes" where
  "append_handshake dst sid pid =
     (let d1 = appendJSONStringContent
                 (dst @ [CHR ''{'', CHR 0x22] @ ''sid'' @ [CHR 0x22, CHR '':'', CHR 0x22]) sid;
          d2 = (if pid \<noteq> [] then
                  appendJSONStringContent
                    (d1 @ [CHR 0x22, CHR '','', CHR 0x22] @ ''pid'' @ [CHR 0x22, CHR '':'', CHR 0x22]) pid
                else d1)
      in d2 @ [CHR 0x22, CHR ''}''])"

definition AppendConnectPacket :: "bytes \<Rightarrow> bytes \<Rightarrow> bytes \<Rightarrow> bytes \<Rightarrow> bytes" where
  "AppendConnectPacket dst namespace sid pid =
     append_handshake (AppendPacketHeader dst PacketConnect namespace 0 False) sid pid"

definition appendConnectPacketString :: "bytes \<Rightarrow> bytes \<Rightarrow> bytes \<Rightarrow> bytes \<Rightarrow> bytes" where
  "appendConnectPacketString dst namespace sid pid =
     append_handshake (appendPacketHeaderString dst PacketConnect 0 namespace 0 False) sid pid"

definition AppendDisconnectPacket :: "bytes \<Rightarrow> bytes \<Rightarrow> bytes" where
  "AppendDisconnectPacket dst namespace = AppendPacketHeader dst PacketDisconnect namespace 0 False"

definition appendDisconnectPacketString :: "bytes \<Rightarrow> bytes \<Rightarrow> bytes" where
  "appendDisconnectPacketString dst namespace =
     appendPacketHeaderString dst PacketDisconnect 0 namespace 0 False"

text \<open>\<^verbatim>\<open>for _, arg := range encodedArgs { dst = append(dst, ','); dst = append(dst, arg...) }\<close>\<close>

fun append_args :: "bytes \<Rightarrow> bytes list \<Rightarrow> bytes" where
  "append_args dst [] = dst"
| "append_args dst (arg # args) = append_args (dst @ '','' @ arg) args"

text \<open>The loop of the ack printers, which writes no comma before the first argument.\<close>

fun append_ack_args :: "bytes \<Rightarrow> nat \<Rightarrow> bytes list \<Rightarrow> bytes" where
  "append_ack_args dst i [] = dst"
| "append_ack_args dst i (arg # args) =
     append_ack_args ((if i \<noteq> 0 then dst @ '','' else dst) @ arg) (i + 1) args"

definition appendEventPacket ::
    "(nat \<Rightarrow> bool) \<Rightarrow> bytes \<Rightarrow> PacketType \<Rightarrow> int \<Rightarrow> bytes \<Rightarrow> u64 \<Rightarrow> bool \<Rightarrow> bytes \<Rightarrow> bytes list \<Rightarrow> bytes"
where
  "appendEventPacket isprint dst typ attachments namespace ident hasID event encodedArgs =
     append_args (appendPacketHeader dst typ attachments namespace ident hasID @ ''['' @ quote isprint event)
       encodedArgs @ '']''"

definition appendEventPacketString ::
    "(nat \<Rightarrow> bool) \<Rightarrow> bytes \<Rightarrow> PacketType \<Rightarrow> int \<Rightarrow> bytes \<Rightarrow> u64 \<Rightarrow> bool \<Rightarrow> bytes \<Rightarrow> bytes list \<Rightarrow> bytes"
where
  "appendEventPacketString isprint dst typ attachments namespace ident hasID event encodedArgs =
     append_args (appendPacketHeaderString dst typ attachments namespace ident hasID @ ''['' @ quote isprint event)
       encodedArgs @ '']''"

definition AppendEventPacket ::
    "(nat \<Rightarrow> bool) \<Rightarrow> bytes \<Rightarrow> bytes \<Rightarrow> u64 \<Rightarrow> bool \<Rightarrow> bytes \<Rightarrow> bytes list \<Rightarrow> bytes" where
  "AppendEventPacket isprint dst namespace ident hasID event encodedArgs =
     appendEventPacket isprint dst PacketEvent 0 namespace ident hasID event encodedArgs"

definition AppendBinaryEventPacket ::
    "(nat \<Rightarrow> bool) \<Rightarrow> bytes \<Rightarrow> bytes \<Rightarrow> u64 \<Rightarrow> bool \<Rightarrow> bytes \<Rightarrow> int \<Rightarrow> bytes list \<Rightarrow> bytes" where
  "AppendBinaryEventPacket isprint dst namespace ident hasID event attachments encodedArgs =
     appendEventPacket isprint dst PacketBinaryEvent attachments namespace ident hasID event encodedArgs"

definition appendAckPacket ::
    "bytes \<Rightarrow> PacketType \<Rightarrow> int \<Rightarrow> bytes \<Rightarrow> u64 \<Rightarrow> bytes list \<Rightarrow> bytes" where
  "appendAckPacket dst typ attachments namespace ident encodedArgs =
     append_ack_args (appendPacketHeader dst typ attachments namespace ident True @ ''['') 0 encodedArgs @ '']''"

definition appendAckPacketString ::
    "bytes \<Rightarrow> PacketType \<Rightarrow> int \<Rightarrow> bytes \<Rightarrow> u64 \<Rightarrow> bytes list \<Rightarrow> bytes" where
  "appendAckPacketString dst typ attachments namespace ident encodedArgs =
     append_ack_args (appendPacketHeaderString dst typ attachments namespace ident True @ ''['') 0 encodedArgs @ '']''"

definition AppendAckPacket :: "bytes \<Rightarrow> bytes \<Rightarrow> u64 \<Rightarrow> bytes list \<Rightarrow> bytes" where
  "AppendAckPacket dst namespace ident encodedArgs = appendAckPacket dst PacketAck 0 namespace ident encodedArgs"

definition AppendBinaryAckPacket :: "bytes \<Rightarrow> bytes \<Rightarrow> u64 \<Rightarrow> int \<Rightarrow> bytes list \<Rightarrow> bytes" where
  "AppendBinaryAckPacket dst namespace ident attachments encodedArgs =
     appendAckPacket dst PacketBinaryAck attachments namespace ident encodedArgs"

section \<open>The printers write header and payload\<close>

lemma appendPacketHeaderString_eq: "appendPacketHeaderString = appendPacketHeader"
  by (intro ext) (simp add: appendPacketHeaderString_def appendPacketHeader_def defaultNamespaceBytes_def)

lemma appendPacketHeader_dst:
  "appendPacketHeader dst typ att nsp ident hasID = dst @ appendPacketHeader [] typ att nsp ident hasID"
  by (simp add: appendPacketHeader_def Let_def)

lemma append_args_join: "append_args dst args = dst @ concat (map (\<lambda>a. CHR '','' # a) args)"
  by (induction dst args rule: append_args.induct) auto

lemma join_args_Cons: "join_args (a # as) = a @ concat (map (\<lambda>a. CHR '','' # a) as)"
  by (induction as arbitrary: a) auto

lemma append_ack_args_pos: "i > 0 \<Longrightarrow> append_ack_args dst i args = dst @ concat (map (\<lambda>a. CHR '','' # a) args)"
  by (induction dst i args rule: append_ack_args.induct) auto

lemma append_ack_args_join: "append_ack_args dst 0 args = dst @ join_args args"
  by (cases args) (simp_all add: append_ack_args_pos join_args_Cons)

lemma appendEventPacket_eq:
  "appendEventPacket isprint dst typ att nsp ident hasID event args =
     dst @ appendPacketHeader [] typ att nsp ident hasID @ ''['' @ join_args (quote isprint event # args) @ '']''"
  by (simp add: appendEventPacket_def append_args_join join_args_Cons appendPacketHeader_dst [of dst])

lemma appendAckPacket_eq:
  "appendAckPacket dst typ att nsp ident args =
     dst @ appendPacketHeader [] typ att nsp ident True @ ''['' @ join_args args @ '']''"
  by (simp add: appendAckPacket_def append_ack_args_join appendPacketHeader_dst [of dst])

lemma appendEventPacketString_eq: "appendEventPacketString = appendEventPacket"
  by (intro ext) (simp add: appendEventPacketString_def appendEventPacket_def appendPacketHeaderString_eq)

lemma appendAckPacketString_eq: "appendAckPacketString = appendAckPacket"
  by (intro ext) (simp add: appendAckPacketString_def appendAckPacket_def appendPacketHeaderString_eq)

section \<open>Reading a header back\<close>

definition wf_namespace :: "bytes \<Rightarrow> bool" where
  "wf_namespace nsp \<longleftrightarrow> (case nsp of [] \<Rightarrow> True | b # bs \<Rightarrow> b = CHR ''/'') \<and> CHR '','' \<notin> set nsp"

definition effective_namespace :: "bytes \<Rightarrow> bytes" where
  "effective_namespace nsp = (if nsp = [] then ''/'' else nsp)"

definition wf_count :: "PacketType \<Rightarrow> int \<Rightarrow> bool" where
  "wf_count typ att \<longleftrightarrow> is_binary typ \<longrightarrow> 0 < att \<and> att < 2 ^ 63"

lemma isDigit_eq: "isDigit = is_dec_digit"
  by (intro ext) (simp add: isDigit_def is_dec_digit_def)

lemma type_byte_simps [simp]:
  "type_byte PacketConnect = CHR ''0''" "type_byte PacketDisconnect = CHR ''1''"
  "type_byte PacketEvent = CHR ''2''" "type_byte PacketAck = CHR ''3''"
  "type_byte PacketConnectError = CHR ''4''" "type_byte PacketBinaryEvent = CHR ''5''"
  "type_byte PacketBinaryAck = CHR ''6''"
  by code_simp+

lemma type_of_type_byte [simp]: "type_of_byte (type_byte t) = t"
  by (cases t) (simp_all add: type_of_byte_def packet_types_def)

lemma type_byte_valid [simp]: "\<not> (type_byte t < CHR ''0'')" "\<not> (CHR ''6'' < type_byte t)"
  by (cases t; simp)+

lemma sint_of_nat_u64: "n < 2 ^ 63 \<Longrightarrow> sint (of_nat n :: u64) = int n"
  by (simp add: signed_of_nat signed_take_bit_int_eq_self)

lemma parse_attachments_header:
  assumes "wf_count typ att"
  shows "parse_attachments typ ((if is_binary typ then format_int att @ ''-'' else []) @ rest)
    = Inr (if is_binary typ then att else 0, rest)"
proof (cases "is_binary typ")
  case True
  with assms have "0 < att" "att < 2 ^ 63" by (simp_all add: wf_count_def)
  then obtain n where n: "att = int n" "0 < n" "n < 2 ^ 63"
    by (cases att) auto
  have "read_digits (0 :: u64) (format_nat n @ CHR ''-'' # rest) = (of_nat n, length (format_nat n))"
    by (rule read_digits_format_nat) (simp add: isDigit_eq [symmetric])
  with True n show ?thesis
    by (simp add: parse_attachments_def format_int_def sint_of_nat_u64 nth_append)
next
  case False
  then show ?thesis by (simp add: parse_attachments_def)
qed

lemma parse_namespace_header:
  assumes "wf_namespace nsp" "stops (\<lambda>b. b = CHR ''/'') rest"
  shows "parse_namespace ((if length nsp \<noteq> 0 \<and> nsp \<noteq> defaultNamespaceBytes then nsp @ '','' else []) @ rest)
    = (effective_namespace nsp, rest)"
proof (cases "nsp = [] \<or> nsp = ''/''")
  case True
  with assms(2) show ?thesis
    by (cases rest) (auto simp: parse_namespace_def defaultNamespaceBytes_def effective_namespace_def)
next
  case False
  with assms(1) obtain bs where *: "nsp = CHR ''/'' # bs" "CHR '','' \<notin> set nsp"
    by (cases nsp) (auto simp: wf_namespace_def)
  then have "index_byte (CHR '','') (nsp @ CHR '','' # rest) = Some (length nsp)"
    by (intro index_byte_split) auto
  with False * show ?thesis
    by (simp add: parse_namespace_def effective_namespace_def defaultNamespaceBytes_def)
qed

lemma parse_id_header:
  assumes "stops isDigit rest"
  shows "parse_id ((if hasID then format_uint ident else []) @ rest) = (if hasID then ident else 0, hasID, rest)"
proof (cases hasID)
  case True
  have "read_digits (0 :: u64) (format_uint ident @ rest) = (ident, length (format_uint ident))"
    using assms by (simp add: format_uint_def read_digits_format_nat isDigit_eq)
  moreover have "isDigit ((format_uint ident @ rest) ! 0)"
    using format_nat_hd [of "unat ident"]
    by (simp add: isDigit_eq format_uint_def nth_append hd_conv_nth)
  ultimately show ?thesis using True by (simp add: parse_id_def)
next
  case False
  with assms show ?thesis by (cases rest) (auto simp: parse_id_def)
qed

lemma format_uint_stops: "stops (\<lambda>b. b = CHR ''/'') rest \<Longrightarrow>
    stops (\<lambda>b. b = CHR ''/'') ((if hasID then format_uint ident else []) @ rest)"
proof (cases hasID)
  case True
  then obtain d ds where *: "format_uint ident = d # ds"
    using format_uint_not_Nil by (cases "format_uint ident") auto
  then have "isDigit d"
    using format_nat_hd [of "unat ident"] by (simp add: isDigit_eq format_uint_def)
  with True * show ?thesis by auto
qed simp

text \<open>
  A header followed by a payload that starts with neither a digit nor a slash is read back field
  by field, and the payload is handed to the final \<^verbatim>\<open>switch\<close>.
\<close>

lemma ParsePacketView_header:
  assumes "wf_count typ att" "wf_namespace nsp" "stops (\<lambda>b. b = CHR ''/'') payload" "stops isDigit payload"
  shows "ParsePacketView (appendPacketHeader [] typ att nsp ident hasID @ payload) =
    parse_payload \<lparr>pv_Type = typ, pv_Namespace = effective_namespace nsp, pv_ID = (if hasID then ident else 0),
      pv_HasID = hasID, pv_Attachments = (if is_binary typ then att else 0), pv_Binary = [],
      pv_Payload = payload, pv_Event = [], pv_Args = empty_view\<rparr>"
proof -
  define tl where "tl = (if hasID then format_uint ident else []) @ payload"
  define nl where "nl = (if length nsp \<noteq> 0 \<and> nsp \<noteq> defaultNamespaceBytes then nsp @ '','' else []) @ tl"
  have split: "appendPacketHeader [] typ att nsp ident hasID @ payload =
      type_byte typ # (if is_binary typ then format_int att @ ''-'' else []) @ nl"
    by (simp add: appendPacketHeader_def Let_def nl_def tl_def)
  have "parse_id tl = (if hasID then ident else 0, hasID, payload)"
    unfolding tl_def using assms(4) by (rule parse_id_header)
  moreover have "parse_namespace nl = (effective_namespace nsp, tl)"
    unfolding nl_def using assms(2,3) by (intro parse_namespace_header) (simp_all add: tl_def format_uint_stops)
  ultimately show ?thesis
    unfolding split using parse_attachments_header [OF assms(1), of nl]
    by (simp add: ParsePacketView_def)
qed

section \<open>Reading payloads back\<close>

lemma plain_one_value:
  assumes "\<forall>b \<in> set ev. plain_byte b"
  shows "one_value (quote isprint ev)"
proof -
  have "list_all wf_chunk (map Raw ev)" "chunks_text (map Raw ev) = ev"
    using assms by (induction ev) (auto simp: chunks_text_def plain_byte_def)
  then have "one_value (value_text (JString (map Raw ev)))"
    by (intro one_value_text) simp
  then show ?thesis
    using assms \<open>chunks_text (map Raw ev) = ev\<close> by (simp add: quote_plain string_text_def)
qed

lemma plain_unquote:
  assumes "\<forall>b \<in> set ev. plain_byte b"
  shows "unquoteJSONStringView (quote isprint ev) = Inr ev"
  using assms
  by (force simp: quote_plain unquoteJSONStringView_def plain_byte_def Let_def)

lemma NewJSONArrayView_text:
  "NewJSONArrayView (CHR ''['' # ptext @ [CHR '']'']) = Inr \<lparr>av_data = CHR ''['' # ptext @ [CHR '']''], av_pos = 1\<rparr>"
  by (simp add: NewJSONArrayView_def)

lemma splitEventPayload_text:
  assumes "ev \<noteq> []" "\<forall>b \<in> set ev. plain_byte b" "\<forall>a \<in> set args. one_value a"
  shows "\<exists>v. splitEventPayload (''['' @ join_args (quote isprint ev # args) @ '']'') = Inr (ev, v)
    \<and> view_collect v = Inr args"
proof -
  let ?q = "quote isprint ev"
  have q: "one_value ?q" using assms(2) by (rule plain_one_value)
  define ptext where "ptext = ''['' @ join_args (?q # args) @ '']''"
  define v0 where "v0 = \<lparr>av_data = ptext, av_pos = 1\<rparr>"
  have new: "NewJSONArrayView ptext = Inr v0"
    unfolding ptext_def v0_def using NewJSONArrayView_text [of "join_args (?q # args)"] by simp
  have all: "view_collect v0 = Inr (?q # args)"
    using view_collect_join [of "?q # args" "''[''" "[]"] q assms(3) by (simp add: v0_def ptext_def)
  then obtain v where v: "view_next v0 = (Inr (Some ?q), v)" "view_collect v = Inr args"
    by (subst (asm) view_collect.simps) (auto split: prod.splits sum.splits option.splits)
  have "splitEventPayload ptext = Inr (ev, v)"
    using new v plain_unquote [OF assms(2), of isprint] assms(1) by (simp add: splitEventPayload_def)
  with v(2) show ?thesis by (auto simp: ptext_def)
qed

lemma bracket_payload [simp]: "stops (\<lambda>b. b = CHR ''/'') (CHR ''['' # xs)" "stops isDigit (CHR ''['' # xs)"
  "stops (\<lambda>b. b = CHR ''/'') (CHR ''{'' # xs)" "stops isDigit (CHR ''{'' # xs)"
  by simp_all

section \<open>Escaped string contents\<close>

text \<open>
  A reader for the contents of JSON strings, restricted to the escapes the printer uses and to code
  points below 256 in \<^verbatim>\<open>\u\<close> escapes: it is the specification of \<open>appendJSONStringContent\<close>.
\<close>

definition hex_val :: "byte \<Rightarrow> nat" where
  "hex_val b = (if is_dec_digit b then digit_val b else bval b - 87)"

fun json_unescape :: "bytes \<Rightarrow> bytes option" where
  "json_unescape [] = Some []"
| "json_unescape (b # r) =
     (if b \<noteq> CHR 0x5C then
        (if b = CHR 0x22 \<or> bval b < 32 then None else map_option (Cons b) (json_unescape r))
      else (case r of
          [] \<Rightarrow> None
        | c # r' \<Rightarrow>
            if c = CHR 0x5C \<or> c = CHR 0x22 then map_option (Cons c) (json_unescape r')
            else if c = CHR ''n'' then map_option (Cons (CHR 0x0A)) (json_unescape r')
            else if c = CHR ''r'' then map_option (Cons (CHR 0x0D)) (json_unescape r')
            else if c = CHR ''t'' then map_option (Cons (CHR 0x09)) (json_unescape r')
            else if c = CHR ''u'' then
              (case r' of
                 h1 # h2 # h3 # h4 # r'' \<Rightarrow>
                   if h1 = CHR ''0'' \<and> h2 = CHR ''0''
                   then map_option (Cons (char_of (16 * hex_val h3 + hex_val h4))) (json_unescape r'')
                   else None
               | _ \<Rightarrow> None)
            else None))"

lemma appendJSONStringContent_eq: "appendJSONStringContent dst s = dst @ concat (map json_escape s)"
  by (induction dst s rule: appendJSONStringContent.induct) auto

lemma hex_val_hex_digit: "d < 16 \<Longrightarrow> hex_val (hex_digit d) = d"
proof -
  have "\<forall>d \<in> {0..<16}. hex_val (hex_digit d) = d" by code_simp
  then show "d < 16 \<Longrightarrow> hex_val (hex_digit d) = d" by auto
qed

lemma json_unescape_escape:
  "json_unescape (json_escape c @ r) = map_option (Cons c) (json_unescape r)"
proof (cases "c \<in> {CHR 0x5C, CHR 0x22, CHR 0x0A, CHR 0x0D, CHR 0x09}")
  case True
  then show ?thesis by (elim insertE emptyE) (simp_all add: json_escape_def)
next
  case special: False
  show ?thesis
  proof (cases "bval c < 32")
    case True
    then have val: "char_of (16 * hex_val (hex_digit (bval c div 16)) + hex_val (hex_digit (bval c mod 16))) = c"
      by (simp add: hex_val_hex_digit)
    have read: "json_unescape ([CHR 0x5C, CHR ''u'', CHR ''0'', CHR ''0'', h, l] @ r)
        = map_option (Cons (char_of (16 * hex_val h + hex_val l))) (json_unescape r)" for h l
      by simp
    have "json_escape c = [CHR 0x5C, CHR ''u'', CHR ''0'', CHR ''0'', hex_digit (bval c div 16), hex_digit (bval c mod 16)]"
      using True special by (simp add: json_escape_def)
    then show ?thesis by (simp only: read val)
  next
    case False
    then have "json_escape c = [c]" using special by (simp add: json_escape_def)
    moreover have "json_unescape (c # r) = map_option (Cons c) (json_unescape r)"
      using False special by simp
    ultimately show ?thesis by (simp only: append.simps)
  qed
qed

lemma json_unescape_content: "json_unescape (concat (map json_escape s)) = Some s"
  by (induction s) (simp_all add: json_unescape_escape)

definition escape_chunks :: "byte \<Rightarrow> chunk list" where
  "escape_chunks c =
     (if c = CHR 0x5C \<or> c = CHR 0x22 then [Esc c]
      else if c = CHR 0x0A then [Esc (CHR ''n'')]
      else if c = CHR 0x0D then [Esc (CHR ''r'')]
      else if c = CHR 0x09 then [Esc (CHR ''t'')]
      else if bval c < 32 then
        [Esc (CHR ''u''), Raw (CHR ''0''), Raw (CHR ''0''), Raw (hex_digit (bval c div 16)), Raw (hex_digit (bval c mod 16))]
      else [Raw c])"

lemma hex_digit_plain: "hex_digit d \<noteq> CHR 0x22 \<and> hex_digit d \<noteq> CHR 0x5C"
proof -
  have "hex_digit d \<in> set ''0123456789abcdef''"
    unfolding hex_digit_def by (rule nth_mem) simp
  then show ?thesis by auto
qed

lemma escape_chunks_text: "chunks_text (escape_chunks c) = json_escape c" "list_all wf_chunk (escape_chunks c)"
  by (auto simp: escape_chunks_def json_escape_def chunks_text_def hex_digit_plain)

lemma content_chunks:
  "chunks_text (concat (map escape_chunks s)) = concat (map json_escape s)"
  "list_all wf_chunk (concat (map escape_chunks s))"
  by (induction s) (auto simp: chunks_text_def escape_chunks_text [unfolded chunks_text_def])

lemma append_handshake_dst: "append_handshake dst sid pid = dst @ append_handshake [] sid pid"
  by (simp add: append_handshake_def Let_def appendJSONStringContent_eq)

lemma append_handshake_start: "\<exists>r. append_handshake [] sid pid = CHR ''{'' # r"
  by (simp add: append_handshake_def Let_def appendJSONStringContent_eq)

lemma one_value_handshake: "one_value (append_handshake [] sid pid)"
proof -
  define field where "field k v = [TString (map Raw k), TByte (CHR '':''), TString (concat (map escape_chunks v))]" for k v
  define ts where "ts = field ''sid'' sid @ (if pid = [] then [] else TByte (CHR '','') # field ''pid'' pid)"
  have "append_handshake [] sid pid = value_text (JObject ts)"
    by (simp add: append_handshake_def Let_def appendJSONStringContent_eq ts_def field_def string_text_def
        content_chunks chunks_text_def [of "map Raw _"] chunks_text_def [of "[Raw _, Raw _, Raw _]"])
  moreover have "wf_value (JObject ts)"
    by (simp add: ts_def field_def content_chunks toks_depth_def)
  ultimately show ?thesis by (simp add: one_value_text del: value_text.simps)
qed

section \<open>Shape of accepted packets\<close>

lemma parse_attachments_wf:
  assumes "parse_attachments typ data = Inr (att, rest)"
  shows "(is_binary typ \<longleftrightarrow> 0 < att) \<and> att < 2 ^ 63"
  using assms sint_lt [where 'a = 64]
  by (auto simp: parse_attachments_def split: if_splits prod.splits)

lemma parse_namespace_wf:
  assumes "parse_namespace data = (nsp, rest)"
  shows "nsp ! 0 = CHR ''/'' \<and> nsp \<noteq> [] \<and> CHR '','' \<notin> set nsp"
proof (cases "data \<noteq> [] \<and> data ! 0 = CHR ''/''")
  case True
  show ?thesis
  proof (cases "index_byte (CHR '','') data")
    case None
    with True assms show ?thesis by (simp add: parse_namespace_def index_byte_None)
  next
    case (Some idx)
    with index_byte_Some [of "CHR '',''" data idx] have "idx \<noteq> 0" using True by (cases idx) auto
    with Some True assms index_byte_Some [of "CHR '',''" data idx] show ?thesis
      by (auto simp: parse_namespace_def)
  qed
next
  case False
  with assms show ?thesis by (auto simp: parse_namespace_def defaultNamespaceBytes_def)
qed

lemma unquote_clean:
  "unquoteJSONStringView data = Inr body \<Longrightarrow> \<forall>b \<in> set body. b \<noteq> CHR 0x5C \<and> \<not> bval b < 32"
  by (auto simp: unquoteJSONStringView_def Let_def split: if_splits)

lemma NewJSONArrayView_wf:
  "NewJSONArrayView data = Inr v \<Longrightarrow> av_data v = data \<and> av_pos v \<le> length data"
  by (auto simp: NewJSONArrayView_def split: if_splits)

lemma splitEventPayload_wf:
  assumes "splitEventPayload data = Inr (event, v)"
  shows "event \<noteq> [] \<and> (\<forall>b \<in> set event. b \<noteq> CHR 0x5C \<and> \<not> bval b < 32)
    \<and> av_data v = data \<and> av_pos v \<le> length data"
proof -
  obtain v0 first where *: "NewJSONArrayView data = Inr v0" "view_next v0 = (Inr (Some first), v)"
      "unquoteJSONStringView first = Inr event" "event \<noteq> []"
    using assms by (auto simp: splitEventPayload_def split: sum.splits prod.splits option.splits if_splits)
  then show ?thesis
    using view_next_progress [OF *(2)] NewJSONArrayView_wf [OF *(1)] unquote_clean [OF *(3)] by simp
qed

definition wf_packet :: "PacketView \<Rightarrow> bool" where
  "wf_packet p \<longleftrightarrow>
     (is_binary (pv_Type p) \<longleftrightarrow> 0 < pv_Attachments p) \<and> pv_Attachments p < 2 ^ 63
     \<and> pv_Namespace p \<noteq> [] \<and> pv_Namespace p ! 0 = CHR ''/'' \<and> CHR '','' \<notin> set (pv_Namespace p)
     \<and> (pv_Type p = PacketEvent \<or> pv_Type p = PacketBinaryEvent \<longrightarrow>
          pv_Event p \<noteq> [] \<and> (\<forall>b \<in> set (pv_Event p). b \<noteq> CHR 0x5C \<and> \<not> bval b < 32))
     \<and> av_pos (pv_Args p) \<le> length (av_data (pv_Args p))
     \<and> (av_data (pv_Args p) = [] \<or> av_data (pv_Args p) = pv_Payload p)
     \<and> pv_Binary p = []"

lemma parse_payload_fields:
  assumes "parse_payload p = Inr q" "pv_Args p = empty_view"
  shows "pv_Type q = pv_Type p \<and> pv_Namespace q = pv_Namespace p \<and> pv_Attachments q = pv_Attachments p
    \<and> pv_Binary q = pv_Binary p \<and> pv_Payload q = pv_Payload p
    \<and> (pv_Type p = PacketEvent \<or> pv_Type p = PacketBinaryEvent \<longrightarrow>
          pv_Event q \<noteq> [] \<and> (\<forall>b \<in> set (pv_Event q). b \<noteq> CHR 0x5C \<and> \<not> bval b < 32))
    \<and> av_pos (pv_Args q) \<le> length (av_data (pv_Args q))
    \<and> (av_data (pv_Args q) = [] \<or> av_data (pv_Args q) = pv_Payload p)"
proof (cases "pv_Type p = PacketEvent \<or> pv_Type p = PacketBinaryEvent")
  case True
  with assms obtain event v where *: "splitEventPayload (pv_Payload p) = Inr (event, v)"
      "q = p\<lparr>pv_Event := event, pv_Args := v\<rparr>"
    by (auto simp: parse_payload_def split: sum.splits)
  then show ?thesis using splitEventPayload_wf [OF *(1)] by simp
next
  case False
  have "q = p \<or> (\<exists>v. NewJSONArrayView (pv_Payload p) = Inr v \<and> q = p\<lparr>pv_Args := v\<rparr>)"
    using assms(1) False by (auto simp: parse_payload_def split: if_splits sum.splits)
  with False assms(2) show ?thesis
    by (elim disjE exE conjE) (simp_all add: empty_view_def NewJSONArrayView_wf)
qed

lemma event_parses:
  assumes "typ = PacketEvent \<or> typ = PacketBinaryEvent" "wf_count typ att" "wf_namespace nsp"
    and "event \<noteq> []" "\<forall>b \<in> set event. plain_byte b" "\<forall>a \<in> set args. one_value a"
  shows "\<exists>p. ParsePacketView (appendEventPacket isprint [] typ att nsp ident hasID event args) = Inr p
    \<and> pv_Type p = typ \<and> pv_Namespace p = effective_namespace nsp
    \<and> pv_HasID p = hasID \<and> pv_ID p = (if hasID then ident else 0)
    \<and> pv_Attachments p = (if typ = PacketBinaryEvent then att else 0)
    \<and> pv_Event p = event \<and> view_collect (pv_Args p) = Inr args"
proof -
  obtain v where v: "splitEventPayload (''['' @ join_args (quote isprint event # args) @ '']'') = Inr (event, v)"
      "view_collect v = Inr args"
    using splitEventPayload_text [OF assms(4-6), of isprint] by blast
  show ?thesis
    using assms(1) v
    by (auto simp: appendEventPacket_eq ParsePacketView_header [OF assms(2,3)] parse_payload_def is_binary_def)
qed

lemma ack_parses:
  assumes "typ = PacketAck \<or> typ = PacketBinaryAck" "wf_count typ att" "wf_namespace nsp"
    and "\<forall>a \<in> set args. one_value a"
  shows "\<exists>p. ParsePacketView (appendAckPacket [] typ att nsp ident args) = Inr p
    \<and> pv_Type p = typ \<and> pv_Namespace p = effective_namespace nsp \<and> pv_HasID p \<and> pv_ID p = ident
    \<and> pv_Attachments p = (if typ = PacketBinaryAck then att else 0)
    \<and> view_collect (pv_Args p) = Inr args"
proof -
  have "view_collect \<lparr>av_data = CHR ''['' # join_args args @ [CHR '']''], av_pos = 1\<rparr> = Inr args"
    using view_collect_join [of args "''[''" "[]"] assms(4) by simp
  then show ?thesis
    using assms(1)
    by (auto simp: appendAckPacket_eq ParsePacketView_header [OF assms(2,3)] parse_payload_def is_binary_def
        NewJSONArrayView_text)
qed

section \<open>What the codec guarantees\<close>

text \<open>
  (C5) Round trip of event packets: for an event or binary event packet written by
  \<open>appendEventPacket\<close> with a namespace that starts with a slash and has no comma (or the default
  one), any id, a non-empty event name of printable ASCII without quote and backslash, and
  arguments that each are one JSON value, \<open>ParsePacketView\<close> succeeds, gives back type, namespace,
  id, attachment count and event name, and iterating its argument view yields exactly the
  arguments.
\<close>

theorem event_packet_roundtrip:
  assumes "typ = PacketEvent \<or> typ = PacketBinaryEvent" "wf_count typ att" "wf_namespace nsp"
    and "event \<noteq> []" "\<forall>b \<in> set event. plain_byte b" "\<forall>a \<in> set args. one_value a"
  shows "\<exists>p. ParsePacketView (appendEventPacket isprint [] typ att nsp ident hasID event args) = Inr p
    \<and> pv_Type p = typ \<and> pv_Namespace p = effective_namespace nsp
    \<and> pv_HasID p = hasID \<and> pv_ID p = (if hasID then ident else 0)
    \<and> pv_Attachments p = (if typ = PacketBinaryEvent then att else 0)
    \<and> pv_Event p = event \<and> view_collect (pv_Args p) = Inr args"
  using assms by (rule event_parses)

text \<open>
  Round trip of ack packets: the id, the namespace and the arguments of an ack or binary ack
  written by \<open>appendAckPacket\<close> are read back by \<open>ParsePacketView\<close>.
\<close>

theorem ack_packet_roundtrip:
  assumes "typ = PacketAck \<or> typ = PacketBinaryAck" "wf_count typ att" "wf_namespace nsp"
    and "\<forall>a \<in> set args. one_value a"
  shows "\<exists>p. ParsePacketView (appendAckPacket [] typ att nsp ident args) = Inr p
    \<and> pv_Type p = typ \<and> pv_Namespace p = effective_namespace nsp \<and> pv_HasID p \<and> pv_ID p = ident
    \<and> pv_Attachments p = (if typ = PacketBinaryAck then att else 0)
    \<and> view_collect (pv_Args p) = Inr args"
  using assms by (rule ack_parses)

text \<open>
  Round trip of connect packets: for every session id and every recovery id, the packet the
  server sends after a connect parses as a connect packet of that namespace without an id, and its
  payload is one JSON value.
\<close>

theorem connect_packet_roundtrip:
  assumes "wf_namespace nsp"
  shows "\<exists>p. ParsePacketView (appendConnectPacketString [] nsp sid pid) = Inr p
    \<and> pv_Type p = PacketConnect \<and> pv_Namespace p = effective_namespace nsp \<and> \<not> pv_HasID p
    \<and> pv_Payload p = append_handshake [] sid pid \<and> one_value (pv_Payload p)"
proof -
  obtain r where r: "append_handshake [] sid pid = CHR ''{'' # r"
    using append_handshake_start by blast
  have "wf_count PacketConnect 0" by (simp add: wf_count_def is_binary_def)
  from ParsePacketView_header [OF this assms, of "append_handshake [] sid pid" 0 False]
  show ?thesis
    using one_value_handshake [of sid pid]
    by (simp add: appendConnectPacketString_def append_handshake_dst [of "appendPacketHeader [] PacketConnect 0 nsp 0 False"]
        appendPacketHeaderString_eq r parse_payload_def)
qed

text \<open>
  JSON strings: the escaped contents the server writes for any byte string contain no bare
  quote, and reading the escapes back gives the original bytes.
\<close>

theorem json_string_content_roundtrip:
  "json_unescape (appendJSONStringContent [] s) = Some s"
  by (simp add: appendJSONStringContent_eq json_unescape_content)

text \<open>
  (C27) Shape of accepted packets: whatever bytes arrive, a packet that \<open>ParsePacketView\<close> accepts has a
  positive attachment count exactly when it is binary, a namespace that starts with a slash and has
  no comma, for events a non-empty name without backslash and control bytes, and an argument view
  whose position lies inside the payload.
\<close>

theorem accepted_packet_wf:
  assumes "ParsePacketView data = Inr p"
  shows "wf_packet p"
proof -
  from assms obtain b rest att d1 nsp d2 ident hasID payload where
      *: "parse_attachments (type_of_byte b) rest = Inr (att, d1)" "parse_namespace d1 = (nsp, d2)"
      "parse_payload \<lparr>pv_Type = type_of_byte b, pv_Namespace = nsp, pv_ID = ident,
                      pv_HasID = hasID, pv_Attachments = att, pv_Binary = [],
                      pv_Payload = payload, pv_Event = [], pv_Args = empty_view\<rparr> = Inr p"
    by (auto simp: ParsePacketView_def split: list.splits if_splits sum.splits prod.splits)
  show ?thesis
    using parse_attachments_wf [OF *(1)] parse_namespace_wf [OF *(2)] parse_payload_fields [OF *(3)]
    by (simp add: wf_packet_def)
qed

text \<open>
  (C28) The scanner delimits JSON: for every JSON value whose brackets nest at most 64 deep, written
  anywhere in the data and followed by a byte that cannot continue a number, \<open>scanJSONValue\<close>
  returns the index right after the value.
\<close>

theorem scan_delimits_json:
  assumes "wf_value v" "stops number_byte rest"
  shows "scanJSONValue (pre @ value_text v @ rest) (length pre) = Inr (length pre + length (value_text v))"
  using scanJSONValue_one_value [OF one_value_text [OF assms(1)] assms(2)] .

text \<open>
  The scanner stays inside the data: on any bytes, an end index returned by \<open>scanJSONValue\<close>
  lies behind the start and not behind the end of the data.
\<close>

theorem scan_in_bounds:
  assumes "scanJSONValue data pos = Inr e"
  shows "pos < e \<and> e \<le> length data"
  using assms by (rule scanJSONValue_bounds)

section \<open>Witnesses\<close>

theorem event_packet_roundtrip_witness:
  "\<exists>p. ParsePacketView (appendEventPacket (\<lambda>_. False) [] PacketBinaryEvent 1 ''/chat'' 12 True ''bin''
         [''{num:0}'', ''17'']) = Inr p
    \<and> pv_Type p = PacketBinaryEvent \<and> pv_Namespace p = effective_namespace ''/chat''
    \<and> pv_HasID p = True \<and> pv_ID p = (if True then 12 else 0)
    \<and> pv_Attachments p = (if PacketBinaryEvent = PacketBinaryEvent then 1 else 0)
    \<and> pv_Event p = ''bin'' \<and> view_collect (pv_Args p) = Inr [''{num:0}'', ''17'']"
  by (rule event_packet_roundtrip) code_simp+

theorem ack_packet_roundtrip_witness:
  "\<exists>p. ParsePacketView (appendAckPacket [] PacketAck 0 ''/'' 7 [''[1,2]'', ''null'']) = Inr p
    \<and> pv_Type p = PacketAck \<and> pv_Namespace p = effective_namespace ''/'' \<and> pv_HasID p \<and> pv_ID p = 7
    \<and> pv_Attachments p = (if PacketAck = PacketBinaryAck then 0 else 0)
    \<and> view_collect (pv_Args p) = Inr [''[1,2]'', ''null'']"
  by (rule ack_packet_roundtrip) code_simp+

theorem connect_packet_roundtrip_witness:
  "\<exists>p. ParsePacketView (appendConnectPacketString [] ''/chat'' ''n1-abc'' ''n1-p'') = Inr p
    \<and> pv_Type p = PacketConnect \<and> pv_Namespace p = effective_namespace ''/chat'' \<and> \<not> pv_HasID p
    \<and> pv_Payload p = append_handshake [] ''n1-abc'' ''n1-p'' \<and> one_value (pv_Payload p)"
  by (rule connect_packet_roundtrip) code_simp

theorem accepted_packet_wf_witness:
  "\<exists>p. ParsePacketView ''0/chat,{}'' = Inr p \<and> wf_packet p"
proof -
  have "ParsePacketView ''0/chat,{}'' = Inr \<lparr>pv_Type = PacketConnect, pv_Namespace = ''/chat'', pv_ID = 0,
      pv_HasID = False, pv_Attachments = 0, pv_Binary = [], pv_Payload = ''{}'', pv_Event = [], pv_Args = empty_view\<rparr>"
    by code_simp
  then show ?thesis using accepted_packet_wf by blast
qed

theorem scan_delimits_json_witness:
  "wf_value (JArray [TByte (CHR ''1''), TBraces []]) \<and> stops number_byte '',x''
   \<and> scanJSONValue (''['' @ value_text (JArray [TByte (CHR ''1''), TBraces []]) @ '',x'') (length ''['')
     = Inr (length ''['' + length (value_text (JArray [TByte (CHR ''1''), TBraces []])))"
proof -
  have "wf_value (JArray [TByte (CHR ''1''), TBraces []])" "stops number_byte '',x''"
    by (simp_all add: toks_depth_def number_byte_def)
  then show ?thesis using scan_delimits_json by blast
qed

theorem scan_in_bounds_witness:
  "scanJSONValue ''[1,2],3'' 0 = Inr 5 \<and> 0 < (5 :: nat) \<and> 5 \<le> length ''[1,2],3''"
proof -
  have h: "scanJSONValue ''[1,2],3'' 0 = Inr 5" by code_simp
  show ?thesis using h scan_in_bounds [OF h] by simp
qed

end
