(* ===== verification/Handlers.thy ===== *)
theory Handlers
  imports PacketView
begin

text \<open>
  Callback registries and handler invocation: \<^verbatim>\<open>callbacks.go\<close> (\<open>callbackStore\<close>) and \<^verbatim>\<open>handler.go\<close>
  (\<open>eventHandlers\<close>, argument decoding, \<open>ackHandler\<close>).

  A registered function is identified by the address of its code and by the closure it
  carries; \<^verbatim>\<open>reflect.Value.Pointer\<close> sees the code only. Running user code has no model: an operation that
  calls a function returns the invocation (function and arguments) instead. \<^verbatim>\<open>json.Unmarshal\<close> into a
  reflected type is the parameter \<open>unmarshal\<close>, \<^const>\<open>None\<close> for an error. The filter loops over
  \<^verbatim>\<open>list[:0]\<close> share the backing array with \<^verbatim>\<open>list\<close>, and are modelled on that array.
\<close>

section \<open>Functions and types\<close>

record fnptr =
  fn_code :: nat
  fn_env :: nat

datatype 'ty gotype =
    TyBytes | TyBinary | TyIface bool 'ty | TyPtr 'ty | TyFunc nat | TyError | TyOther 'ty

datatype 'ty fnval = NilFn | NotFunc | Func fnptr "'ty gotype list" nat

datatype ('ty, 'v) goval =
    VBytes bytes | VBinary bytes | VDecoded 'v | VZero "'ty gotype" | VErrAckTimeout | VAck "u64 option"

section \<open>In-place filtering\<close>

text \<open>
  \<^verbatim>\<open>kept := list[:0]; for _, item := range list { if keep(item) { kept = append(kept, item) } }\<close>: the array both
  slices share, read at \<open>i\<close> and written at \<open>k\<close>. The result is the array and the length of \<^verbatim>\<open>kept\<close>.
\<close>

function compact :: "('a \<Rightarrow> bool) \<Rightarrow> 'a list \<Rightarrow> nat \<Rightarrow> nat \<Rightarrow> 'a list \<times> nat" where
  "compact keep arr i k =
     (if i < length arr then
        (if keep (arr ! i) then compact keep (arr[k := arr ! i]) (i + 1) (k + 1)
         else compact keep arr (i + 1) k)
      else (arr, k))"
  by pat_completeness auto
termination
  by (relation "measure (\<lambda>(keep, arr, i, k). length arr - i)") auto

declare compact.simps [simp del]

lemma compact_invariant:
  assumes "k \<le> i" "i \<le> length arr"
  shows "compact keep arr i k =
    (take k arr @ filter keep (drop i arr) @ drop (k + length (filter keep (drop i arr))) arr,
     k + length (filter keep (drop i arr)))"
  using assms
proof (induction keep arr i k rule: compact.induct)
  case (1 keep arr i k)
  show ?case
  proof (cases "i < length arr")
    case True
    have d: "drop i arr = arr ! i # drop (Suc i) arr" using True by (simp add: Cons_nth_drop_Suc)
    show ?thesis
    proof (cases "keep (arr ! i)")
      case keep: True
      have "take (Suc k) (arr[k := arr ! i]) = take k arr @ [arr ! i]"
        using True 1 by (simp add: take_Suc_conv_app_nth)
      moreover have "drop (Suc i) (arr[k := arr ! i]) = drop (Suc i) arr"
        using 1 by simp
      moreover have "drop (Suc k + n) (arr[k := arr ! i]) = drop (Suc k + n) arr" for n
        by simp
      ultimately show ?thesis
        using 1 True keep by (simp add: compact.simps [of keep arr i k] d)
    next
      case False
      with 1 True show ?thesis by (simp add: compact.simps [of keep arr i k] d)
    qed
  next
    case False
    with 1 show ?thesis by (subst compact.simps) simp
  qed
qed

lemma compact_from_start:
  "compact keep xs 0 0 = (filter keep xs @ drop (length (filter keep xs)) xs, length (filter keep xs))"
  using compact_invariant [of 0 0 xs keep] by simp

definition compacted :: "('a \<Rightarrow> bool) \<Rightarrow> 'a list \<Rightarrow> 'a list" where
  "compacted keep xs = (case compact keep xs 0 0 of (arr, k) \<Rightarrow> take k arr)"

definition overwritten :: "('a \<Rightarrow> bool) \<Rightarrow> 'a list \<Rightarrow> 'a list" where
  "overwritten keep xs = fst (compact keep xs 0 0)"

lemma compacted_eq [simp]: "compacted keep xs = filter keep xs"
  by (simp add: compacted_def compact_from_start)

lemma overwritten_eq: "overwritten keep xs = filter keep xs @ drop (length (filter keep xs)) xs"
  by (simp add: overwritten_def compact_from_start)

section \<open>callbackStore\<close>

record callbackStore =
  cs_on :: "fnptr list"
  cs_once :: "fnptr list"

definition empty_callbacks :: callbackStore where
  "empty_callbacks = \<lparr>cs_on = [], cs_once = []\<rparr>"

definition callbacks_add :: "callbackStore \<Rightarrow> fnptr \<Rightarrow> bool \<Rightarrow> callbackStore" where
  "callbacks_add s f once =
     (if once then s\<lparr>cs_once := cs_once s @ [f]\<rparr> else s\<lparr>cs_on := cs_on s @ [f]\<rparr>)"

definition removeFuncValue :: "fnptr list \<Rightarrow> fnptr \<Rightarrow> fnptr list" where
  "removeFuncValue xs v = compacted (\<lambda>item. fn_code item \<noteq> fn_code v) xs"

fun remove_each :: "callbackStore \<Rightarrow> fnptr list \<Rightarrow> callbackStore" where
  "remove_each s [] = s"
| "remove_each s (f # fs) =
     remove_each (s\<lparr>cs_on := removeFuncValue (cs_on s) f, cs_once := removeFuncValue (cs_once s) f\<rparr>) fs"

definition callbacks_remove :: "callbackStore \<Rightarrow> fnptr list \<Rightarrow> callbackStore" where
  "callbacks_remove s fs = (if fs = [] then s\<lparr>cs_on := [], cs_once := []\<rparr> else remove_each s fs)"

text \<open>\<^verbatim>\<open>forEach\<close> copies both lists and clears the second before it calls anything: the calls, in order.\<close>

definition callbacks_forEach :: "callbackStore \<Rightarrow> fnptr list \<times> callbackStore" where
  "callbacks_forEach s = (cs_on s @ cs_once s, s\<lparr>cs_once := []\<rparr>)"

lemma remove_each_eq:
  "remove_each s fs = s\<lparr>cs_on := filter (\<lambda>f. fn_code f \<notin> fn_code ` set fs) (cs_on s),
                        cs_once := filter (\<lambda>f. fn_code f \<notin> fn_code ` set fs) (cs_once s)\<rparr>"
  by (induction s fs rule: remove_each.induct) (auto simp: removeFuncValue_def intro!: filter_cong)

section \<open>eventHandlers\<close>

record 'ty eventHandler =
  eh_fn :: fnptr
  eh_args :: "'ty gotype list"
  eh_hasAck :: bool
  eh_once :: bool

type_synonym 'ty eventHandlers = "(bytes \<times> 'ty eventHandler list) list"

datatype handler_error =
    HandlerNil | HandlerNotFunction | HandlerReturnsValues | HandlerAckReturnsValues
  | ArgScanFailed nat packet_error | TooFewArgs nat nat | ArgDecodeFailed nat
  | ServerSideAckDeclared
  | AckHandlerNotFunction | AckHandlerReturnsValues | AckHandlerNeedsError

fun is_func_type :: "'ty gotype \<Rightarrow> bool" where
  "is_func_type (TyFunc n) = True"
| "is_func_type _ = False"

fun num_out :: "'ty gotype \<Rightarrow> nat" where
  "num_out (TyFunc n) = n"
| "num_out _ = 0"

definition newEventHandler :: "'ty fnval \<Rightarrow> bool \<Rightarrow> (handler_error, 'ty eventHandler) result" where
  "newEventHandler fn once =
     (case fn of
        NilFn \<Rightarrow> Inl HandlerNil
      | NotFunc \<Rightarrow> Inl HandlerNotFunction
      | Func f args nout \<Rightarrow>
          if nout \<noteq> 0 then Inl HandlerReturnsValues
          else (let hasAck = (args \<noteq> [] \<and> is_func_type (last args)) in
            if hasAck \<and> num_out (last args) \<noteq> 0 then Inl HandlerAckReturnsValues
            else Inr \<lparr>eh_fn = f, eh_args = args, eh_hasAck = hasAck, eh_once = once\<rparr>))"

definition handlers_get :: "'ty eventHandlers \<Rightarrow> bytes \<Rightarrow> 'ty eventHandler list" where
  "handlers_get m event = (case map_of m event of None \<Rightarrow> [] | Some xs \<Rightarrow> xs)"

definition handlers_add ::
    "'ty eventHandlers \<Rightarrow> bytes \<Rightarrow> 'ty fnval \<Rightarrow> bool \<Rightarrow> (handler_error, 'ty eventHandlers) result" where
  "handlers_add m event fn once =
     (case newEventHandler fn once of
        Inl err \<Rightarrow> Inl err
      | Inr h \<Rightarrow> Inr (AList.update event (handlers_get m event @ [h]) m))"

text \<open>The end of \<^verbatim>\<open>off\<close> and of both dispatchers: an empty list deletes the entry.\<close>

definition handlers_put :: "'ty eventHandlers \<Rightarrow> bytes \<Rightarrow> 'ty eventHandler list \<Rightarrow> 'ty eventHandlers" where
  "handlers_put m event kept = (if kept = [] then AList.delete event m else AList.update event kept m)"

definition handlers_off :: "'ty eventHandlers \<Rightarrow> bytes \<Rightarrow> 'ty fnval list \<Rightarrow> 'ty eventHandlers" where
  "handlers_off m event fns =
     (case fns of
        [] \<Rightarrow> AList.delete event m
      | NilFn # _ \<Rightarrow> AList.delete event m
      | NotFunc # _ \<Rightarrow> m
      | Func f _ _ # _ \<Rightarrow>
          handlers_put m event (compacted (\<lambda>h. fn_code (eh_fn h) \<noteq> fn_code f) (handlers_get m event)))"

definition handlers_offAll :: "'ty eventHandlers \<Rightarrow> 'ty eventHandlers" where
  "handlers_offAll m = []"

lemma handlers_get_put [simp]:
  "handlers_get (handlers_put m event xs) event' = (if event' = event then xs else handlers_get m event')"
  by (simp add: handlers_get_def handlers_put_def alist_simps)

section \<open>Binary placeholders\<close>

definition jsonPlaceholderKey :: bytes where
  "jsonPlaceholderKey = [CHR 0x22] @ ''_placeholder'' @ [CHR 0x22]"

definition jsonTrueLiteral :: bytes where
  "jsonTrueLiteral = ''true''"

definition jsonPlaceholderNum :: bytes where
  "jsonPlaceholderNum = [CHR 0x22] @ ''num'' @ [CHR 0x22]"

definition binaryPlaceholderNum :: "bytes \<Rightarrow> int option" where
  "binaryPlaceholderNum raw =
     (if \<not> contains raw jsonPlaceholderKey \<or> \<not> contains raw jsonTrueLiteral then None
      else (case index_sub raw jsonPlaceholderNum of
          None \<Rightarrow> None
        | Some at \<Rightarrow>
            (let idx = skip_while (\<lambda>b. b = CHR '' '' \<or> b = CHR 0x09 \<or> b = CHR 0x0A \<or> b = CHR 0x0D \<or> b = CHR '':'')
                         raw (at + length jsonPlaceholderNum)
             in if idx \<ge> length raw \<or> \<not> isDigit (raw ! idx) then None
                else Some (sint (fst (read_digits (0 :: u64) (drop idx raw)))))))"

text \<open>The placeholder that \<^verbatim>\<open>byteBatch.AppendPlaceholder\<close> writes for the attachment with a given index.\<close>

definition placeholder_text :: "int \<Rightarrow> bytes" where
  "placeholder_text num =
     ''{'' @ jsonPlaceholderKey @ '':true,'' @ jsonPlaceholderNum @ '':'' @ format_int num @ ''}''"

definition binaryReflectValue :: "bytes \<Rightarrow> 'ty gotype \<Rightarrow> ('ty, 'v) goval option" where
  "binaryReflectValue data typ =
     (case typ of
        TyBytes \<Rightarrow> Some (VBytes data)
      | TyBinary \<Rightarrow> Some (VBinary data)
      | TyIface assignable _ \<Rightarrow> if assignable then Some (VBinary data) else None
      | _ \<Rightarrow> None)"

text \<open>
  \<^const>\<open>None\<close> is an error: an attachment that is not there, or JSON that does not fit the type. The pointer
  case of the code differs only in what \<open>unmarshal\<close> is handed.
\<close>

definition decodeValueWithBinary ::
    "('ty gotype \<Rightarrow> bytes \<Rightarrow> 'v option) \<Rightarrow> bytes \<Rightarrow> 'ty gotype \<Rightarrow> bytes list \<Rightarrow> ('ty, 'v) goval option" where
  "decodeValueWithBinary unmarshal raw typ attachments =
     (let json = map_option VDecoded (unmarshal typ raw) in
      case binaryPlaceholderNum raw of
        Some idx \<Rightarrow>
          if idx < 0 \<or> idx \<ge> int (length attachments) then None
          else (case binaryReflectValue (attachments ! nat idx) typ of Some v \<Rightarrow> Some v | None \<Rightarrow> json)
      | None \<Rightarrow> json)"

section \<open>Invoking handlers\<close>

datatype ('ty, 'v) invocation = Invoke fnptr "('ty, 'v) goval list"

text \<open>The loop over the argument types of \<^verbatim>\<open>call\<close> and \<^verbatim>\<open>callServerSide\<close>.\<close>

fun decode_args ::
    "('ty gotype \<Rightarrow> bytes \<Rightarrow> 'v option) \<Rightarrow> bytes list \<Rightarrow> nat \<Rightarrow> nat \<Rightarrow> 'ty gotype list \<Rightarrow> JSONArrayView
     \<Rightarrow> (handler_error, ('ty, 'v) goval list) result" where
  "decode_args unmarshal binary want i [] view = Inr []"
| "decode_args unmarshal binary want i (typ # typs) view =
     (case view_next view of
        (Inl err, _) \<Rightarrow> Inl (ArgScanFailed i err)
      | (Inr None, _) \<Rightarrow> Inl (TooFewArgs want i)
      | (Inr (Some raw), view') \<Rightarrow>
          (case decodeValueWithBinary unmarshal raw typ binary of
             None \<Rightarrow> Inl (ArgDecodeFailed i)
           | Some v \<Rightarrow>
               (case decode_args unmarshal binary want (i + 1) typs view' of
                  Inl err \<Rightarrow> Inl err
                | Inr vs \<Rightarrow> Inr (v # vs))))"

definition handler_call ::
    "('ty gotype \<Rightarrow> bytes \<Rightarrow> 'v option) \<Rightarrow> 'ty eventHandler \<Rightarrow> PacketView
     \<Rightarrow> (handler_error, ('ty, 'v) invocation) result" where
  "handler_call unmarshal h p =
     (let argTypes = (if eh_hasAck h then butlast (eh_args h) else eh_args h) in
      case decode_args unmarshal (pv_Binary p) (length argTypes) 0 argTypes (pv_Args p) of
        Inl err \<Rightarrow> Inl err
      | Inr values \<Rightarrow>
          Inr (Invoke (eh_fn h)
            (if eh_hasAck h then values @ [VAck (if pv_HasID p then Some (pv_ID p) else None)] else values)))"

definition handler_callServerSide ::
    "('ty gotype \<Rightarrow> bytes \<Rightarrow> 'v option) \<Rightarrow> 'ty eventHandler \<Rightarrow> PacketView
     \<Rightarrow> (handler_error, ('ty, 'v) invocation) result" where
  "handler_callServerSide unmarshal h p =
     (case decode_args unmarshal (pv_Binary p) (length (eh_args h)) 0 (eh_args h) (pv_Args p) of
        Inl err \<Rightarrow> Inl err
      | Inr values \<Rightarrow> Inr (Invoke (eh_fn h) values))"

text \<open>The calls made before the first error, and that error.\<close>

fun call_each ::
    "('h \<Rightarrow> (handler_error, 'i) result) \<Rightarrow> 'h list \<Rightarrow> 'i list \<times> handler_error option" where
  "call_each call [] = ([], None)"
| "call_each call (h # hs) =
     (case call h of
        Inl err \<Rightarrow> ([], Some err)
      | Inr made \<Rightarrow> (case call_each call hs of (calls, err) \<Rightarrow> (made # calls, err)))"

text \<open>
  What both dispatchers do under the lock: keep the persistent handlers, and copy \<^verbatim>\<open>list\<close> only
  after the filter loop has written over its array.
\<close>

definition take_handlers :: "'ty eventHandlers \<Rightarrow> bytes \<Rightarrow> 'ty eventHandler list \<times> 'ty eventHandlers" where
  "take_handlers m event =
     (let list = handlers_get m event in
      if list = [] then ([], m)
      else (overwritten (\<lambda>h. \<not> eh_once h) list,
            handlers_put m event (compacted (\<lambda>h. \<not> eh_once h) list)))"

definition dispatch ::
    "('ty gotype \<Rightarrow> bytes \<Rightarrow> 'v option) \<Rightarrow> 'ty eventHandlers \<Rightarrow> PacketView
     \<Rightarrow> ('ty, 'v) invocation list \<times> handler_error option \<times> 'ty eventHandlers" where
  "dispatch unmarshal m p =
     (let (items, m') = take_handlers m (pv_Event p);
          (calls, err) = call_each (\<lambda>h. handler_call unmarshal h p) items
      in (calls, err, m'))"

definition dispatchServerSide ::
    "('ty gotype \<Rightarrow> bytes \<Rightarrow> 'v option) \<Rightarrow> 'ty eventHandlers \<Rightarrow> PacketView
     \<Rightarrow> ('ty, 'v) invocation list \<times> handler_error option \<times> 'ty eventHandlers" where
  "dispatchServerSide unmarshal m p =
     (let (items, m') = take_handlers m (pv_Event p);
          (calls, err) = call_each (\<lambda>h. if eh_hasAck h then Inl ServerSideAckDeclared
                                       else handler_callServerSide unmarshal h p) items
      in (calls, err, m'))"

section \<open>ackHandler\<close>

text \<open>\<open>ah_done\<close> is the state of the \<^verbatim>\<open>sync.Once\<close>.\<close>

record 'ty ackHandler =
  ah_fn :: fnptr
  ah_args :: "'ty gotype list"
  ah_hasError :: bool
  ah_done :: bool

definition newAckHandler :: "'ty fnval \<Rightarrow> bool \<Rightarrow> (handler_error, 'ty ackHandler) result" where
  "newAckHandler fn hasError =
     (case fn of
        Func f args nout \<Rightarrow>
          if nout \<noteq> 0 then Inl AckHandlerReturnsValues
          else if hasError \<and> (args = [] \<or> hd args \<noteq> TyError) then Inl AckHandlerNeedsError
          else Inr \<lparr>ah_fn = f, ah_args = args, ah_hasError = hasError, ah_done = False\<rparr>
      | _ \<Rightarrow> Inl AckHandlerNotFunction)"

text \<open>The arguments after the error: a missing one is the zero value of its type.\<close>

fun ack_values ::
    "('ty gotype \<Rightarrow> bytes \<Rightarrow> 'v option) \<Rightarrow> bytes list \<Rightarrow> nat \<Rightarrow> 'ty gotype list \<Rightarrow> JSONArrayView
     \<Rightarrow> (handler_error, ('ty, 'v) goval list) result" where
  "ack_values unmarshal binary i [] view = Inr []"
| "ack_values unmarshal binary i (typ # typs) view =
     (case view_next view of
        (Inl err, _) \<Rightarrow> Inl (ArgScanFailed i err)
      | (Inr None, view') \<Rightarrow>
          (case ack_values unmarshal binary (i + 1) typs view' of
             Inl err \<Rightarrow> Inl err | Inr vs \<Rightarrow> Inr (VZero typ # vs))
      | (Inr (Some raw), view') \<Rightarrow>
          (case decodeValueWithBinary unmarshal raw typ binary of
             None \<Rightarrow> Inl (ArgDecodeFailed i)
           | Some v \<Rightarrow>
               (case ack_values unmarshal binary (i + 1) typs view' of
                  Inl err \<Rightarrow> Inl err | Inr vs \<Rightarrow> Inr (v # vs))))"

text \<open>
  \<^verbatim>\<open>call\<close> and \<^verbatim>\<open>timeout\<close> run their body at most once between them. The result is the call that is made, the
  error returned, and the handler after it.
\<close>

definition ack_call ::
    "('ty gotype \<Rightarrow> bytes \<Rightarrow> 'v option) \<Rightarrow> 'ty ackHandler \<Rightarrow> JSONArrayView \<Rightarrow> bytes list
     \<Rightarrow> ('ty, 'v) invocation option \<times> handler_error option \<times> 'ty ackHandler" where
  "ack_call unmarshal h args attachments =
     (if ah_done h then (None, None, h)
      else (let h' = h\<lparr>ah_done := True\<rparr>;
                start = (if ah_hasError h then 1 else 0);
                first = (if ah_hasError h then [VZero (ah_args h ! 0)] else [])
            in case ack_values unmarshal attachments start (drop start (ah_args h)) args of
                 Inl err \<Rightarrow> (None, Some err, h')
               | Inr vs \<Rightarrow> (Some (Invoke (ah_fn h) (first @ vs)), None, h')))"

definition ack_timeout :: "'ty ackHandler \<Rightarrow> ('ty, 'v) invocation option \<times> 'ty ackHandler" where
  "ack_timeout h =
     (if ah_done h then (None, h)
      else (if ah_hasError h
            then Some (Invoke (ah_fn h) (VErrAckTimeout # map VZero (drop 1 (ah_args h)))) else None,
            h\<lparr>ah_done := True\<rparr>))"

section \<open>One-shot registries\<close>

text \<open>
  The contract of a registry of persistent and one-shot callbacks, on the states that satisfy
  \<open>ok\<close>: a run calls the persistent ones and then the one-shot ones, each once, and forgets
  the one-shot ones.
\<close>

locale once_registry =
  fixes ok :: "'s \<Rightarrow> bool"
    and persistent :: "'s \<Rightarrow> 'f list"
    and oneshot :: "'s \<Rightarrow> 'f list"
    and run :: "'s \<Rightarrow> 'f list \<times> 's"
  assumes run_calls: "ok s \<Longrightarrow> fst (run s) = persistent s @ oneshot s"
    and run_persistent: "ok s \<Longrightarrow> persistent (snd (run s)) = persistent s"
    and run_oneshot: "ok s \<Longrightarrow> oneshot (snd (run s)) = []"
    and run_ok: "ok s \<Longrightarrow> ok (snd (run s))"
begin

fun runs :: "nat \<Rightarrow> 's \<Rightarrow> 'f list" where
  "runs 0 s = []"
| "runs (Suc n) s = fst (run s) @ runs n (snd (run s))"

lemma runs_settled: "ok s \<Longrightarrow> oneshot s = [] \<Longrightarrow> runs n s = concat (replicate n (persistent s))"
  by (induction n arbitrary: s) (simp_all add: run_calls run_persistent run_oneshot run_ok)

lemma runs_calls:
  "ok s \<Longrightarrow> runs (Suc n) s = persistent s @ oneshot s @ concat (replicate n (persistent s))"
  by (simp add: run_calls runs_settled run_ok run_oneshot run_persistent)

end

interpretation callbacks: once_registry "\<lambda>_. True" cs_on cs_once callbacks_forEach
  by unfold_locales (simp_all add: callbacks_forEach_def)

text \<open>The dispatchers meet the contract only where no one-shot handler stands before a persistent one.\<close>

definition persistent_first :: "'ty eventHandler list \<Rightarrow> bool" where
  "persistent_first hs \<longleftrightarrow> hs = filter (\<lambda>h. \<not> eh_once h) hs @ filter eh_once hs"

lemma take_handlers_calls:
  "fst (take_handlers m event) =
     filter (\<lambda>h. \<not> eh_once h) (handlers_get m event)
     @ drop (length (filter (\<lambda>h. \<not> eh_once h) (handlers_get m event))) (handlers_get m event)"
  by (simp add: take_handlers_def Let_def overwritten_eq)

lemma take_handlers_state:
  "handlers_get (snd (take_handlers m event)) event' =
     (if event' = event then filter (\<lambda>h. \<not> eh_once h) (handlers_get m event) else handlers_get m event')"
  by (simp add: take_handlers_def Let_def)

lemma persistent_first_drop:
  "persistent_first hs \<Longrightarrow> drop (length (filter (\<lambda>h. \<not> eh_once h) hs)) hs = filter eh_once hs"
  unfolding persistent_first_def by (metis append_eq_conv_conj)

interpretation events: once_registry
  "\<lambda>m. persistent_first (handlers_get m event)"
  "\<lambda>m. filter (\<lambda>h. \<not> eh_once h) (handlers_get m event)"
  "\<lambda>m. filter eh_once (handlers_get m event)"
  "\<lambda>m. take_handlers m event" for event
  by unfold_locales
    (simp_all add: take_handlers_calls take_handlers_state persistent_first_drop, simp add: persistent_first_def)

lemma dispatch_eq:
  "dispatch unmarshal m p =
     (fst (call_each (\<lambda>h. handler_call unmarshal h p) (fst (take_handlers m (pv_Event p)))),
      snd (call_each (\<lambda>h. handler_call unmarshal h p) (fst (take_handlers m (pv_Event p)))),
      snd (take_handlers m (pv_Event p)))"
  by (simp add: dispatch_def Let_def split: prod.splits)

section \<open>Acks run once\<close>

datatype ack_op = AckCall JSONArrayView "bytes list" | AckTimeout

fun ack_step ::
    "('ty gotype \<Rightarrow> bytes \<Rightarrow> 'v option) \<Rightarrow> 'ty ackHandler \<Rightarrow> ack_op \<Rightarrow> ('ty, 'v) invocation option \<times> 'ty ackHandler" where
  "ack_step unmarshal h (AckCall args atts) = (case ack_call unmarshal h args atts of (made, _, h') \<Rightarrow> (made, h'))"
| "ack_step unmarshal h AckTimeout = ack_timeout h"

fun ack_run ::
    "('ty gotype \<Rightarrow> bytes \<Rightarrow> 'v option) \<Rightarrow> 'ty ackHandler \<Rightarrow> ack_op list \<Rightarrow> ('ty, 'v) invocation list" where
  "ack_run unmarshal h [] = []"
| "ack_run unmarshal h (x # xs) =
     (case ack_step unmarshal h x of
        (made, h') \<Rightarrow> (case made of None \<Rightarrow> [] | Some c \<Rightarrow> [c]) @ ack_run unmarshal h' xs)"

lemma ack_step_done: "ah_done (snd (ack_step unmarshal h x))"
  by (cases x) (auto simp: ack_call_def ack_timeout_def Let_def split: sum.splits)

lemma ack_step_after: "ah_done h \<Longrightarrow> fst (ack_step unmarshal h x) = None"
  by (cases x) (auto simp: ack_call_def ack_timeout_def)

lemma ack_run_after: "ah_done h \<Longrightarrow> ack_run unmarshal h xs = []"
proof (induction xs arbitrary: h)
  case (Cons x xs)
  obtain made h' where st: "ack_step unmarshal h x = (made, h')" by (cases "ack_step unmarshal h x")
  have "made = None" "ah_done h'"
    using ack_step_after [OF Cons.prems, of unmarshal x] ack_step_done [of unmarshal h x] st by simp_all
  with Cons.IH st show ?case by simp
qed simp

section \<open>Placeholders are read back\<close>

lemma binaryPlaceholderNum_text:
  assumes "n < 2 ^ 63"
  shows "binaryPlaceholderNum (placeholder_text (int n)) = Some (int n)"
proof -
  define pre where "pre = ''{'' @ jsonPlaceholderKey @ '':true,'' @ jsonPlaceholderNum"
  have raw: "placeholder_text (int n) = pre @ '':'' @ format_nat n @ ''}''"
    by (simp add: placeholder_text_def pre_def format_int_def)
  have len: "length pre = 26" "length jsonPlaceholderNum = 5"
    by (simp_all add: pre_def jsonPlaceholderKey_def jsonPlaceholderNum_def)
  have has: "contains (pre @ r) jsonPlaceholderKey" "contains (pre @ r) jsonTrueLiteral" for r
    by (simp_all add: contains_def pre_def jsonPlaceholderKey_def jsonPlaceholderNum_def jsonTrueLiteral_def)
  have at: "index_sub (pre @ r) jsonPlaceholderNum = Some (length pre - 5)" for r
    by (simp add: pre_def jsonPlaceholderKey_def jsonPlaceholderNum_def)
  have hd_dig: "isDigit (hd (format_nat n))" by (simp add: isDigit_eq)
  then have stop: "stops (\<lambda>b. b = CHR '' '' \<or> b = CHR 0x09 \<or> b = CHR 0x0A \<or> b = CHR 0x0D \<or> b = CHR '':'') (format_nat n @ r)" for r
    by (cases "format_nat n") (auto simp: isDigit_def)
  have skip: "skip_while (\<lambda>b. b = CHR '' '' \<or> b = CHR 0x09 \<or> b = CHR 0x0A \<or> b = CHR 0x0D \<or> b = CHR '':'')
      (pre @ '':'' @ format_nat n @ ''}'') (length pre) = length pre + 1"
    using skip_while_exact [OF _ stop, of "'':''" pre "''}''"] by simp
  have dig: "isDigit ((pre @ '':'' @ format_nat n @ ''}'') ! (length pre + 1))"
    using hd_dig nth_append_length_plus [of "pre @ '':''" "format_nat n @ ''}''" 0]
    by (simp add: hd_conv_nth nth_append)
  have "read_digits (0 :: u64) (format_nat n @ ''}'') = (of_nat n, length (format_nat n))"
    by (rule read_digits_format_nat) (simp add: is_dec_digit_def)
  then show ?thesis
    using assms has at skip dig len(2)
    unfolding binaryPlaceholderNum_def raw
    by (simp add: Let_def len(1) sint_of_nat_u64)
qed

section \<open>What the registries guarantee\<close>

text \<open>
  Callback stores: over any number of runs, \<open>callbacks_forEach\<close> calls every persistent callback
  once per run in registration order, and every one-shot callback exactly once, in the first run.
\<close>

theorem callbacks_once:
  "callbacks.runs (Suc n) s = cs_on s @ cs_once s @ concat (replicate n (cs_on s))"
  by (rule callbacks.runs_calls) simp

text \<open>
  Event dispatch with the persistent handlers registered first: \<open>dispatch\<close> calls every handler of
  the event once, in registration order, up to the first handler that fails to decode its
  arguments; afterwards exactly the persistent handlers are registered, and the other events
  are untouched.
\<close>

theorem dispatch_persistent_first:
  assumes "persistent_first (handlers_get m (pv_Event p))"
  shows "dispatch unmarshal m p =
      (fst (call_each (\<lambda>h. handler_call unmarshal h p) (handlers_get m (pv_Event p))),
       snd (call_each (\<lambda>h. handler_call unmarshal h p) (handlers_get m (pv_Event p))),
       snd (take_handlers m (pv_Event p)))
    \<and> handlers_get (snd (snd (dispatch unmarshal m p))) event =
       (if event = pv_Event p then filter (\<lambda>h. \<not> eh_once h) (handlers_get m event) else handlers_get m event)"
proof -
  have "fst (take_handlers m (pv_Event p)) = handlers_get m (pv_Event p)"
    using events.run_calls [OF assms] assms by (simp add: persistent_first_def)
  then show ?thesis by (simp add: dispatch_eq take_handlers_state)
qed

text \<open>
  A one-shot handler registered before a persistent one is lost: the filter loop has
  overwritten the list by the time it is copied. If a one-shot handler stands first and some later
  handler of the event is persistent, the dispatch takes as many handlers as are registered, but
  the one-shot handler is not among them, and it is unregistered all the same.
\<close>

theorem oneshot_before_persistent_is_lost:
  assumes "handlers_get m event = h # hs" "eh_once h" "h \<notin> set hs" "g \<in> set hs" "\<not> eh_once g"
  shows "h \<notin> set (fst (take_handlers m event))
    \<and> length (fst (take_handlers m event)) = length (handlers_get m event)
    \<and> h \<notin> set (handlers_get (snd (take_handlers m event)) event)"
proof -
  let ?k = "filter (\<lambda>h. \<not> eh_once h) hs"
  have "?k \<noteq> []" using assms(4,5) by (auto simp: filter_empty_conv)
  then obtain n where n: "length ?k = Suc n" by (cases "length ?k") auto
  have "length ?k \<le> length hs" by simp
  have "fst (take_handlers m event) = ?k @ drop n hs"
    using assms(1,2) n by (simp add: take_handlers_calls)
  then show ?thesis
    using assms n \<open>length ?k \<le> length hs\<close> in_set_dropD [of h n hs]
    by (auto simp: take_handlers_state)
qed

text \<open>
  Acks run once: however often an ack handler is resolved and timed out, in whatever order, its
  function is called at most once.
\<close>

theorem ack_runs_at_most_once: "length (ack_run unmarshal h ops) \<le> 1"
proof (cases ops)
  case (Cons x xs)
  obtain made h' where st: "ack_step unmarshal h x = (made, h')" by (cases "ack_step unmarshal h x")
  then have "ah_done h'" using ack_step_done [of unmarshal h x] by simp
  with Cons st show ?thesis by (simp add: ack_run_after split: option.splits)
qed simp

text \<open>The placeholder for attachment \<open>i\<close> decodes, for a parameter of type \<^verbatim>\<open>Binary\<close>, to exactly that attachment.\<close>

lemma placeholder_decodes_to_attachment:
  assumes "i < length attachments" "length attachments \<le> 2 ^ 63"
  shows "decodeValueWithBinary unmarshal (placeholder_text (int i)) TyBinary attachments = Some (VBinary (attachments ! i))"
  using assms by (simp add: decodeValueWithBinary_def binaryPlaceholderNum_text binaryReflectValue_def)

section \<open>Witnesses\<close>

definition sample_handler :: "nat \<Rightarrow> bool \<Rightarrow> unit eventHandler" where
  "sample_handler c once = \<lparr>eh_fn = \<lparr>fn_code = c, fn_env = 0\<rparr>, eh_args = [], eh_hasAck = False, eh_once = once\<rparr>"

definition sample_packet :: PacketView where
  "sample_packet = \<lparr>pv_Type = PacketEvent, pv_Namespace = ''/'', pv_ID = 0, pv_HasID = False, pv_Attachments = 0,
     pv_Binary = [], pv_Payload = [], pv_Event = ''e'', pv_Args = empty_view\<rparr>"

theorem dispatch_persistent_first_witness:
  "fst (dispatch (\<lambda>_ _. None :: unit option) [(''e'', [sample_handler 1 False, sample_handler 2 True])] sample_packet)
     = [Invoke \<lparr>fn_code = 1, fn_env = 0\<rparr> [], Invoke \<lparr>fn_code = 2, fn_env = 0\<rparr> []]"
  using dispatch_persistent_first [of "[(''e'', [sample_handler 1 False, sample_handler 2 True])]" sample_packet
      "\<lambda>_ _. None :: unit option" "''e''"]
  by (simp add: persistent_first_def handlers_get_def sample_handler_def sample_packet_def handler_call_def)

theorem oneshot_before_persistent_is_lost_witness:
  "sample_handler 1 True \<notin> set (fst (take_handlers [(''e'', [sample_handler 1 True, sample_handler 2 False])] ''e''))
   \<and> fst (dispatch (\<lambda>_ _. None :: unit option) [(''e'', [sample_handler 1 True, sample_handler 2 False])] sample_packet)
     = [Invoke \<lparr>fn_code = 2, fn_env = 0\<rparr> [], Invoke \<lparr>fn_code = 2, fn_env = 0\<rparr> []]"
proof
  show "sample_handler 1 True \<notin> set (fst (take_handlers [(''e'', [sample_handler 1 True, sample_handler 2 False])] ''e''))"
    using oneshot_before_persistent_is_lost [of "[(''e'', [sample_handler 1 True, sample_handler 2 False])]" "''e''"
        "sample_handler 1 True" "[sample_handler 2 False]" "sample_handler 2 False"]
    by (simp add: handlers_get_def sample_handler_def)
  show "fst (dispatch (\<lambda>_ _. None :: unit option) [(''e'', [sample_handler 1 True, sample_handler 2 False])] sample_packet)
     = [Invoke \<lparr>fn_code = 2, fn_env = 0\<rparr> [], Invoke \<lparr>fn_code = 2, fn_env = 0\<rparr> []]"
    by (simp add: dispatch_eq take_handlers_calls handlers_get_def sample_handler_def sample_packet_def handler_call_def)
qed


end
