(* ===== verification/Encode.thy ===== *)
theory Encode
  imports Handlers
begin

text \<open>
  Encoding the arguments of an emit (\<^verbatim>\<open>encodeAnyArgs\<close> in \<^verbatim>\<open>socket.go\<close>) and of an acknowledgement
  (\<^verbatim>\<open>encodeReflectArgs\<close> in \<^verbatim>\<open>handler.go\<close>), and the packets written from the result.

  An argument of type \<^verbatim>\<open>any\<close> is an \<open>anyarg\<close>; \<^verbatim>\<open>json.Valid\<close> and \<^verbatim>\<open>json.Marshal\<close> are the parameters \<open>valid\<close> and
  \<open>marshal\<close>. A \<^verbatim>\<open>*byteBatch\<close> is the list of its views, \<^const>\<open>None\<close> for a nil pointer.
\<close>

section \<open>Arguments\<close>

datatype ('ty, 'v) anyarg =
    AnyNil | AnyBinary bytes | AnyBytes bytes | AnyString bytes | AnyFunc "'ty fnval" | AnyOther 'v

record encodedArgs =
  ea_json :: "bytes list option"
  ea_binary :: "bytes list option"

definition JSONViews :: "encodedArgs \<Rightarrow> bytes list" where
  "JSONViews e = (case ea_json e of None \<Rightarrow> [] | Some views \<Rightarrow> views)"

definition BinaryViews :: "encodedArgs \<Rightarrow> bytes list" where
  "BinaryViews e = (case ea_binary e of None \<Rightarrow> [] | Some views \<Rightarrow> views)"

definition batch_append :: "bytes list option \<Rightarrow> bytes \<Rightarrow> bytes list option" where
  "batch_append b v = map_option (\<lambda>views. views @ [v]) b"

definition binaryArg :: "(bytes \<Rightarrow> bool) \<Rightarrow> ('ty, 'v) anyarg \<Rightarrow> bytes option" where
  "binaryArg valid arg =
     (case arg of
        AnyBinary v \<Rightarrow> Some v
      | AnyBytes v \<Rightarrow> if valid v then None else Some v
      | _ \<Rightarrow> None)"

fun estimate_arg :: "('ty, 'v) anyarg \<Rightarrow> nat" where
  "estimate_arg (AnyBytes v) = length v"
| "estimate_arg (AnyBinary v) = 32"
| "estimate_arg (AnyString v) = length v + 2"
| "estimate_arg _ = 0"

definition estimateArgsBytes :: "('ty, 'v) anyarg list \<Rightarrow> nat" where
  "estimateArgsBytes args = foldl (\<lambda>n arg. n + estimate_arg arg) (length args * 16) args"

definition estimateBinaryBytes :: "(bytes \<Rightarrow> bool) \<Rightarrow> ('ty, 'v) anyarg list \<Rightarrow> nat" where
  "estimateBinaryBytes valid args =
     foldl (\<lambda>n arg. case binaryArg valid arg of Some b \<Rightarrow> n + length b | None \<Rightarrow> n) 0 args"

definition countBinaryArgs :: "(bytes \<Rightarrow> bool) \<Rightarrow> ('ty, 'v) anyarg list \<Rightarrow> nat" where
  "countBinaryArgs valid args =
     foldl (\<lambda>n arg. case binaryArg valid arg of Some b \<Rightarrow> n + 1 | None \<Rightarrow> n) 0 args"

definition acquireOptionalBinaryBatch :: "(bytes \<Rightarrow> bool) \<Rightarrow> ('ty, 'v) anyarg list \<Rightarrow> bytes list option" where
  "acquireOptionalBinaryBatch valid args =
     (if estimateBinaryBytes valid args = 0 \<and> countBinaryArgs valid args = 0 then None else Some [])"

text \<open>The loop of \<^verbatim>\<open>encodeAnyArgs\<close>; the error is the index of the argument that \<^verbatim>\<open>json.Marshal\<close> refuses.\<close>

fun encode_args ::
    "(bytes \<Rightarrow> bool) \<Rightarrow> (('ty, 'v) anyarg \<Rightarrow> bytes option) \<Rightarrow> nat \<Rightarrow> ('ty, 'v) anyarg list \<Rightarrow> encodedArgs
     \<Rightarrow> (nat, encodedArgs) result" where
  "encode_args valid marshal i [] out = Inr out"
| "encode_args valid marshal i (arg # args) out =
     (case binaryArg valid arg of
        Some b \<Rightarrow>
          encode_args valid marshal (i + 1) args
            (out\<lparr>ea_json := batch_append (ea_json out) (placeholder_text (int (length (BinaryViews out)))),
                 ea_binary := batch_append (ea_binary out) b\<rparr>)
      | None \<Rightarrow>
          (case (case arg of AnyBytes raw \<Rightarrow> if valid raw then Some raw else marshal arg | _ \<Rightarrow> marshal arg) of
             None \<Rightarrow> Inl i
           | Some b \<Rightarrow> encode_args valid marshal (i + 1) args (out\<lparr>ea_json := batch_append (ea_json out) b\<rparr>)))"

definition encodeAnyArgs ::
    "(bytes \<Rightarrow> bool) \<Rightarrow> (('ty, 'v) anyarg \<Rightarrow> bytes option) \<Rightarrow> ('ty, 'v) anyarg list \<Rightarrow> (nat, encodedArgs) result" where
  "encodeAnyArgs valid marshal args =
     (if length args = 0 then Inr \<lparr>ea_json = None, ea_binary = None\<rparr>
      else encode_args valid marshal 0 args
             \<lparr>ea_json = Some [], ea_binary = acquireOptionalBinaryBatch valid args\<rparr>)"

definition encodedSize :: "encodedArgs \<Rightarrow> nat" where
  "encodedSize encoded = foldl (\<lambda>n b. n + (length b + 1)) 0 (JSONViews encoded)"

section \<open>Reflected values\<close>

datatype ('ty, 'v) reflectValue = RInvalid | RUnexported | RValue "('ty, 'v) anyarg"

definition reflectBinary :: "(bytes \<Rightarrow> bool) \<Rightarrow> ('ty, 'v) reflectValue \<Rightarrow> bytes option" where
  "reflectBinary valid arg = (case arg of RValue a \<Rightarrow> binaryArg valid a | _ \<Rightarrow> None)"

definition estimateReflectBinaryBytes :: "(bytes \<Rightarrow> bool) \<Rightarrow> ('ty, 'v) reflectValue list \<Rightarrow> nat" where
  "estimateReflectBinaryBytes valid args =
     foldl (\<lambda>n arg. case reflectBinary valid arg of Some b \<Rightarrow> n + length b | None \<Rightarrow> n) 0 args"

definition countReflectBinaryArgs :: "(bytes \<Rightarrow> bool) \<Rightarrow> ('ty, 'v) reflectValue list \<Rightarrow> nat" where
  "countReflectBinaryArgs valid args =
     foldl (\<lambda>n arg. case reflectBinary valid arg of Some b \<Rightarrow> n + 1 | None \<Rightarrow> n) 0 args"

definition acquireOptionalReflectBinaryBatch ::
    "(bytes \<Rightarrow> bool) \<Rightarrow> ('ty, 'v) reflectValue list \<Rightarrow> bytes list option" where
  "acquireOptionalReflectBinaryBatch valid args =
     (if estimateReflectBinaryBytes valid args = 0 \<and> countReflectBinaryArgs valid args = 0 then None else Some [])"

text \<open>One turn of the loop of \<^verbatim>\<open>encodeReflectArgs\<close>.\<close>

definition encode_reflect ::
    "(bytes \<Rightarrow> bool) \<Rightarrow> (('ty, 'v) anyarg \<Rightarrow> bytes option) \<Rightarrow> encodedArgs \<Rightarrow> ('ty, 'v) reflectValue \<Rightarrow> encodedArgs" where
  "encode_reflect valid marshal out arg =
     (case arg of
        RValue a \<Rightarrow>
          (case binaryArg valid a of
             Some b \<Rightarrow>
               out\<lparr>ea_json := batch_append (ea_json out) (placeholder_text (int (length (BinaryViews out)))),
                   ea_binary := batch_append (ea_binary out) b\<rparr>
           | None \<Rightarrow>
               out\<lparr>ea_json := batch_append (ea_json out) (case marshal a of None \<Rightarrow> ''null'' | Some b \<Rightarrow> b)\<rparr>)
      | _ \<Rightarrow> out\<lparr>ea_json := batch_append (ea_json out) ''null''\<rparr>)"

definition encodeReflectArgs ::
    "(bytes \<Rightarrow> bool) \<Rightarrow> (('ty, 'v) anyarg \<Rightarrow> bytes option) \<Rightarrow> ('ty, 'v) reflectValue list \<Rightarrow> encodedArgs" where
  "encodeReflectArgs valid marshal args =
     (if length args = 0 then \<lparr>ea_json = None, ea_binary = None\<rparr>
      else foldl (encode_reflect valid marshal)
             \<lparr>ea_json = Some [], ea_binary = acquireOptionalReflectBinaryBatch valid args\<rparr> args)"

section \<open>Packets\<close>

definition appendEventEncoded ::
    "(nat \<Rightarrow> bool) \<Rightarrow> bytes \<Rightarrow> bytes \<Rightarrow> u64 \<Rightarrow> bool \<Rightarrow> bytes \<Rightarrow> encodedArgs \<Rightarrow> bytes" where
  "appendEventEncoded isprint dst namespace ident hasID eventName encoded =
     (if length (BinaryViews encoded) \<noteq> 0
      then appendEventPacketString isprint dst PacketBinaryEvent (int (length (BinaryViews encoded))) namespace ident hasID
             eventName (JSONViews encoded)
      else appendEventPacketString isprint dst PacketEvent 0 namespace ident hasID eventName (JSONViews encoded))"

definition appendAckEncoded :: "bytes \<Rightarrow> bytes \<Rightarrow> u64 \<Rightarrow> encodedArgs \<Rightarrow> bytes" where
  "appendAckEncoded dst namespace ident encoded =
     (if length (BinaryViews encoded) \<noteq> 0
      then appendAckPacketString dst PacketBinaryAck (int (length (BinaryViews encoded))) namespace ident (JSONViews encoded)
      else appendAckPacketString dst PacketAck 0 namespace ident (JSONViews encoded))"


section \<open>Both loops write pieces\<close>

text \<open>
  What an argument contributes: an attachment with its placeholder, or a JSON text. The loops differ in
  which texts they choose and in what they do when there is none.
\<close>

datatype piece = Attachment bytes | Text bytes

fun put_piece :: "encodedArgs \<Rightarrow> piece \<Rightarrow> encodedArgs" where
  "put_piece out (Attachment b) =
     out\<lparr>ea_json := batch_append (ea_json out) (placeholder_text (int (length (BinaryViews out)))),
         ea_binary := batch_append (ea_binary out) b\<rparr>"
| "put_piece out (Text t) = out\<lparr>ea_json := batch_append (ea_json out) t\<rparr>"

fun piece_attachments :: "piece list \<Rightarrow> bytes list" where
  "piece_attachments [] = []"
| "piece_attachments (Attachment b # ps) = b # piece_attachments ps"
| "piece_attachments (Text t # ps) = piece_attachments ps"

fun piece_texts :: "nat \<Rightarrow> piece list \<Rightarrow> bytes list" where
  "piece_texts n [] = []"
| "piece_texts n (Attachment b # ps) = placeholder_text (int n) # piece_texts (n + 1) ps"
| "piece_texts n (Text t # ps) = t # piece_texts n ps"

definition json_text :: "(bytes \<Rightarrow> bool) \<Rightarrow> (('ty, 'v) anyarg \<Rightarrow> bytes option) \<Rightarrow> ('ty, 'v) anyarg \<Rightarrow> bytes option" where
  "json_text valid marshal arg =
     (case arg of AnyBytes raw \<Rightarrow> if valid raw then Some raw else marshal arg | _ \<Rightarrow> marshal arg)"

definition any_piece :: "(bytes \<Rightarrow> bool) \<Rightarrow> (('ty, 'v) anyarg \<Rightarrow> bytes option) \<Rightarrow> ('ty, 'v) anyarg \<Rightarrow> piece option" where
  "any_piece valid marshal arg =
     (case binaryArg valid arg of Some b \<Rightarrow> Some (Attachment b) | None \<Rightarrow> map_option Text (json_text valid marshal arg))"

definition reflect_piece :: "(bytes \<Rightarrow> bool) \<Rightarrow> (('ty, 'v) anyarg \<Rightarrow> bytes option) \<Rightarrow> ('ty, 'v) reflectValue \<Rightarrow> piece" where
  "reflect_piece valid marshal arg =
     (case reflectBinary valid arg of
        Some b \<Rightarrow> Attachment b
      | None \<Rightarrow> Text (case arg of RValue a \<Rightarrow> (case marshal a of None \<Rightarrow> ''null'' | Some b \<Rightarrow> b) | _ \<Rightarrow> ''null''))"

lemma encode_args_pieces:
  "encode_args valid marshal i args out = Inr e \<longleftrightarrow>
   (\<exists>ps. list_all2 (\<lambda>arg p. any_piece valid marshal arg = Some p) args ps \<and> e = foldl put_piece out ps)"
proof (induction args arbitrary: i out)
  case (Cons arg args)
  show ?case
  proof (cases "binaryArg valid arg")
    case None
    then show ?thesis
      using Cons.IH by (cases "json_text valid marshal arg")
        (auto simp: any_piece_def list_all2_Cons1 json_text_def [symmetric])
  next
    case (Some b)
    then show ?thesis using Cons.IH by (auto simp: any_piece_def list_all2_Cons1)
  qed
qed auto

lemma encode_args_fails:
  "encode_args valid marshal i args out = Inl k \<longleftrightarrow>
   (\<exists>j < length args. k = i + j \<and> any_piece valid marshal (args ! j) = None
      \<and> (\<forall>l < j. any_piece valid marshal (args ! l) \<noteq> None))"
proof (induction args arbitrary: i out)
  case (Cons arg args)
  show ?case
  proof (cases "any_piece valid marshal arg")
    case None
    then have "encode_args valid marshal i (arg # args) out = Inl i"
      by (auto simp: any_piece_def json_text_def [symmetric] split: option.splits)
    then show ?thesis using None by (auto simp del: encode_args.simps simp: Ex_less_Suc2 All_less_Suc2)
  next
    case (Some p)
    then have "encode_args valid marshal i (arg # args) out = encode_args valid marshal (i + 1) args (put_piece out p)"
      by (auto simp: any_piece_def json_text_def [symmetric] split: option.splits)
    then have "encode_args valid marshal i (arg # args) out = Inl k \<longleftrightarrow>
        (\<exists>j < length args. k = i + 1 + j \<and> any_piece valid marshal (args ! j) = None
           \<and> (\<forall>l < j. any_piece valid marshal (args ! l) \<noteq> None))"
      using Cons.IH by simp
    also have "\<dots> \<longleftrightarrow> (\<exists>j < length (arg # args). k = i + j \<and> any_piece valid marshal ((arg # args) ! j) = None
           \<and> (\<forall>l < j. any_piece valid marshal ((arg # args) ! l) \<noteq> None))"
      using Some by (auto simp: Ex_less_Suc2 All_less_Suc2)
    finally show ?thesis .
  qed
qed simp

lemma encode_reflect_piece: "encode_reflect valid marshal out arg = put_piece out (reflect_piece valid marshal arg)"
  by (auto simp: encode_reflect_def reflect_piece_def reflectBinary_def split: reflectValue.splits option.splits)

lemma put_pieces_views:
  assumes "ea_json out = Some js" "piece_attachments ps \<noteq> [] \<Longrightarrow> ea_binary out \<noteq> None"
  shows "JSONViews (foldl put_piece out ps) = js @ piece_texts (length (BinaryViews out)) ps
    \<and> BinaryViews (foldl put_piece out ps) = BinaryViews out @ piece_attachments ps"
  using assms
proof (induction ps arbitrary: out js)
  case (Cons p ps)
  show ?case
  proof (cases p)
    case (Attachment b)
    with Cons.prems obtain bs where bs: "ea_binary out = Some bs" by auto
    with Cons.prems Attachment show ?thesis
      by (subst foldl_Cons, subst Cons.IH [THEN conjunct1], simp_all add: batch_append_def,
          subst Cons.IH [THEN conjunct2], simp_all add: batch_append_def BinaryViews_def)
  next
    case (Text t)
    with Cons.prems show ?thesis
      by (subst foldl_Cons, subst Cons.IH [THEN conjunct1], simp_all add: batch_append_def,
          subst Cons.IH [THEN conjunct2], simp_all add: batch_append_def BinaryViews_def)
  qed
qed (simp add: JSONViews_def)

lemma count_fold:
  "foldl (\<lambda>n arg. case f arg of Some b \<Rightarrow> n + 1 | None \<Rightarrow> n) (k :: nat) args = k \<longleftrightarrow> (\<forall>arg \<in> set args. f arg = None)"
proof -
  have "foldl (\<lambda>n arg. case f arg of Some b \<Rightarrow> n + 1 | None \<Rightarrow> n) k args = k + length (filter (\<lambda>arg. f arg \<noteq> None) args)"
    by (induction args arbitrary: k) (auto split: option.splits)
  then show ?thesis by (simp add: filter_empty_conv)
qed

lemma acquireOptionalBinaryBatch_iff:
  "acquireOptionalBinaryBatch valid args = (if \<forall>arg \<in> set args. binaryArg valid arg = None then None else Some [])"
proof -
  have "estimateBinaryBytes valid args = 0" if "\<forall>arg \<in> set args. binaryArg valid arg = None"
    using that unfolding estimateBinaryBytes_def by (induction args) simp_all
  then show ?thesis
    by (auto simp: acquireOptionalBinaryBatch_def countBinaryArgs_def count_fold [where k = 0])
qed

lemma acquireOptionalReflectBinaryBatch_iff:
  "acquireOptionalReflectBinaryBatch valid args = (if \<forall>arg \<in> set args. reflectBinary valid arg = None then None else Some [])"
proof -
  have "estimateReflectBinaryBytes valid args = 0" if "\<forall>arg \<in> set args. reflectBinary valid arg = None"
    using that unfolding estimateReflectBinaryBytes_def by (induction args) simp_all
  then show ?thesis
    by (auto simp: acquireOptionalReflectBinaryBatch_def countReflectBinaryArgs_def count_fold [where k = 0])
qed


section \<open>Reading the pieces back\<close>

lemma piece_texts_length [simp]: "length (piece_texts n ps) = length ps"
  by (induction n ps rule: piece_texts.induct) simp_all

lemma pieces_decode:
  assumes "length pre = n" "length pre + length (piece_attachments ps) \<le> 2 ^ 63"
  shows "list_all2 (\<lambda>p raw. case p of
      Attachment b \<Rightarrow> decodeValueWithBinary unmarshal raw TyBinary (pre @ piece_attachments ps) = Some (VBinary b)
    | Text t \<Rightarrow> raw = t) ps (piece_texts n ps)"
  using assms
proof (induction ps arbitrary: n pre)
  case (Cons p ps)
  show ?case
  proof (cases p)
    case (Attachment b)
    with Cons.prems have "decodeValueWithBinary unmarshal (placeholder_text (int n)) TyBinary (pre @ b # piece_attachments ps)
        = Some (VBinary ((pre @ b # piece_attachments ps) ! n))"
      by (intro placeholder_decodes_to_attachment) simp_all
    moreover have "(pre @ b # piece_attachments ps) ! n = b" using Cons.prems(1) by (simp add: nth_append)
    ultimately show ?thesis using Cons.prems Cons.IH [of "pre @ [b]" "n + 1"]
      unfolding Attachment piece_attachments.simps append_assoc append_Cons append_Nil by simp
  next
    case (Text t)
    then show ?thesis using Cons.prems Cons.IH [of pre n] unfolding Text piece_attachments.simps by simp
  qed
qed simp

lemma placeholder_one_value: "one_value (placeholder_text (int n))"
proof -
  define ts where "ts = [TString (map Raw ''_placeholder'')] @ map TByte '':true,''
    @ [TString (map Raw ''num'')] @ map TByte ('':'' @ format_nat n)"
  have "list_all wf_tok (map TByte (format_nat n))"
    by (auto simp: list_all_iff is_dec_digit_def dest!: format_nat_digits)
  moreover have "set (map tok_depth ts) \<subseteq> {0}" by (auto simp: ts_def)
  then have "insert 0 (set (map tok_depth ts)) = {0}" by blast
  then have "toks_depth ts = 0" unfolding toks_depth_def by (simp only: Max_singleton)
  ultimately have "one_value (value_text (JObject ts))"
    by (intro one_value_text) (simp add: ts_def)
  moreover have "concat (map tok_text (map TByte xs)) = xs" for xs by (induction xs) simp_all
  then have "value_text (JObject ts) = placeholder_text (int n)"
    by (simp add: ts_def placeholder_text_def jsonPlaceholderKey_def jsonPlaceholderNum_def format_int_def
        string_text_def chunks_text_def)
  ultimately show ?thesis by (simp only:)
qed

definition text_ok :: "piece \<Rightarrow> bool" where
  "text_ok p \<longleftrightarrow> (case p of Text t \<Rightarrow> one_value t | _ \<Rightarrow> True)"

lemma piece_texts_one_value: "list_all text_ok ps \<Longrightarrow> list_all one_value (piece_texts n ps)"
  by (induction n ps rule: piece_texts.induct) (simp_all add: text_ok_def placeholder_one_value)

lemma encodeAnyArgs_pieces:
  assumes "encodeAnyArgs valid marshal args = Inr e"
  shows "\<exists>ps. list_all2 (\<lambda>arg p. any_piece valid marshal arg = Some p) args ps
    \<and> JSONViews e = piece_texts 0 ps \<and> BinaryViews e = piece_attachments ps"
proof (cases "args = []")
  case True
  with assms show ?thesis by (auto simp: encodeAnyArgs_def JSONViews_def BinaryViews_def)
next
  case False
  define out where "out = \<lparr>ea_json = Some [], ea_binary = acquireOptionalBinaryBatch valid args\<rparr>"
  from assms False obtain ps where ps: "list_all2 (\<lambda>arg p. any_piece valid marshal arg = Some p) args ps"
      "e = foldl put_piece out ps"
    by (auto simp: encodeAnyArgs_def encode_args_pieces out_def)
  have "ea_binary out \<noteq> None" if "piece_attachments ps \<noteq> []"
  proof -
    have "\<exists>arg \<in> set args. binaryArg valid arg \<noteq> None"
      using ps(1) that by (induction rule: list_all2_induct) (auto simp: any_piece_def split: option.splits)
    then show ?thesis by (auto simp: out_def acquireOptionalBinaryBatch_iff)
  qed
  then have "JSONViews e = [] @ piece_texts (length (BinaryViews out)) ps \<and> BinaryViews e = BinaryViews out @ piece_attachments ps"
    unfolding ps(2) by (intro put_pieces_views) (simp_all add: out_def)
  moreover have "BinaryViews out = []" by (simp add: out_def BinaryViews_def acquireOptionalBinaryBatch_iff)
  ultimately show ?thesis using ps(1) by auto
qed

lemma encodeReflectArgs_pieces:
  "JSONViews (encodeReflectArgs valid marshal args) = piece_texts 0 (map (reflect_piece valid marshal) args)
   \<and> BinaryViews (encodeReflectArgs valid marshal args) = piece_attachments (map (reflect_piece valid marshal) args)"
proof (cases "args = []")
  case True
  then show ?thesis by (simp add: encodeReflectArgs_def JSONViews_def BinaryViews_def)
next
  case False
  define out where "out = \<lparr>ea_json = Some [], ea_binary = acquireOptionalReflectBinaryBatch valid args\<rparr>"
  let ?ps = "map (reflect_piece valid marshal) args"
  have "encode_reflect valid marshal = (\<lambda>out arg. put_piece out (reflect_piece valid marshal arg))"
    by (intro ext) (rule encode_reflect_piece)
  then have enc: "encodeReflectArgs valid marshal args = foldl put_piece out ?ps"
    using False by (simp add: encodeReflectArgs_def out_def foldl_map)
  have "ea_binary out \<noteq> None" if "piece_attachments ?ps \<noteq> []"
  proof -
    have "\<exists>arg \<in> set args. reflectBinary valid arg \<noteq> None"
      using that by (induction args) (auto simp: reflect_piece_def split: option.splits)
    then show ?thesis by (auto simp: out_def acquireOptionalReflectBinaryBatch_iff)
  qed
  then have "JSONViews (foldl put_piece out ?ps) = [] @ piece_texts (length (BinaryViews out)) ?ps
      \<and> BinaryViews (foldl put_piece out ?ps) = BinaryViews out @ piece_attachments ?ps"
    by (intro put_pieces_views) (simp_all add: out_def)
  moreover have "BinaryViews out = []" by (simp add: out_def BinaryViews_def acquireOptionalReflectBinaryBatch_iff)
  ultimately show ?thesis by (simp add: enc)
qed

lemma piece_attachments_length: "length (piece_attachments ps) \<le> length ps"
  by (induction ps rule: piece_attachments.induct) simp_all


section \<open>What encoding guarantees\<close>

lemma pieces_sent:
  assumes "list_all2 (\<lambda>arg p. any_piece valid marshal arg = Some p) args ps" "length args < 2 ^ 63"
  shows "list_all2 (\<lambda>arg raw. case binaryArg valid arg of
        Some b \<Rightarrow> decodeValueWithBinary unmarshal raw TyBinary (piece_attachments ps) = Some (VBinary b)
      | None \<Rightarrow> json_text valid marshal arg = Some raw) args (piece_texts 0 ps)"
proof -
  have "length (piece_attachments ps) \<le> 2 ^ 63"
    using assms piece_attachments_length [of ps] by (simp add: list_all2_lengthD)
  then have dec: "list_all2 (\<lambda>p raw. case p of
        Attachment b \<Rightarrow> decodeValueWithBinary unmarshal raw TyBinary (piece_attachments ps) = Some (VBinary b)
      | Text t \<Rightarrow> raw = t) ps (piece_texts 0 ps)"
    using pieces_decode [of "[]" 0 ps unmarshal] unfolding append_Nil by simp
  show ?thesis
    by (rule list_all2_trans [OF _ assms(1) dec])
      (auto simp: any_piece_def split: option.splits piece.splits)
qed

lemma pieces_wf:
  assumes "list_all2 (\<lambda>arg p. any_piece valid marshal arg = Some p) args ps"
    and "\<forall>arg \<in> set args. binaryArg valid arg = None \<longrightarrow> (\<exists>t. json_text valid marshal arg = Some t \<and> one_value t)"
  shows "list_all text_ok ps"
  using assms by (induction rule: list_all2_induct) (auto simp: any_piece_def text_ok_def split: option.splits)

text \<open>
  (C36) Round trip of an emit: if the arguments are encoded and every one that is not binary has a JSON text the scanner can delimit, the
  packet \<open>appendEventEncoded\<close> writes parses back as an event with the same namespace, id and name that
  announces exactly the attachments sent, and its arguments are, in order, for each binary argument a placeholder that decodes to
  the attached bytes and for each other one its JSON text.
\<close>

theorem emitted_event_roundtrip:
  assumes "encodeAnyArgs valid marshal args = Inr e" "length args < 2 ^ 63"
    and "\<forall>arg \<in> set args. binaryArg valid arg = None \<longrightarrow> (\<exists>t. json_text valid marshal arg = Some t \<and> one_value t)"
    and "wf_namespace nsp" "event \<noteq> []" "\<forall>b \<in> set event. plain_byte b"
  shows "\<exists>p raws. ParsePacketView (appendEventEncoded isprint [] nsp ident hasID event e) = Inr p
    \<and> pv_Type p = (if BinaryViews e = [] then PacketEvent else PacketBinaryEvent)
    \<and> pv_Attachments p = int (length (BinaryViews e)) \<and> BinaryViews e = List.map_filter (binaryArg valid) args
    \<and> pv_Namespace p = effective_namespace nsp \<and> pv_HasID p = hasID \<and> pv_ID p = (if hasID then ident else 0)
    \<and> pv_Event p = event \<and> view_collect (pv_Args p) = Inr raws
    \<and> list_all2 (\<lambda>arg raw. case binaryArg valid arg of
          Some b \<Rightarrow> decodeValueWithBinary unmarshal raw TyBinary (BinaryViews e) = Some (VBinary b)
        | None \<Rightarrow> json_text valid marshal arg = Some raw) args raws"
proof -
  obtain ps where ps: "list_all2 (\<lambda>arg p. any_piece valid marshal arg = Some p) args ps"
      "JSONViews e = piece_texts 0 ps" "BinaryViews e = piece_attachments ps"
    using encodeAnyArgs_pieces [OF assms(1)] by blast
  have att: "piece_attachments ps = List.map_filter (binaryArg valid) args"
    using ps(1) by (induction rule: list_all2_induct) (auto simp: any_piece_def List.map_filter_simps split: option.splits)
  have small: "length (piece_attachments ps) < 2 ^ 63"
    using ps(1) assms(2) piece_attachments_length [of ps] by (simp add: list_all2_lengthD)
  have texts: "\<forall>a \<in> set (JSONViews e). one_value a"
    using piece_texts_one_value [OF pieces_wf [OF ps(1) assms(3)]] by (simp add: ps(2) list_all_iff)
  define kind where "kind = (if BinaryViews e = [] then PacketEvent else PacketBinaryEvent)"
  have count: "wf_count kind (int (length (BinaryViews e)))"
    using small by (auto simp: wf_count_def kind_def is_binary_def ps(3))
  have kinds: "kind = PacketEvent \<or> kind = PacketBinaryEvent" by (simp add: kind_def)
  have enc: "appendEventEncoded isprint [] nsp ident hasID event e
      = appendEventPacket isprint [] kind (int (length (BinaryViews e))) nsp ident hasID event (JSONViews e)"
    by (simp add: appendEventEncoded_def appendEventPacketString_eq kind_def)
  obtain p where "ParsePacketView (appendEventEncoded isprint [] nsp ident hasID event e) = Inr p"
      "pv_Type p = kind" "pv_Namespace p = effective_namespace nsp" "pv_HasID p = hasID" "pv_ID p = (if hasID then ident else 0)"
      "pv_Attachments p = (if kind = PacketBinaryEvent then int (length (BinaryViews e)) else 0)"
      "pv_Event p = event" "view_collect (pv_Args p) = Inr (JSONViews e)"
    unfolding enc using event_parses [OF kinds count assms(4-6) texts, of isprint ident hasID] by blast
  moreover have "pv_Attachments p = int (length (BinaryViews e))" if "pv_Attachments p = (if kind = PacketBinaryEvent then int (length (BinaryViews e)) else 0)"
    using that by (simp add: kind_def split: if_splits)
  ultimately show ?thesis
    using att pieces_sent [OF ps(1) assms(2), of unmarshal] unfolding ps kind_def by blast
qed


theorem emitted_event_roundtrip_witness:
  "\<exists>p raws. ParsePacketView (appendEventEncoded (\<lambda>_. False) [] ''/chat'' 5 True ''put''
       \<lparr>ea_json = Some [''17'', placeholder_text 0, ''null''], ea_binary = Some [[CHR 0xFF]]\<rparr>) = Inr p
    \<and> pv_Type p = PacketBinaryEvent \<and> view_collect (pv_Args p) = Inr raws \<and> length raws = 3"
proof -
  define marshal where "marshal = (\<lambda>arg :: (unit, unit) anyarg. Some ''17'' :: bytes option)"
  let ?args = "[AnyOther (), AnyBytes [CHR 0xFF], AnyBytes ''null''] :: (unit, unit) anyarg list"
  let ?e = "\<lparr>ea_json = Some [''17'', placeholder_text 0, ''null''], ea_binary = Some [[CHR 0xFF]]\<rparr>"
  have enc: "encodeAnyArgs (\<lambda>b. b = ''null'') marshal ?args = Inr ?e"
    by (simp add: encodeAnyArgs_def marshal_def binaryArg_def acquireOptionalBinaryBatch_iff batch_append_def BinaryViews_def)
  have one: "one_value ''17''" "one_value ''null''" by code_simp+
  show ?thesis
    using emitted_event_roundtrip [OF enc, of "''/chat''" "''put''" "\<lambda>_. False" 5 True "\<lambda>_ _. None :: unit option"] one
    by (fastforce simp: wf_namespace_def plain_byte_def binaryArg_def json_text_def marshal_def BinaryViews_def dest: list_all2_lengthD)
qed

text \<open>
  Errors: encoding an emit fails exactly when \<^verbatim>\<open>json.Marshal\<close> refuses an argument, and reports the first such one; an
  acknowledgement is always sent, with \<open>null\<close> in the place of a value that has no JSON text.
\<close>

theorem encoding_errors:
  "(encodeAnyArgs valid marshal args = Inl k \<longleftrightarrow>
     k < length args \<and> any_piece valid marshal (args ! k) = None \<and> (\<forall>l < k. any_piece valid marshal (args ! l) \<noteq> None))
   \<and> length (JSONViews (encodeReflectArgs valid marshal rargs)) = length rargs
   \<and> JSONViews (encodeReflectArgs valid marshal [RInvalid, RUnexported]) = [''null'', ''null'']"
proof -
  have "encodeAnyArgs valid marshal args = Inl k \<longleftrightarrow>
     k < length args \<and> any_piece valid marshal (args ! k) = None \<and> (\<forall>l < k. any_piece valid marshal (args ! l) \<noteq> None)"
    by (auto simp: encodeAnyArgs_def encode_args_fails)
  then show ?thesis by (simp add: encodeReflectArgs_pieces reflect_piece_def reflectBinary_def)
qed

theorem encoding_errors_witness:
  "encodeAnyArgs (\<lambda>_. True) (\<lambda>arg :: (unit, unit) anyarg. if arg = AnyNil then None else Some ''1'') [AnyOther (), AnyNil] = Inl 1"
  using encoding_errors [of "\<lambda>_. True" "\<lambda>arg :: (unit, unit) anyarg. if arg = AnyNil then None else Some ''1''" "[AnyOther (), AnyNil]" 1 "[]"]
  by (simp add: any_piece_def binaryArg_def json_text_def)

text \<open>
  A \<^verbatim>\<open>[]byte\<close> that holds valid JSON is emitted as that JSON; in the reply to an acknowledgement it is
  handed to \<^verbatim>\<open>json.Marshal\<close>, which writes a base64 string.
\<close>

theorem json_bytes_raw_in_emit_only:
  assumes "valid raw" "marshal (AnyBytes raw) = Some b64"
  shows "encodeAnyArgs valid marshal [AnyBytes raw] = Inr \<lparr>ea_json = Some [raw], ea_binary = None\<rparr>
    \<and> encodeReflectArgs valid marshal [RValue (AnyBytes raw)] = \<lparr>ea_json = Some [b64], ea_binary = None\<rparr>"
  using assms by (simp add: encodeAnyArgs_def encodeReflectArgs_def encode_reflect_def binaryArg_def reflectBinary_def
      acquireOptionalBinaryBatch_iff acquireOptionalReflectBinaryBatch_iff batch_append_def)

theorem json_bytes_raw_in_emit_only_witness:
  "encodeReflectArgs (\<lambda>_. True) (\<lambda>_ :: (unit, unit) anyarg. Some ([CHR 0x22] @ ''e30='' @ [CHR 0x22])) [RValue (AnyBytes ''{}'')]
     = \<lparr>ea_json = Some [([CHR 0x22] @ ''e30='' @ [CHR 0x22])], ea_binary = None\<rparr>"
  using json_bytes_raw_in_emit_only [of "\<lambda>_. True" "''{}''" "\<lambda>_ :: (unit, unit) anyarg. Some ([CHR 0x22] @ ''e30='' @ [CHR 0x22])"
      "([CHR 0x22] @ ''e30='' @ [CHR 0x22])"] by simp

end
