(* ===== verification/AckStore.thy ===== *)
theory AckStore
  imports Handlers "HOL-Library.Multiset"
begin

text \<open>
  Pending acknowledgements: the per-socket \<open>ackStore\<close> of \<^verbatim>\<open>ack_store.go\<close> and the broadcast trackers of
  \<^verbatim>\<open>server.go\<close>. A \<^verbatim>\<open>time.Time\<close> is a number of nanoseconds, the zero time is \<^const>\<open>None\<close>. A handler is an
  opaque value here: the stores only move it.
\<close>

type_synonym time = int

text \<open>\<^verbatim>\<open>!deadline.IsZero() && !now.Before(deadline)\<close>\<close>

definition expired :: "time option \<Rightarrow> time \<Rightarrow> bool" where
  "expired deadline now \<longleftrightarrow> (case deadline of None \<Rightarrow> False | Some d \<Rightarrow> d \<le> now)"

section \<open>ackStore\<close>

record 'h ackEntry =
  ae_handler :: 'h
  ae_deadline :: "time option"

record 'h ackStore =
  as_items :: "(u64 \<times> 'h ackEntry) list"
  as_nextID :: u64
  as_nearest :: "time option"

definition newAckStore :: "'h ackStore" where
  "newAckStore = \<lparr>as_items = [], as_nextID = 0, as_nearest = None\<rparr>"

definition acks_next :: "'h ackStore \<Rightarrow> u64 \<times> 'h ackStore" where
  "acks_next s = (as_nextID s, s\<lparr>as_nextID := as_nextID s + 1\<rparr>)"

text \<open>\<^verbatim>\<open>s.nearest.IsZero() || d.Before(s.nearest)\<close>\<close>

definition nearer :: "time option \<Rightarrow> time \<Rightarrow> time option" where
  "nearer nearest d = (case nearest of None \<Rightarrow> Some d | Some n \<Rightarrow> if d < n then Some d else Some n)"

definition acks_add :: "'h ackStore \<Rightarrow> u64 \<Rightarrow> 'h \<Rightarrow> int \<Rightarrow> time \<Rightarrow> 'h ackStore" where
  "acks_add s ident h timeout now =
     (let deadline = (if timeout > 0 then Some (now + timeout) else None) in
      s\<lparr>as_nearest := (case deadline of None \<Rightarrow> as_nearest s | Some d \<Rightarrow> nearer (as_nearest s) d),
        as_items := AList.update ident \<lparr>ae_handler = h, ae_deadline = deadline\<rparr> (as_items s)\<rparr>)"

definition acks_take :: "'h ackStore \<Rightarrow> u64 \<Rightarrow> 'h option \<times> 'h ackStore" where
  "acks_take s ident =
     (case map_of (as_items s) ident of
        None \<Rightarrow> (None, s)
      | Some entry \<Rightarrow> (Some (ae_handler entry), s\<lparr>as_items := AList.delete ident (as_items s)\<rparr>))"

fun sweep_loop ::
    "time \<Rightarrow> (u64 \<times> 'h ackEntry) list \<Rightarrow> 'h list \<Rightarrow> 'h ackStore \<Rightarrow> 'h list \<times> 'h ackStore" where
  "sweep_loop now [] gone s = (gone, s)"
| "sweep_loop now ((ident, entry) # es) gone s =
     (if expired (ae_deadline entry) now
      then sweep_loop now es (gone @ [ae_handler entry]) (s\<lparr>as_items := AList.delete ident (as_items s)\<rparr>)
      else (case ae_deadline entry of
          None \<Rightarrow> sweep_loop now es gone s
        | Some d \<Rightarrow> sweep_loop now es gone (s\<lparr>as_nearest := nearer (as_nearest s) d\<rparr>)))"

definition acks_sweep :: "'h ackStore \<Rightarrow> time \<Rightarrow> 'h list \<times> 'h ackStore" where
  "acks_sweep s now = sweep_loop now (as_items s) [] (s\<lparr>as_nearest := None\<rparr>)"

text \<open>How \<^verbatim>\<open>emitWithOptions\<close> registers a callback.\<close>

definition acks_register :: "'h ackStore \<Rightarrow> 'h \<Rightarrow> int \<Rightarrow> time \<Rightarrow> u64 \<times> 'h ackStore" where
  "acks_register s h timeout now =
     (case acks_next s of (ident, s1) \<Rightarrow> (ident, acks_add s1 ident h timeout now))"

lemma sweep_loop_handlers:
  "fst (sweep_loop now es gone s) = gone @ map (ae_handler \<circ> snd) (filter (\<lambda>e. expired (ae_deadline (snd e)) now) es)"
  by (induction now es gone s rule: sweep_loop.induct) (auto split: option.splits)

lemma sweep_loop_items:
  "as_items (snd (sweep_loop now es gone s)) =
     filter (\<lambda>e. fst e \<notin> fst ` set (filter (\<lambda>e. expired (ae_deadline (snd e)) now) es)) (as_items s)"
  by (induction now es gone s rule: sweep_loop.induct)
    (auto simp: AList.delete_eq split: option.splits intro!: filter_cong)

lemma sweep_loop_nextID [simp]: "as_nextID (snd (sweep_loop now es gone s)) = as_nextID s"
  by (induction now es gone s rule: sweep_loop.induct) (auto split: option.splits)

lemma filter_keys_wf:
  assumes "wf_map m"
  shows "filter (\<lambda>e. fst e \<notin> fst ` set (filter p m)) m = filter (\<lambda>e. \<not> p e) m"
proof (rule filter_cong [OF refl])
  fix e assume e: "e \<in> set m"
  show "(fst e \<notin> fst ` set (filter p m)) \<longleftrightarrow> \<not> p e"
  proof
    assume "fst e \<notin> fst ` set (filter p m)"
    with e show "\<not> p e" by force
  next
    assume "\<not> p e"
    show "fst e \<notin> fst ` set (filter p m)"
    proof
      assume "fst e \<in> fst ` set (filter p m)"
      then obtain f where "f \<in> set m" "p f" "fst f = fst e" by auto
      with e assms \<open>\<not> p e\<close> show False
        by (metis wf_map_in_iff option.inject prod.collapse)
    qed
  qed
qed

lemma as_items_nearest: "as_items (s\<lparr>as_nearest := x\<rparr>) = as_items s"
  by simp

lemma acks_sweep_items:
  "wf_map (as_items s) \<Longrightarrow>
   as_items (snd (acks_sweep s now)) = filter (\<lambda>e. \<not> expired (ae_deadline (snd e)) now) (as_items s)"
  by (simp only: acks_sweep_def sweep_loop_items filter_keys_wf as_items_nearest)

lemma acks_sweep_handlers:
  "fst (acks_sweep s now) = map (ae_handler \<circ> snd) (filter (\<lambda>e. expired (ae_deadline (snd e)) now) (as_items s))"
  by (simp add: acks_sweep_def sweep_loop_handlers)

lemma acks_sweep_nextID: "as_nextID (snd (acks_sweep s now)) = as_nextID s"
  by (simp add: acks_sweep_def)

section \<open>Runs of an ack store\<close>

datatype 'h acks_op = Register 'h int time | Take u64 | Sweep time

text \<open>A step of the store and the handlers it hands out to be called.\<close>

fun acks_step :: "'h ackStore \<Rightarrow> 'h acks_op \<Rightarrow> 'h ackStore \<times> 'h list" where
  "acks_step s (Register h timeout now) = (snd (acks_register s h timeout now), [])"
| "acks_step s (Take ident) = (case acks_take s ident of (h, s') \<Rightarrow> (s', case h of None \<Rightarrow> [] | Some h \<Rightarrow> [h]))"
| "acks_step s (Sweep now) = (case acks_sweep s now of (hs, s') \<Rightarrow> (s', hs))"

fun acks_run :: "'h ackStore \<Rightarrow> 'h acks_op list \<Rightarrow> 'h ackStore \<times> 'h list" where
  "acks_run s [] = (s, [])"
| "acks_run s (x # xs) =
     (case acks_step s x of (s', out) \<Rightarrow> (case acks_run s' xs of (s'', outs) \<Rightarrow> (s'', out @ outs)))"

fun registered :: "'h acks_op list \<Rightarrow> 'h list" where
  "registered [] = []"
| "registered (Register h _ _ # xs) = h # registered xs"
| "registered (_ # xs) = registered xs"

definition pending :: "'h ackStore \<Rightarrow> 'h list" where
  "pending s = map (ae_handler \<circ> snd) (as_items s)"

text \<open>Every stored id was handed out before: it lies below \<^verbatim>\<open>nextID\<close> (read without wrap-around).\<close>

definition acks_inv :: "nat \<Rightarrow> 'h ackStore \<Rightarrow> bool" where
  "acks_inv n s \<longleftrightarrow> wf_map (as_items s) \<and> as_nextID s = of_nat n
     \<and> (\<forall>k \<in> fst ` set (as_items s). unat k < n)"

lemma delete_mset:
  assumes "wf_map m" "map_of m k = Some v"
  shows "mset m = add_mset (k, v) (mset (AList.delete k m))"
  using assms
proof (induction m)
  case (Cons x m)
  obtain a b where x: "x = (a, b)" by (cases x)
  show ?case
  proof (cases "a = k")
    case True
    with Cons.prems x have "k \<notin> fst ` set m" by (simp add: wf_map_def)
    then have "AList.delete k m = m" by (simp add: delete_id)
    with True x Cons.prems show ?thesis by simp
  next
    case False
    with Cons x show ?thesis by (simp add: wf_map_def)
  qed
qed simp

lemma update_fresh: "k \<notin> fst ` set m \<Longrightarrow> AList.update k v m = m @ [(k, v)]"
  by (induction m) auto

lemma unat_small: "n < 2 ^ 64 \<Longrightarrow> unat (of_nat n :: u64) = n"
  by (simp add: unsigned_of_nat take_bit_nat_eq_self)

lemma acks_step_conserves:
  assumes "acks_inv n s" "n < 2 ^ 64" "acks_step s x = (s', out)"
  shows "acks_inv (n + length (registered [x])) s'
    \<and> mset (pending s) + mset (registered [x]) = mset (pending s') + mset out"
proof (cases x)
  case (Register h timeout now)
  have "of_nat n \<notin> fst ` set (as_items s)"
  proof
    assume "of_nat n \<in> fst ` set (as_items s)"
    with assms(1) have "unat (of_nat n :: u64) < n" unfolding acks_inv_def by blast
    with unat_small [OF assms(2)] show False by simp
  qed
  with assms Register show ?thesis
    by (auto simp: acks_register_def acks_next_def acks_add_def acks_inv_def pending_def Let_def update_fresh
        unat_small wf_map_def less_Suc_eq)
next
  case (Take ident)
  show ?thesis
  proof (cases "map_of (as_items s) ident")
    case None
    with assms Take show ?thesis by (simp add: acks_take_def)
  next
    case (Some e)
    with assms(1) have "mset (as_items s) = add_mset (ident, e) (mset (AList.delete ident (as_items s)))"
      by (simp add: acks_inv_def delete_mset)
    then have "mset (pending s) = add_mset (ae_handler e) (image_mset (ae_handler \<circ> snd) (mset (AList.delete ident (as_items s))))"
      by (simp add: pending_def)
    with Some assms Take show ?thesis
      by (auto simp: acks_take_def acks_inv_def pending_def AList.delete_eq)
  qed
next
  case (Sweep now)
  let ?p = "\<lambda>e. expired (ae_deadline (snd e)) now"
  have "mset (as_items s) = mset (filter ?p (as_items s)) + mset (filter (\<lambda>e. \<not> ?p e) (as_items s))"
    using multiset_partition [of "mset (as_items s)" ?p] by simp
  then have "mset (pending s) = image_mset (ae_handler \<circ> snd) (mset (filter (\<lambda>e. \<not> ?p e) (as_items s)))
      + image_mset (ae_handler \<circ> snd) (mset (filter ?p (as_items s)))"
    by (simp add: pending_def add.commute flip: image_mset_union)
  moreover have "out = map (ae_handler \<circ> snd) (filter ?p (as_items s))"
      "as_items s' = filter (\<lambda>e. \<not> ?p e) (as_items s)" "as_nextID s' = as_nextID s"
    using assms Sweep acks_sweep_items [of s now] acks_sweep_handlers [of s now] acks_sweep_nextID [of s now]
    by (auto simp: acks_inv_def split: prod.splits)
  ultimately show ?thesis
    using assms(1) Sweep by (auto simp: acks_inv_def pending_def)
qed

lemma acks_run_conserves:
  assumes "acks_inv n s" "n + length (registered ops) < 2 ^ 64" "acks_run s ops = (s', out)"
  shows "acks_inv (n + length (registered ops)) s'
    \<and> mset (pending s) + mset (registered ops) = mset (pending s') + mset out"
  using assms
proof (induction ops arbitrary: n s out)
  case (Cons x xs)
  obtain s1 o1 where st: "acks_step s x = (s1, o1)" by (cases "acks_step s x")
  obtain o2 where rest: "acks_run s1 xs = (s', o2)" "out = o1 @ o2"
    using Cons.prems(3) st by (auto split: prod.splits)
  have split: "mset (registered (x # xs)) = mset (registered [x]) + mset (registered xs)"
      "length (registered (x # xs)) = length (registered [x]) + length (registered xs)"
    by (cases x; simp)+
  have one: "acks_inv (n + length (registered [x])) s1"
      "mset (pending s) + mset (registered [x]) = mset (pending s1) + mset o1"
    using acks_step_conserves [OF Cons.prems(1) _ st] Cons.prems(2) by auto
  have two: "acks_inv (n + length (registered [x]) + length (registered xs)) s'"
      "mset (pending s1) + mset (registered xs) = mset (pending s') + mset o2"
    using Cons.IH [OF one(1) _ rest(1)] Cons.prems(2) split(2) by simp_all
  have "mset (pending s) + mset (registered (x # xs)) = (mset (pending s1) + mset o1) + mset (registered xs)"
    by (simp only: split(1) one(2) [symmetric] union_assoc)
  also have "\<dots> = (mset (pending s1) + mset (registered xs)) + mset o1" by (simp only: ac_simps)
  also have "\<dots> = mset (pending s') + mset out"
    by (simp only: two(2) rest(2) mset_append ac_simps)
  finally show ?case using two(1) split(2) by (simp add: add.assoc)
qed simp

section \<open>Broadcast acknowledgements\<close>

text \<open>
  \<^verbatim>\<open>broadcastAckTracker\<close> and the fields of \<^verbatim>\<open>Server\<close> it touches. A tracker is a heap object: \<open>ba_trackers\<close> is the
  heap, an address is a position in it, and an engine connection that registered the tracker
  keeps the address after the server forgot the id. The three counters are the metrics
  \<^verbatim>\<open>acksRegistered\<close>, \<^verbatim>\<open>acksResolved\<close> and \<^verbatim>\<open>acksTimedOut\<close>. Every operation returns the invocations it makes.
\<close>

record 'ty broadcastAckTracker =
  bt_id :: u64
  bt_handler :: "'ty ackHandler"
  bt_deadline :: "time option"
  bt_expected :: int
  bt_got :: int
  bt_done :: bool

record 'ty broadcastAcks =
  ba_ackSeq :: u64
  ba_broadcasts :: "(u64 \<times> nat) list"
  ba_trackers :: "'ty broadcastAckTracker list"
  ba_registered :: u64
  ba_resolved :: u64
  ba_timedOut :: u64

definition no_broadcasts :: "'ty broadcastAcks" where
  "no_broadcasts = \<lparr>ba_ackSeq = 0, ba_broadcasts = [], ba_trackers = [], ba_registered = 0, ba_resolved = 0, ba_timedOut = 0\<rparr>"

definition newBroadcastAck ::
    "'ty broadcastAcks \<Rightarrow> 'ty ackHandler \<Rightarrow> int \<Rightarrow> time \<Rightarrow> nat \<times> 'ty broadcastAcks" where
  "newBroadcastAck s handler timeout now =
     (let ackSeq = ba_ackSeq s + 1;
          ident = 1000000000 + ackSeq;
          tracker = \<lparr>bt_id = ident, bt_handler = handler,
                     bt_deadline = (if timeout = 0 then None else Some (now + timeout)),
                     bt_expected = 0, bt_got = 0, bt_done = False\<rparr>;
          addr = length (ba_trackers s)
      in (addr, s\<lparr>ba_ackSeq := ackSeq, ba_trackers := ba_trackers s @ [tracker],
                 ba_broadcasts := AList.update ident addr (ba_broadcasts s),
                 ba_registered := ba_registered s + 1\<rparr>))"

definition getBroadcastAck :: "'ty broadcastAcks \<Rightarrow> u64 \<Rightarrow> nat option" where
  "getBroadcastAck s ident = map_of (ba_broadcasts s) ident"

definition removeBroadcastAck :: "'ty broadcastAcks \<Rightarrow> u64 \<Rightarrow> 'ty broadcastAcks" where
  "removeBroadcastAck s ident = s\<lparr>ba_broadcasts := AList.delete ident (ba_broadcasts s)\<rparr>"

definition set_tracker :: "nat \<Rightarrow> 'ty broadcastAckTracker \<Rightarrow> 'ty broadcastAcks \<Rightarrow> 'ty broadcastAcks" where
  "set_tracker addr t s = s\<lparr>ba_trackers := (ba_trackers s)[addr := t]\<rparr>"

text \<open>\<^verbatim>\<open>JSONArrayView{data: emptyJSONArrayBytes, pos: 1}\<close>\<close>

definition empty_ack_args :: JSONArrayView where
  "empty_ack_args = \<lparr>av_data = ''[]'', av_pos = 1\<rparr>"

definition run_handler ::
    "('ty gotype \<Rightarrow> bytes \<Rightarrow> 'v option) \<Rightarrow> nat \<Rightarrow> 'ty broadcastAcks \<Rightarrow> 'ty broadcastAcks \<times> ('ty, 'v) invocation list" where
  "run_handler unmarshal addr s =
     (let t = ba_trackers s ! addr in
      case ack_call unmarshal (bt_handler t) empty_ack_args [] of
        (made, _, h) \<Rightarrow> (set_tracker addr (t\<lparr>bt_handler := h\<rparr>) s, case made of None \<Rightarrow> [] | Some c \<Rightarrow> [c]))"

text \<open>What \<^verbatim>\<open>addExpected\<close>, \<^verbatim>\<open>accept\<close> and \<^verbatim>\<open>maybeFinish\<close> do when they have just set \<^verbatim>\<open>done\<close>.\<close>

definition tracker_finish ::
    "('ty gotype \<Rightarrow> bytes \<Rightarrow> 'v option) \<Rightarrow> nat \<Rightarrow> 'ty broadcastAcks \<Rightarrow> 'ty broadcastAcks \<times> ('ty, 'v) invocation list" where
  "tracker_finish unmarshal addr s =
     run_handler unmarshal addr
       ((removeBroadcastAck s (bt_id (ba_trackers s ! addr)))\<lparr>ba_resolved := ba_resolved s + 1\<rparr>)"

definition addExpected ::
    "('ty gotype \<Rightarrow> bytes \<Rightarrow> 'v option) \<Rightarrow> nat \<Rightarrow> int \<Rightarrow> 'ty broadcastAcks \<Rightarrow> 'ty broadcastAcks \<times> ('ty, 'v) invocation list" where
  "addExpected unmarshal addr n s =
     (let t = ba_trackers s ! addr in
      if bt_done t then (s, [])
      else (let expected = bt_expected t + n;
                fin = (expected > 0 \<and> bt_got t \<ge> expected);
                s' = set_tracker addr (t\<lparr>bt_expected := expected, bt_done := fin\<rparr>) s
            in if fin then tracker_finish unmarshal addr s' else (s', [])))"

definition accept ::
    "('ty gotype \<Rightarrow> bytes \<Rightarrow> 'v option) \<Rightarrow> nat \<Rightarrow> 'ty broadcastAcks \<Rightarrow> 'ty broadcastAcks \<times> ('ty, 'v) invocation list" where
  "accept unmarshal addr s =
     (let t = ba_trackers s ! addr in
      if bt_done t then (s, [])
      else (let got = bt_got t + 1;
                fin = (bt_expected t > 0 \<and> got \<ge> bt_expected t);
                s' = set_tracker addr (t\<lparr>bt_got := got, bt_done := fin\<rparr>) s
            in if fin then tracker_finish unmarshal addr s' else (s', [])))"

definition maybeFinish ::
    "('ty gotype \<Rightarrow> bytes \<Rightarrow> 'v option) \<Rightarrow> nat \<Rightarrow> 'ty broadcastAcks \<Rightarrow> 'ty broadcastAcks \<times> ('ty, 'v) invocation list" where
  "maybeFinish unmarshal addr s =
     (let t = ba_trackers s ! addr in
      if \<not> bt_done t \<and> bt_expected t = 0
      then tracker_finish unmarshal addr (set_tracker addr (t\<lparr>bt_done := True\<rparr>) s)
      else (s, []))"

definition tracker_timeout :: "nat \<Rightarrow> 'ty broadcastAcks \<Rightarrow> 'ty broadcastAcks \<times> ('ty, 'v) invocation list" where
  "tracker_timeout addr s =
     (let t = ba_trackers s ! addr in
      if bt_done t then (s, [])
      else (case ack_timeout (bt_handler t) of
        (made, h) \<Rightarrow> (set_tracker addr (t\<lparr>bt_done := True, bt_handler := h\<rparr>) s,
                       case made of None \<Rightarrow> [] | Some c \<Rightarrow> [c])))"

text \<open>The second half of \<^verbatim>\<open>sweepAcks\<close>: the loop over the trackers registered at its start.\<close>

fun sweep_trackers ::
    "time \<Rightarrow> (u64 \<times> nat) list \<Rightarrow> 'ty broadcastAcks \<Rightarrow> 'ty broadcastAcks \<times> ('ty, 'v) invocation list" where
  "sweep_trackers now [] s = (s, [])"
| "sweep_trackers now ((ident, addr) # es) s =
     (if expired (bt_deadline (ba_trackers s ! addr)) now
      then (let s1 = s\<lparr>ba_broadcasts := AList.delete ident (ba_broadcasts s), ba_timedOut := ba_timedOut s + 1\<rparr>;
                (s2, calls) = tracker_timeout addr s1;
                (s3, more) = sweep_trackers now es s2
            in (s3, calls @ more))
      else sweep_trackers now es s)"

definition sweep_broadcasts :: "time \<Rightarrow> 'ty broadcastAcks \<Rightarrow> 'ty broadcastAcks \<times> ('ty, 'v) invocation list" where
  "sweep_broadcasts now s = sweep_trackers now (ba_broadcasts s) s"

section \<open>Runs of the broadcast trackers\<close>

datatype 'ty bcast_op =
    NewBroadcast "'ty ackHandler" int time | AddExpected nat int | Accept nat | MaybeFinish nat | SweepBroadcasts time

text \<open>An operation names a tracker by its address; only an address that was handed out can be named.\<close>

fun bcast_step ::
    "('ty gotype \<Rightarrow> bytes \<Rightarrow> 'v option) \<Rightarrow> 'ty broadcastAcks \<Rightarrow> 'ty bcast_op \<Rightarrow> 'ty broadcastAcks \<times> ('ty, 'v) invocation list" where
  "bcast_step unmarshal s (NewBroadcast h timeout now) = (snd (newBroadcastAck s h timeout now), [])"
| "bcast_step unmarshal s (AddExpected addr n) =
     (if addr < length (ba_trackers s) then addExpected unmarshal addr n s else (s, []))"
| "bcast_step unmarshal s (Accept addr) =
     (if addr < length (ba_trackers s) then accept unmarshal addr s else (s, []))"
| "bcast_step unmarshal s (MaybeFinish addr) =
     (if addr < length (ba_trackers s) then maybeFinish unmarshal addr s else (s, []))"
| "bcast_step unmarshal s (SweepBroadcasts now) = sweep_broadcasts now s"

fun bcast_run ::
    "('ty gotype \<Rightarrow> bytes \<Rightarrow> 'v option) \<Rightarrow> 'ty broadcastAcks \<Rightarrow> 'ty bcast_op list \<Rightarrow> 'ty broadcastAcks \<times> ('ty, 'v) invocation list" where
  "bcast_run unmarshal s [] = (s, [])"
| "bcast_run unmarshal s (x # xs) =
     (let (s1, calls) = bcast_step unmarshal s x; (s2, more) = bcast_run unmarshal s1 xs in (s2, calls @ more))"

fun is_new :: "'ty bcast_op \<Rightarrow> bool" where
  "is_new (NewBroadcast _ _ _) = True"
| "is_new _ = False"

definition tracker_id :: "nat \<Rightarrow> u64" where
  "tracker_id addr = 1000000000 + of_nat (addr + 1)"

lemma tracker_id_inj:
  assumes "tracker_id a = tracker_id b" "a < 2 ^ 64" "b < 2 ^ 64"
  shows "a = b"
proof -
  have "(of_nat a :: u64) = of_nat b" using assms(1) by (simp add: tracker_id_def)
  then show ?thesis using unat_small [OF assms(2)] unat_small [OF assms(3)] by metis
qed

text \<open>A registered tracker is one that is not done, and every registered broadcast is accounted for.\<close>

definition bcast_inv :: "'ty broadcastAcks \<Rightarrow> bool" where
  "bcast_inv s \<longleftrightarrow> wf_map (ba_broadcasts s) \<and> length (ba_trackers s) < 2 ^ 64
     \<and> ba_ackSeq s = of_nat (length (ba_trackers s))
     \<and> (\<forall>a < length (ba_trackers s). bt_id (ba_trackers s ! a) = tracker_id a)
     \<and> (\<forall>i a. map_of (ba_broadcasts s) i = Some a \<longleftrightarrow>
           i = tracker_id a \<and> a < length (ba_trackers s) \<and> \<not> bt_done (ba_trackers s ! a))
     \<and> ba_registered s = ba_resolved s + ba_timedOut s + of_nat (length (ba_broadcasts s))"

text \<open>The three ways an operation changes the trackers.\<close>

lemma bcast_inv_update:
  assumes "bcast_inv s" "addr < length (ba_trackers s)" "bt_id t = bt_id (ba_trackers s ! addr)"
    "bt_done t = bt_done (ba_trackers s ! addr)"
  shows "bcast_inv (set_tracker addr t s)"
  using assms by (auto simp: bcast_inv_def set_tracker_def nth_list_update)

lemma length_delete_wf:
  "wf_map m \<Longrightarrow> map_of m k = Some v \<Longrightarrow> length m = Suc (length (AList.delete k m))"
  using arg_cong [OF delete_mset, of m k v size] by simp

lemma bcast_inv_close:
  assumes inv: "bcast_inv s" and addr: "addr < length (ba_trackers s)" and live: "\<not> bt_done (ba_trackers s ! addr)"
    and t: "bt_id t = bt_id (ba_trackers s ! addr)" "bt_done t"
    and s': "ba_trackers s' = (ba_trackers s)[addr := t]" "ba_ackSeq s' = ba_ackSeq s"
      "ba_broadcasts s' = AList.delete (tracker_id addr) (ba_broadcasts s)" "ba_registered s' = ba_registered s"
      "ba_resolved s' + ba_timedOut s' = ba_resolved s + ba_timedOut s + 1"
  shows "bcast_inv s'"
proof -
  have "map_of (ba_broadcasts s) (tracker_id addr) = Some addr"
    using inv addr live by (simp add: bcast_inv_def)
  then have len: "length (ba_broadcasts s) = Suc (length (ba_broadcasts s'))"
    using length_delete_wf [OF _ \<open>map_of (ba_broadcasts s) (tracker_id addr) = Some addr\<close>] inv s'(3)
    by (simp add: bcast_inv_def)
  have "map_of (ba_broadcasts s') i = Some a \<longleftrightarrow>
      i = tracker_id a \<and> a < length (ba_trackers s') \<and> \<not> bt_done (ba_trackers s' ! a)" for i a
  proof (cases "a = addr")
    case True
    with inv addr s' t show ?thesis by (auto simp: bcast_inv_def alist_simps)
  next
    case False
    with inv addr s' t show ?thesis
      by (auto simp: bcast_inv_def alist_simps dest!: tracker_id_inj)
  qed
  with inv addr s' t len show ?thesis
    by (auto simp: bcast_inv_def nth_list_update algebra_simps)
qed

text \<open>What the caller of a handler sees of the call.\<close>

definition outcome :: "('ty gotype \<Rightarrow> bytes \<Rightarrow> 'v option) \<Rightarrow> 'ty ackHandler \<Rightarrow> ('ty, 'v) invocation list" where
  "outcome unmarshal h = (case fst (ack_call unmarshal h empty_ack_args []) of None \<Rightarrow> [] | Some c \<Rightarrow> [c])"

abbreviation called :: "('ty gotype \<Rightarrow> bytes \<Rightarrow> 'v option) \<Rightarrow> 'ty ackHandler \<Rightarrow> 'ty ackHandler" where
  "called unmarshal h \<equiv> snd (snd (ack_call unmarshal h empty_ack_args []))"

lemma run_handler_eq:
  "run_handler unmarshal addr s =
     (set_tracker addr ((ba_trackers s ! addr)\<lparr>bt_handler := called unmarshal (bt_handler (ba_trackers s ! addr))\<rparr>) s,
      outcome unmarshal (bt_handler (ba_trackers s ! addr)))"
  by (simp add: run_handler_def Let_def outcome_def split: prod.splits)

lemmas finish_defs = tracker_finish_def run_handler_eq removeBroadcastAck_def set_tracker_def

lemma tracker_finish_inv:
  assumes "bcast_inv s" "addr < length (ba_trackers s)" "\<not> bt_done (ba_trackers s ! addr)"
    "bt_id t = bt_id (ba_trackers s ! addr)" "bt_done t"
  shows "bcast_inv (fst (tracker_finish unmarshal addr (set_tracker addr t s)))"
proof (rule bcast_inv_close [OF assms(1-3), of "t\<lparr>bt_handler := called unmarshal (bt_handler t)\<rparr>"])
  have "bt_id (ba_trackers s ! addr) = tracker_id addr"
    using assms(1,2) by (simp add: bcast_inv_def)
  then show "ba_broadcasts (fst (tracker_finish unmarshal addr (set_tracker addr t s))) =
      AList.delete (tracker_id addr) (ba_broadcasts s)"
    using assms by (simp add: finish_defs)
qed (use assms in \<open>simp_all add: finish_defs\<close>)

lemma addExpected_inv [inv_intros]:
  "bcast_inv s \<Longrightarrow> addr < length (ba_trackers s) \<Longrightarrow> bcast_inv (fst (addExpected unmarshal addr n s))"
  by (simp add: addExpected_def Let_def tracker_finish_inv bcast_inv_update)

lemma accept_inv [inv_intros]:
  "bcast_inv s \<Longrightarrow> addr < length (ba_trackers s) \<Longrightarrow> bcast_inv (fst (accept unmarshal addr s))"
  by (simp add: accept_def Let_def tracker_finish_inv bcast_inv_update)

lemma maybeFinish_inv [inv_intros]:
  "bcast_inv s \<Longrightarrow> addr < length (ba_trackers s) \<Longrightarrow> bcast_inv (fst (maybeFinish unmarshal addr s))"
  by (simp add: maybeFinish_def Let_def tracker_finish_inv)

lemma newBroadcastAck_inv [inv_intros]:
  assumes inv: "bcast_inv s" and room: "Suc (length (ba_trackers s)) < 2 ^ 64"
  shows "bcast_inv (snd (newBroadcastAck s h timeout now))"
proof -
  let ?n = "length (ba_trackers s)"
  let ?s = "snd (newBroadcastAck s h timeout now)"
  have ident: "1000000000 + (ba_ackSeq s + 1) = tracker_id ?n"
    using inv by (simp add: bcast_inv_def tracker_id_def)
  have "map_of (ba_broadcasts s) (tracker_id ?n) = None"
  proof (rule ccontr)
    assume "map_of (ba_broadcasts s) (tracker_id ?n) \<noteq> None"
    then obtain a where "map_of (ba_broadcasts s) (tracker_id ?n) = Some a" by auto
    with inv have "tracker_id ?n = tracker_id a" "a < ?n" by (auto simp: bcast_inv_def)
    with tracker_id_inj [of ?n a] room show False by simp
  qed
  then have upd: "AList.update (tracker_id ?n) ?n (ba_broadcasts s) = ba_broadcasts s @ [(tracker_id ?n, ?n)]"
    by (intro update_fresh) (metis map_of_eq_None_iff)
  have ne: "tracker_id ?n \<noteq> tracker_id a" if "a < ?n" for a
    using that room tracker_id_inj [of ?n a] by auto
  have new: "?s = s\<lparr>ba_ackSeq := ba_ackSeq s + 1, ba_trackers := ba_trackers s @
        [\<lparr>bt_id = tracker_id ?n, bt_handler = h, bt_deadline = (if timeout = 0 then None else Some (now + timeout)),
          bt_expected = 0, bt_got = 0, bt_done = False\<rparr>],
        ba_broadcasts := AList.update (tracker_id ?n) ?n (ba_broadcasts s), ba_registered := ba_registered s + 1\<rparr>"
    by (simp only: newBroadcastAck_def Let_def ident snd_conv)
  have look: "map_of (ba_broadcasts ?s) i = Some a \<longleftrightarrow>
      i = tracker_id a \<and> a < length (ba_trackers ?s) \<and> \<not> bt_done (ba_trackers ?s ! a)" for i a
    using inv room \<open>map_of (ba_broadcasts s) (tracker_id ?n) = None\<close>
    by (auto simp: new alist_simps bcast_inv_def nth_append less_Suc_eq dest: ne)
  have "wf_map (ba_broadcasts ?s)" using inv by (simp add: new bcast_inv_def)
  with inv room look show ?thesis
    unfolding bcast_inv_def by (auto simp: new upd nth_append less_Suc_eq)
qed

lemma sweep_close_inv:
  assumes inv: "bcast_inv s" and reg: "map_of (ba_broadcasts s) ident = Some addr"
    and out: "tracker_timeout addr
      (s\<lparr>ba_broadcasts := AList.delete ident (ba_broadcasts s), ba_timedOut := ba_timedOut s + 1\<rparr>) = (s', calls)"
  shows "bcast_inv s'" "ba_broadcasts s' = AList.delete ident (ba_broadcasts s)"
proof -
  let ?t = "ba_trackers s ! addr"
  have known: "ident = tracker_id addr" "addr < length (ba_trackers s)" "\<not> bt_done ?t"
    using inv reg by (auto simp: bcast_inv_def)
  obtain h where s': "s' = s\<lparr>ba_broadcasts := AList.delete ident (ba_broadcasts s), ba_timedOut := ba_timedOut s + 1,
      ba_trackers := (ba_trackers s)[addr := ?t\<lparr>bt_done := True, bt_handler := h\<rparr>]\<rparr>"
    using out known(3) by (auto simp: tracker_timeout_def set_tracker_def Let_def split: prod.splits)
  then show "ba_broadcasts s' = AList.delete ident (ba_broadcasts s)" by simp
  show "bcast_inv s'"
    by (rule bcast_inv_close [OF inv known(2,3), of "?t\<lparr>bt_done := True, bt_handler := h\<rparr>"])
      (simp_all add: s' known(1))
qed

lemma sweep_trackers_inv:
  assumes "bcast_inv s" "distinct (map fst es)" "\<forall>(i, a) \<in> set es. map_of (ba_broadcasts s) i = Some a"
  shows "bcast_inv (fst (sweep_trackers now es s :: 'ty broadcastAcks \<times> ('ty, 'v) invocation list))"
  using assms
proof (induction es arbitrary: s)
  case (Cons e es)
  obtain ident addr where e: "e = (ident, addr)" by (cases e)
  let ?s1 = "s\<lparr>ba_broadcasts := AList.delete ident (ba_broadcasts s), ba_timedOut := ba_timedOut s + 1\<rparr>"
  show ?case
  proof (cases "expired (bt_deadline (ba_trackers s ! addr)) now")
    case True
    obtain s2 and calls :: "('ty, 'v) invocation list" where tt: "tracker_timeout addr ?s1 = (s2, calls)"
      by (cases "tracker_timeout addr ?s1 :: 'ty broadcastAcks \<times> ('ty, 'v) invocation list")
    have reg: "map_of (ba_broadcasts s) ident = Some addr" using Cons.prems(3) e by simp
    note close = sweep_close_inv [OF Cons.prems(1) reg tt]
    have "map_of (ba_broadcasts s2) i = Some a" if "(i, a) \<in> set es" for i a
      using that close(2) Cons.prems(2,3) e by (force simp: alist_simps)
    then have "bcast_inv (fst (sweep_trackers now es s2 :: 'ty broadcastAcks \<times> ('ty, 'v) invocation list))"
      using close(1) Cons.prems(2) e by (intro Cons.IH) auto
    with True tt e show ?thesis by (auto simp: Let_def split: prod.splits)
  next
    case False
    with Cons e show ?thesis by simp
  qed
qed simp

lemma sweep_broadcasts_inv [inv_intros]: "bcast_inv s \<Longrightarrow> bcast_inv (fst (sweep_broadcasts now s))"
  unfolding sweep_broadcasts_def
  by (rule sweep_trackers_inv) (auto simp: bcast_inv_def wf_map_def)

lemma bcast_step_inv:
  assumes "bcast_inv s" "length (ba_trackers s) + 1 < 2 ^ 64"
  shows "bcast_inv (fst (bcast_step unmarshal s x))"
  using assms by (cases x) (auto intro: inv_intros)

lemma set_tracker_length [simp]: "length (ba_trackers (set_tracker addr t s)) = length (ba_trackers s)"
  by (simp add: set_tracker_def)

lemma tracker_finish_length [simp]:
  "length (ba_trackers (fst (tracker_finish unmarshal addr s))) = length (ba_trackers s)"
  by (simp add: finish_defs)

lemma sweep_trackers_length [simp]:
  "length (ba_trackers (fst (sweep_trackers now es s :: 'ty broadcastAcks \<times> ('ty, 'v) invocation list)))
     = length (ba_trackers s)"
proof (induction es arbitrary: s)
  case (Cons e es)
  obtain ident addr where e: "e = (ident, addr)" by (cases e)
  let ?s1 = "s\<lparr>ba_broadcasts := AList.delete ident (ba_broadcasts s), ba_timedOut := ba_timedOut s + 1\<rparr>"
  obtain s2 and calls :: "('ty, 'v) invocation list" where tt: "tracker_timeout addr ?s1 = (s2, calls)"
    by (cases "tracker_timeout addr ?s1 :: 'ty broadcastAcks \<times> ('ty, 'v) invocation list")
  have "length (ba_trackers s2) = length (ba_trackers s)"
    using tt by (auto simp: tracker_timeout_def Let_def split: if_splits prod.splits)
  with Cons.IH [of s] Cons.IH [of s2] tt e show ?case by (simp add: Let_def split_beta)
qed simp

lemma bcast_step_length:
  "length (ba_trackers (fst (bcast_step unmarshal s x))) = length (ba_trackers s) + (if is_new x then 1 else 0)"
  by (cases x)
    (simp_all add: newBroadcastAck_def addExpected_def accept_def maybeFinish_def sweep_broadcasts_def Let_def)

lemma bcast_run_inv:
  assumes "bcast_inv s" "length (ba_trackers s) + length (filter is_new ops) + 1 < 2 ^ 64"
  shows "bcast_inv (fst (bcast_run unmarshal s ops))"
  using assms
proof (induction ops arbitrary: s)
  case (Cons x xs)
  have "bcast_inv (fst (bcast_run unmarshal (fst (bcast_step unmarshal s x)) xs))"
    using Cons.prems by (intro Cons.IH bcast_step_inv) (auto simp: bcast_step_length)
  then show ?case by (auto simp: Let_def split: prod.splits)
qed simp

section \<open>Completion of a broadcast\<close>

lemma bcast_run_append:
  "bcast_run unmarshal s (xs @ ys) =
     (let (s1, calls) = bcast_run unmarshal s xs; (s2, more) = bcast_run unmarshal s1 ys in (s2, calls @ more))"
  by (induction xs arbitrary: s) (auto simp: Let_def split: prod.splits)

text \<open>A tracker that is done ignores everything addressed to it.\<close>

definition about :: "nat \<Rightarrow> 'ty bcast_op \<Rightarrow> bool" where
  "about addr x \<longleftrightarrow> (case x of AddExpected a n \<Rightarrow> a = addr | Accept a \<Rightarrow> a = addr | MaybeFinish a \<Rightarrow> a = addr | _ \<Rightarrow> False)"

lemma bcast_run_done:
  "bt_done (ba_trackers s ! addr) \<Longrightarrow> list_all (about addr) ops \<Longrightarrow> bcast_run unmarshal s ops = (s, [])"
  by (induction ops)
    (auto simp: about_def addExpected_def accept_def maybeFinish_def Let_def split: bcast_op.splits)

lemma finish_live:
  assumes "addr < length (ba_trackers s)" "bt_handler t = bt_handler (ba_trackers s ! addr)" "bt_done t"
  shows "snd (tracker_finish unmarshal addr (set_tracker addr t s)) = outcome unmarshal (bt_handler (ba_trackers s ! addr))"
    "bt_done (ba_trackers (fst (tracker_finish unmarshal addr (set_tracker addr t s))) ! addr)"
  using assms by (simp_all add: finish_defs)

text \<open>A live tracker at some count of expected and received acks.\<close>

definition at_counts :: "nat \<Rightarrow> 'ty ackHandler \<Rightarrow> int \<Rightarrow> int \<Rightarrow> 'ty broadcastAcks \<Rightarrow> bool" where
  "at_counts addr h expected got s \<longleftrightarrow> addr < length (ba_trackers s) \<and> \<not> bt_done (ba_trackers s ! addr)
     \<and> bt_handler (ba_trackers s ! addr) = h \<and> bt_expected (ba_trackers s ! addr) = expected
     \<and> bt_got (ba_trackers s ! addr) = got"

lemma run_accepts:
  assumes "at_counts addr h expected got s" "got < expected" "0 \<le> got"
  shows "snd (bcast_run unmarshal s (replicate k (Accept addr))) = (if expected \<le> got + int k then outcome unmarshal h else [])
    \<and> (bt_done (ba_trackers (fst (bcast_run unmarshal s (replicate k (Accept addr)))) ! addr) \<longleftrightarrow> expected \<le> got + int k)"
  using assms
proof (induction k arbitrary: got s)
  case (Suc k)
  let ?t = "ba_trackers s ! addr"
  have t: "addr < length (ba_trackers s)" "\<not> bt_done ?t" "bt_handler ?t = h" "bt_expected ?t = expected" "bt_got ?t = got"
    using Suc.prems(1) by (auto simp: at_counts_def)
  show ?case
  proof (cases "expected \<le> got + 1")
    case True
    let ?s = "set_tracker addr (?t\<lparr>bt_got := got + 1, bt_done := True\<rparr>) s"
    have step: "bcast_step unmarshal s (Accept addr) = tracker_finish unmarshal addr ?s"
      using t True Suc.prems by (simp add: accept_def Let_def)
    have fin: "snd (tracker_finish unmarshal addr ?s) = outcome unmarshal h"
        "bt_done (ba_trackers (fst (tracker_finish unmarshal addr ?s)) ! addr)"
      using t by (simp_all add: finish_live)
    have "bcast_run unmarshal (fst (tracker_finish unmarshal addr ?s)) (replicate k (Accept addr))
        = (fst (tracker_finish unmarshal addr ?s), [])"
      by (rule bcast_run_done [OF fin(2)]) (simp add: list_all_iff about_def)
    with fin step True show ?thesis by (auto simp: Let_def split: prod.splits)
  next
    case False
    let ?s = "set_tracker addr (?t\<lparr>bt_got := got + 1, bt_done := False\<rparr>) s"
    have step: "bcast_step unmarshal s (Accept addr) = (?s, [])"
      using t False Suc.prems by (simp add: accept_def Let_def)
    have "at_counts addr h expected (got + 1) ?s"
      using t by (simp add: at_counts_def set_tracker_def)
    from Suc.IH [OF this] False Suc.prems step show ?thesis
      by (auto simp: Let_def split: prod.splits)
  qed
qed (simp add: at_counts_def)

lemma run_add_expected:
  assumes "at_counts addr h expected 0 s" "0 \<le> expected" "\<forall>n \<in> set ns. 0 \<le> n"
  obtains s' where "bcast_run unmarshal s (map (AddExpected addr) ns) = (s', [])"
    "at_counts addr h (expected + sum_list ns) 0 s'"
  using assms
proof (induction ns arbitrary: expected s thesis)
  case (Cons n ns)
  let ?t = "ba_trackers s ! addr"
  let ?s = "set_tracker addr (?t\<lparr>bt_expected := expected + n, bt_done := False\<rparr>) s"
  have no: "(0 < expected + n \<and> expected + n \<le> 0) = False" by auto
  have step: "bcast_step unmarshal s (AddExpected addr n) = (?s, [])"
    using Cons.prems(2) by (simp add: addExpected_def at_counts_def Let_def no)
  have now: "at_counts addr h (expected + n) 0 ?s"
    using Cons.prems by (simp add: at_counts_def set_tracker_def)
  obtain s' where "bcast_run unmarshal ?s (map (AddExpected addr) ns) = (s', [])"
      "at_counts addr h (expected + n + sum_list ns) 0 s'"
    using Cons.IH [OF _ now] Cons.prems(3,4) by auto
  with step Cons.prems(1) [of s'] show ?case by (simp add: add.assoc)
qed simp

section \<open>What the ack stores guarantee\<close>

text \<open>
  (C31) No ack callback of a socket is lost or duplicated: over any sequence of registrations,
  incoming acks and sweeps with fewer than \<open>2^64\<close> registrations, the callbacks handed out
  together with those still pending are exactly the registered ones, counted with multiplicity.
\<close>

theorem ack_callbacks_conserved:
  assumes "length (registered ops) < 2 ^ 64"
  shows "mset (registered ops) = mset (pending (fst (acks_run newAckStore ops))) + mset (snd (acks_run newAckStore ops))"
  using acks_run_conserves [of 0 newAckStore ops] assms
  by (cases "acks_run newAckStore ops") (simp add: acks_inv_def newAckStore_def pending_def)


text \<open>
  (C13) A broadcast whose acks all arrive after the counts of every node are known: with the counts \<open>ns\<close>
  of the local node and the peers added, and \<^verbatim>\<open>maybeFinish\<close> called, the handler runs exactly when
  the number of acks received reaches the total, and not again after that; with nothing to wait for it runs
  at once.
\<close>

theorem broadcast_ack_completes:
  assumes "at_counts addr h 0 0 s" "\<forall>n \<in> set ns. 0 \<le> n"
  shows "snd (bcast_run unmarshal s (map (AddExpected addr) ns @ MaybeFinish addr # replicate k (Accept addr)))
    = (if sum_list ns \<le> int k then outcome unmarshal h else [])"
proof -
  obtain s1 where s1: "bcast_run unmarshal s (map (AddExpected addr) ns) = (s1, [])" "at_counts addr h (sum_list ns) 0 s1"
    using run_add_expected [OF assms(1) _ assms(2)] by auto
  have pos: "0 \<le> sum_list ns" using assms(2) by (simp add: sum_list_nonneg)
  have "snd (bcast_run unmarshal s1 (MaybeFinish addr # replicate k (Accept addr)))
      = (if sum_list ns \<le> int k then outcome unmarshal h else [])"
  proof (cases "sum_list ns = 0")
    case True
    let ?s = "set_tracker addr ((ba_trackers s1 ! addr)\<lparr>bt_done := True\<rparr>) s1"
    have step: "bcast_step unmarshal s1 (MaybeFinish addr) = tracker_finish unmarshal addr ?s"
      using s1(2) True by (simp add: at_counts_def maybeFinish_def Let_def)
    have fin: "snd (tracker_finish unmarshal addr ?s) = outcome unmarshal h"
        "bt_done (ba_trackers (fst (tracker_finish unmarshal addr ?s)) ! addr)"
      using s1(2) by (simp_all add: at_counts_def finish_live)
    have "bcast_run unmarshal (fst (tracker_finish unmarshal addr ?s)) (replicate k (Accept addr))
        = (fst (tracker_finish unmarshal addr ?s), [])"
      by (rule bcast_run_done [OF fin(2)]) (simp add: list_all_iff about_def)
    with step fin(1) True show ?thesis by (auto simp: Let_def split: prod.splits)
  next
    case False
    then have "bcast_step unmarshal s1 (MaybeFinish addr) = (s1, [])"
      using s1(2) by (simp add: at_counts_def maybeFinish_def Let_def)
    moreover have "snd (bcast_run unmarshal s1 (replicate k (Accept addr)))
        = (if sum_list ns \<le> int k then outcome unmarshal h else [])"
      using run_accepts [OF s1(2), of unmarshal k] False pos by simp
    ultimately show ?thesis by (auto simp: Let_def split: prod.splits)
  qed
  with s1(1) show ?thesis by (auto simp: bcast_run_append Let_def split: prod.splits)
qed

text \<open>
  A broadcast can finish too early: when all \<open>l\<close> local sockets acknowledge before the count of the
  first peer is added, the handler runs, and the peer's count \<open>n\<close> is then ignored: nothing that
  concerns the tracker (\<open>rest\<close>: further counts, the acks of the peers) calls anything again.
\<close>

theorem broadcast_ack_finishes_early:
  assumes "at_counts addr h 0 0 s" "0 < l" "list_all (about addr) rest"
  shows "snd (bcast_run unmarshal s (AddExpected addr (int l) # replicate l (Accept addr))) = outcome unmarshal h
    \<and> snd (bcast_run unmarshal (fst (bcast_run unmarshal s (AddExpected addr (int l) # replicate l (Accept addr))))
        (AddExpected addr n # rest)) = []"
proof -
  obtain s1 where s1: "bcast_run unmarshal s (map (AddExpected addr) [int l]) = (s1, [])" "at_counts addr h (int l) 0 s1"
    using run_add_expected [OF assms(1), of "[int l]" unmarshal] by auto
  let ?s2 = "bcast_run unmarshal s1 (replicate l (Accept addr))"
  have two: "snd ?s2 = outcome unmarshal h" "bt_done (ba_trackers (fst ?s2) ! addr)"
    using run_accepts [OF s1(2), of unmarshal l] assms(2) by simp_all
  have all: "bcast_run unmarshal s (AddExpected addr (int l) # replicate l (Accept addr)) = ?s2"
    using s1(1) bcast_run_append [of unmarshal s "[AddExpected addr (int l)]" "replicate l (Accept addr)"]
    by (simp add: Let_def split_beta)
  have "bcast_run unmarshal (fst ?s2) (AddExpected addr n # rest) = (fst ?s2, [])"
    using assms(3) by (intro bcast_run_done [OF two(2)]) (simp add: about_def)
  with all two(1) show ?thesis by simp
qed

section \<open>Witnesses\<close>

definition sample_ack :: "nat \<Rightarrow> unit ackHandler" where
  "sample_ack c = \<lparr>ah_fn = \<lparr>fn_code = c, fn_env = 0\<rparr>, ah_args = [TyError], ah_hasError = True, ah_done = False\<rparr>"

theorem ack_callbacks_conserved_witness:
  "mset (registered [Register (7::nat) 0 100, Register 8 50 100, Take 0, Take 0, Sweep 200]) = {#7, 8#}
   \<and> snd (acks_run newAckStore [Register (7::nat) 0 100, Register 8 50 100, Take 0, Take 0, Sweep 200]) = [7, 8]
   \<and> pending (fst (acks_run newAckStore [Register (7::nat) 0 100, Register 8 50 100, Take 0, Take 0, Sweep 200])) = []"
proof -
  let ?ops = "[Register (7::nat) 0 100, Register 8 50 100, Take 0, Take 0, Sweep 200]"
  have out: "snd (acks_run newAckStore ?ops) = [7, 8]" by code_simp
  have "mset (registered ?ops) = mset (pending (fst (acks_run newAckStore ?ops))) + mset (snd (acks_run newAckStore ?ops))"
    by (rule ack_callbacks_conserved) simp
  with out show ?thesis by simp
qed


abbreviation one_broadcast :: "unit broadcastAcks" where
  "one_broadcast \<equiv> snd (newBroadcastAck no_broadcasts (sample_ack 1) 0 0)"

lemma one_broadcast_fresh: "at_counts 0 (sample_ack 1) 0 0 one_broadcast"
  by (simp add: at_counts_def newBroadcastAck_def no_broadcasts_def Let_def)

lemma sample_outcome: "outcome (\<lambda>_ _. None :: unit option) (sample_ack 1) = [Invoke \<lparr>fn_code = 1, fn_env = 0\<rparr> [VZero TyError]]"
  by (simp add: outcome_def ack_call_def sample_ack_def)

theorem broadcast_ack_completes_witness:
  "snd (bcast_run (\<lambda>_ _. None :: unit option) one_broadcast
     (map (AddExpected 0) [2, 1] @ MaybeFinish 0 # replicate 3 (Accept 0))) = [Invoke \<lparr>fn_code = 1, fn_env = 0\<rparr> [VZero TyError]]
   \<and> snd (bcast_run (\<lambda>_ _. None :: unit option) one_broadcast
     (map (AddExpected 0) [2, 1] @ MaybeFinish 0 # replicate 2 (Accept 0))) = []"
  using broadcast_ack_completes [OF one_broadcast_fresh, of "[2, 1]" "\<lambda>_ _. None :: unit option" 3]
    broadcast_ack_completes [OF one_broadcast_fresh, of "[2, 1]" "\<lambda>_ _. None :: unit option" 2]
  by (simp only: sample_outcome) simp

theorem broadcast_ack_finishes_early_witness:
  "snd (bcast_run (\<lambda>_ _. None :: unit option) one_broadcast (AddExpected 0 (int 1) # replicate 1 (Accept 0)))
     = [Invoke \<lparr>fn_code = 1, fn_env = 0\<rparr> [VZero TyError]]
   \<and> snd (bcast_run (\<lambda>_ _. None :: unit option)
       (fst (bcast_run (\<lambda>_ _. None :: unit option) one_broadcast (AddExpected 0 (int 1) # replicate 1 (Accept 0))))
       (AddExpected 0 5 # [MaybeFinish 0])) = []"
  using broadcast_ack_finishes_early [OF one_broadcast_fresh, of 1 "[MaybeFinish 0]" "\<lambda>_ _. None :: unit option" 5]
  by (simp only: sample_outcome) (simp add: about_def)

end
