(* ===== verification/Adapter.thy ===== *)
theory Adapter
  imports Prelude
begin

text \<open>
  The room index of a namespace: \<open>localAdapter\<close> of \<^verbatim>\<open>adapter.go\<close>.

  A \<^verbatim>\<open>*serverSocket\<close> is an address (\<^typ>\<open>nat\<close>); its \<open>id\<close> field never changes and is read through the
  parameter \<open>sid_of\<close>. Its \<open>matchSeen\<close> and \<open>matchExcept\<close> fields are written by the adapter of its own namespace
  only, and are kept with it. A \<^verbatim>\<open>*roomEntry\<close> is a position in \<open>ad_heap\<close>: \<open>rooms\<close> and \<open>sids\<close> share
  entries, so that an entry emptied through one is seen through the other. Go maps are
  association lists.
\<close>

type_synonym SocketID = bytes
type_synonym Room = bytes
type_synonym sockref = nat

record broadcastOptions =
  bo_Rooms :: "Room list"
  bo_Except :: "Room list"
  bo_Local :: bool

definition no_options :: broadcastOptions where
  "no_options = \<lparr>bo_Rooms = [], bo_Except = [], bo_Local = False\<rparr>"

record roomEntry =
  re_name :: Room
  re_owned :: bool
  re_members :: "(SocketID \<times> sockref) list"

record localAdapter =
  ad_rooms :: "(Room \<times> nat) list"
  ad_sids :: "(SocketID \<times> (Room \<times> nat) list) list"
  ad_socketByID :: "(SocketID \<times> sockref) list"
  ad_epoch :: u64
  ad_heap :: "roomEntry list"
  ad_seen :: "sockref \<Rightarrow> u64"
  ad_except :: "sockref \<Rightarrow> u64"

definition newLocalAdapter :: localAdapter where
  "newLocalAdapter = \<lparr>ad_rooms = [], ad_sids = [], ad_socketByID = [], ad_epoch = 0, ad_heap = [],
     ad_seen = (\<lambda>_. 0), ad_except = (\<lambda>_. 0)\<rparr>"

section \<open>Room entries\<close>

definition newRoomEntry :: "Room \<Rightarrow> bool \<Rightarrow> roomEntry" where
  "newRoomEntry room owned = \<lparr>re_name = room, re_owned = owned, re_members = []\<rparr>"

definition entry_release :: "roomEntry \<Rightarrow> roomEntry" where
  "entry_release e = e\<lparr>re_owned := False, re_name := [], re_members := []\<rparr>"

text \<open>
  The body shared by \<^verbatim>\<open>removeSocket\<close> and \<^verbatim>\<open>delete\<close>: take the socket out of the entry, and drop an entry that
  became empty.
\<close>

definition drop_member :: "SocketID \<Rightarrow> nat \<Rightarrow> localAdapter \<Rightarrow> localAdapter" where
  "drop_member sid e a =
     (let entry = (ad_heap a ! e)\<lparr>re_members := AList.delete sid (re_members (ad_heap a ! e))\<rparr> in
      if re_members entry = []
      then a\<lparr>ad_rooms := AList.delete (re_name entry) (ad_rooms a), ad_heap := (ad_heap a)[e := entry_release entry]\<rparr>
      else a\<lparr>ad_heap := (ad_heap a)[e := entry]\<rparr>)"

section \<open>Operations\<close>

definition sid_entries :: "localAdapter \<Rightarrow> SocketID \<Rightarrow> (Room \<times> nat) list" where
  "sid_entries a sid = (case map_of (ad_sids a) sid of None \<Rightarrow> [] | Some m \<Rightarrow> m)"

text \<open>One turn of the loop of \<^verbatim>\<open>addAllWithRoomOwnership\<close>.\<close>

definition join_room :: "SocketID \<Rightarrow> sockref \<Rightarrow> bool \<Rightarrow> localAdapter \<Rightarrow> Room \<Rightarrow> localAdapter" where
  "join_room sid socket owned a room =
     (let (e, a1) = (case map_of (ad_rooms a) room of
           Some e \<Rightarrow> (e, a)
         | None \<Rightarrow> (let e = length (ad_heap a); entry = newRoomEntry room owned in
             (e, a\<lparr>ad_heap := ad_heap a @ [entry], ad_rooms := AList.update (re_name entry) e (ad_rooms a)\<rparr>)));
          entry = ad_heap a1 ! e
      in a1\<lparr>ad_sids := AList.update sid (AList.update (re_name entry) e (sid_entries a1 sid)) (ad_sids a1),
            ad_heap := (ad_heap a1)[e := entry\<lparr>re_members := AList.update sid socket (re_members entry)\<rparr>]\<rparr>)"

definition addAllWithRoomOwnership ::
    "SocketID \<Rightarrow> sockref \<Rightarrow> Room list \<Rightarrow> bool \<Rightarrow> localAdapter \<Rightarrow> localAdapter" where
  "addAllWithRoomOwnership sid socket rooms owned a =
     foldl (join_room sid socket owned)
       (if map_of (ad_sids a) sid = None then a\<lparr>ad_sids := AList.update sid [] (ad_sids a)\<rparr> else a) rooms"

definition addAll :: "SocketID \<Rightarrow> sockref \<Rightarrow> Room list \<Rightarrow> localAdapter \<Rightarrow> localAdapter" where
  "addAll sid socket rooms a = addAllWithRoomOwnership sid socket rooms False a"

definition addAllOwned :: "SocketID \<Rightarrow> sockref \<Rightarrow> Room list \<Rightarrow> localAdapter \<Rightarrow> localAdapter" where
  "addAllOwned sid socket rooms a = addAllWithRoomOwnership sid socket rooms True a"

definition addSocket :: "(sockref \<Rightarrow> SocketID) \<Rightarrow> sockref \<Rightarrow> localAdapter \<Rightarrow> localAdapter" where
  "addSocket sid_of s a =
     addAll (sid_of s) s [sid_of s] (a\<lparr>ad_socketByID := AList.update (sid_of s) s (ad_socketByID a)\<rparr>)"

definition removeSocket :: "SocketID \<Rightarrow> localAdapter \<Rightarrow> localAdapter" where
  "removeSocket sid a =
     (let a1 = foldl (\<lambda>a (room, e). drop_member sid e a) a (sid_entries a sid)
      in a1\<lparr>ad_sids := AList.delete sid (ad_sids a1), ad_socketByID := AList.delete sid (ad_socketByID a1)\<rparr>)"

definition adapter_delete :: "SocketID \<Rightarrow> Room \<Rightarrow> localAdapter \<Rightarrow> localAdapter" where
  "adapter_delete sid room a =
     (case map_of (ad_rooms a) room of
        None \<Rightarrow> a
      | Some e \<Rightarrow>
          drop_member sid e
            (case map_of (ad_sids a) sid of
               None \<Rightarrow> a
             | Some entries \<Rightarrow> a\<lparr>ad_sids := AList.update sid (AList.delete (re_name (ad_heap a ! e)) entries) (ad_sids a)\<rparr>))"

definition socketRooms :: "SocketID \<Rightarrow> localAdapter \<Rightarrow> Room list" where
  "socketRooms sid a = map (\<lambda>(_, e). re_name (ad_heap a ! e)) (sid_entries a sid)"

section \<open>Matching\<close>

definition markExcept :: "u64 \<Rightarrow> localAdapter \<Rightarrow> nat \<Rightarrow> localAdapter" where
  "markExcept token a e =
     foldl (\<lambda>a s. a\<lparr>ad_except := (ad_except a)(s := token)\<rparr>) a (map snd (re_members (ad_heap a ! e)))"

text \<open>One turn of the loop of \<^verbatim>\<open>appendMatches\<close>.\<close>

definition match_step :: "u64 \<Rightarrow> sockref list \<times> localAdapter \<Rightarrow> sockref \<Rightarrow> sockref list \<times> localAdapter" where
  "match_step token st s =
     (case st of (out, a) \<Rightarrow>
        if ad_seen a s = token \<or> ad_except a s = token then (out, a)
        else (out @ [s], a\<lparr>ad_seen := (ad_seen a)(s := token)\<rparr>))"

definition appendMatches :: "u64 \<Rightarrow> sockref list \<times> localAdapter \<Rightarrow> nat \<Rightarrow> sockref list \<times> localAdapter" where
  "appendMatches token st e = foldl (match_step token) st (map snd (re_members (ad_heap (snd st) ! e)))"

text \<open>The sockets \<^verbatim>\<open>apply\<close> calls its function on, in order, and the adapter it leaves behind.\<close>

definition adapter_apply :: "broadcastOptions \<Rightarrow> localAdapter \<Rightarrow> sockref list \<times> localAdapter" where
  "adapter_apply opts a =
     (let token = ad_epoch a + 1;
          a1 = foldl (\<lambda>a room. case map_of (ad_rooms a) room of None \<Rightarrow> a | Some e \<Rightarrow> markExcept token a e)
                 (a\<lparr>ad_epoch := token\<rparr>) (bo_Except opts)
      in if bo_Rooms opts \<noteq> []
         then foldl (\<lambda>(out, a) room. case map_of (ad_rooms a) room of
                  None \<Rightarrow> (out, a) | Some e \<Rightarrow> appendMatches token (out, a) e) ([], a1) (bo_Rooms opts)
         else (filter (\<lambda>s. ad_except a1 s \<noteq> token) (map snd (ad_socketByID a1)), a1))"

definition matchingSockets :: "broadcastOptions \<Rightarrow> localAdapter \<Rightarrow> sockref list \<times> localAdapter" where
  "matchingSockets opts a = adapter_apply opts a"

definition adapter_stats :: "localAdapter \<Rightarrow> nat \<times> nat \<times> nat" where
  "adapter_stats a =
     (length (ad_socketByID a), length (ad_rooms a),
      sum_list (map (\<lambda>(_, e). length (re_members (ad_heap a ! e))) (ad_rooms a)))"

section \<open>Invariant and abstraction\<close>

text \<open>
  The abstract state is a membership table: which socket stands in a room under an id. \<open>link\<close> is the same
  table read from the socket's side.
\<close>

definition memb :: "localAdapter \<Rightarrow> Room \<Rightarrow> SocketID \<Rightarrow> sockref option" where
  "memb a r x = (case map_of (ad_rooms a) r of None \<Rightarrow> None | Some e \<Rightarrow> map_of (re_members (ad_heap a ! e)) x)"

definition link :: "localAdapter \<Rightarrow> SocketID \<Rightarrow> Room \<Rightarrow> nat option" where
  "link a x = map_of (sid_entries a x)"

definition entry_ok :: "(sockref \<Rightarrow> SocketID) \<Rightarrow> localAdapter \<Rightarrow> Room \<Rightarrow> nat \<Rightarrow> bool" where
  "entry_ok sid_of a r e \<longleftrightarrow> e < length (ad_heap a) \<and> re_name (ad_heap a ! e) = r
     \<and> re_members (ad_heap a ! e) \<noteq> [] \<and> wf_map (re_members (ad_heap a ! e))
     \<and> (\<forall>x s. map_of (re_members (ad_heap a ! e)) x = Some s \<longrightarrow> sid_of s = x)"

definition rooms_ok :: "(sockref \<Rightarrow> SocketID) \<Rightarrow> localAdapter \<Rightarrow> bool" where
  "rooms_ok sid_of a \<longleftrightarrow> wf_map (ad_rooms a) \<and> (\<forall>r e. map_of (ad_rooms a) r = Some e \<longrightarrow> entry_ok sid_of a r e)"

definition links_ok :: "(SocketID \<Rightarrow> Room \<Rightarrow> nat option) \<Rightarrow> localAdapter \<Rightarrow> bool" where
  "links_ok L a \<longleftrightarrow> (\<forall>x r e. L x r = Some e \<longleftrightarrow>
      map_of (ad_rooms a) r = Some e \<and> map_of (re_members (ad_heap a ! e)) x \<noteq> None)"

definition index_ok :: "(sockref \<Rightarrow> SocketID) \<Rightarrow> localAdapter \<Rightarrow> bool" where
  "index_ok sid_of a \<longleftrightarrow> wf_map (ad_sids a) \<and> (\<forall>x. wf_map (sid_entries a x)) \<and> wf_map (ad_socketByID a)
     \<and> (\<forall>x s. map_of (ad_socketByID a) x = Some s \<longrightarrow> sid_of s = x)"

definition adapter_inv :: "(sockref \<Rightarrow> SocketID) \<Rightarrow> localAdapter \<Rightarrow> bool" where
  "adapter_inv sid_of a \<longleftrightarrow> rooms_ok sid_of a \<and> links_ok (link a) a \<and> index_ok sid_of a"

lemma room_entry_unique:
  "rooms_ok sid_of a \<Longrightarrow> map_of (ad_rooms a) r = Some e \<Longrightarrow> map_of (ad_rooms a) r' = Some e \<Longrightarrow> r' = r"
  unfolding rooms_ok_def entry_ok_def by blast

lemma delete_nil_iff: "AList.delete k m = [] \<longleftrightarrow> (\<forall>x. x \<noteq> k \<longrightarrow> map_of m x = None)"
  unfolding AList.delete_eq filter_empty_conv map_of_eq_None_iff by force

subsection \<open>Leaving a room\<close>

lemma drop_member_absent:
  "map_of (re_members (ad_heap a ! e)) x = None \<Longrightarrow> re_members (ad_heap a ! e) \<noteq> [] \<Longrightarrow> drop_member x e a = a"
  by (simp add: drop_member_def Let_def map_of_eq_None_iff delete_id)

lemma drop_member_frame [simp]:
  "ad_sids (drop_member x e a) = ad_sids a" "ad_socketByID (drop_member x e a) = ad_socketByID a"
  "ad_epoch (drop_member x e a) = ad_epoch a" "ad_seen (drop_member x e a) = ad_seen a"
  "ad_except (drop_member x e a) = ad_except a" "length (ad_heap (drop_member x e a)) = length (ad_heap a)"
  by (simp_all add: drop_member_def Let_def)

lemma drop_member_heap_other [simp]: "e' \<noteq> e \<Longrightarrow> ad_heap (drop_member x e a) ! e' = ad_heap a ! e'"
  by (simp add: drop_member_def Let_def)

lemma drop_member_rooms:
  assumes "rooms_ok sid_of a" "map_of (ad_rooms a) r = Some e"
  shows "map_of (ad_rooms (drop_member x e a)) r' =
      (if r' = r \<and> AList.delete x (re_members (ad_heap a ! e)) = [] then None else map_of (ad_rooms a) r')"
    "wf_map (ad_rooms (drop_member x e a))"
  using assms by (auto simp: drop_member_def Let_def alist_simps rooms_ok_def entry_ok_def)

lemma drop_member_members:
  assumes "e < length (ad_heap a)" "AList.delete x (re_members (ad_heap a ! e)) \<noteq> []"
  shows "ad_heap (drop_member x e a) ! e = (ad_heap a ! e)\<lparr>re_members := AList.delete x (re_members (ad_heap a ! e))\<rparr>"
  using assms by (simp add: drop_member_def Let_def)

lemma drop_member_entry_ok:
  assumes ok: "rooms_ok sid_of a" and e: "map_of (ad_rooms a) r = Some e"
    and r': "map_of (ad_rooms (drop_member x e a)) r' = Some e'"
  shows "entry_ok sid_of (drop_member x e a) r' e'"
proof -
  let ?m = "re_members (ad_heap a ! e)"
  have old: "map_of (ad_rooms a) r' = Some e'" and live: "r' = r \<Longrightarrow> AList.delete x ?m \<noteq> []"
    using r' drop_member_rooms(1) [OF ok e] by (auto split: if_splits)
  have was: "entry_ok sid_of a r' e'" using ok old by (simp add: rooms_ok_def)
  show ?thesis
  proof (cases "e' = e")
    case True
    with room_entry_unique [OF ok e] old have "r' = r" by blast
    with live have "AList.delete x ?m \<noteq> []" by simp
    with was True show ?thesis
      by (auto simp: entry_ok_def drop_member_members alist_simps split: if_splits)
  next
    case False
    with was show ?thesis by (simp add: entry_ok_def)
  qed
qed

lemma drop_member_rooms_ok:
  "rooms_ok sid_of a \<Longrightarrow> map_of (ad_rooms a) r = Some e \<Longrightarrow> rooms_ok sid_of (drop_member x e a)"
  unfolding rooms_ok_def [of sid_of "drop_member x e a"]
  using drop_member_entry_ok drop_member_rooms(2) by blast

lemma drop_member_memb:
  assumes ok: "rooms_ok sid_of a" and e: "map_of (ad_rooms a) r = Some e"
  shows "memb (drop_member x e a) r' x' = (if r' = r \<and> x' = x then None else memb a r' x')"
proof (cases "map_of (ad_rooms a) r'")
  case None
  with e show ?thesis by (auto simp: memb_def drop_member_rooms(1) [OF ok e])
next
  case (Some e')
  let ?m = "re_members (ad_heap a ! e)"
  have len: "e < length (ad_heap a)" using ok e by (simp add: rooms_ok_def entry_ok_def)
  show ?thesis
  proof (cases "r' = r")
    case True
    with Some e have "e' = e" by simp
    then show ?thesis
      using True e len
      by (auto simp: memb_def drop_member_rooms(1) [OF ok e] delete_nil_iff drop_member_members alist_simps)
  next
    case False
    with Some room_entry_unique [OF ok e] have "e' \<noteq> e" by auto
    with False Some show ?thesis by (simp add: memb_def drop_member_rooms(1) [OF ok e])
  qed
qed

lemma links_ok_memb:
  "links_ok L a \<longleftrightarrow> (\<forall>x r e. L x r = Some e \<longleftrightarrow> map_of (ad_rooms a) r = Some e \<and> memb a r x \<noteq> None)"
  unfolding links_ok_def memb_def by (rule all_cong1)+ auto

lemma drop_member_links_ok:
  assumes ok: "rooms_ok sid_of a" and e: "map_of (ad_rooms a) r = Some e" and L: "links_ok L a"
  shows "links_ok (L(x := (L x)(r := None))) (drop_member x e a)"
proof -
  have gone: "memb a r x' = None"
    if "AList.delete x (re_members (ad_heap a ! e)) = []" "x' \<noteq> x" for x'
    using that e by (simp add: delete_nil_iff memb_def)
  have "(L(x := (L x)(r := None))) x' r' = Some e' \<longleftrightarrow>
      map_of (ad_rooms (drop_member x e a)) r' = Some e' \<and> memb (drop_member x e a) r' x' \<noteq> None" for x' r' e'
    using L gone
    by (cases "r' = r") (auto simp: links_ok_memb drop_member_memb [OF ok e] drop_member_rooms(1) [OF ok e])
  then show ?thesis unfolding links_ok_memb by blast
qed

lemma sid_entries_update:
  "sid_entries (a\<lparr>ad_sids := AList.update sid m (ad_sids a)\<rparr>) x = (if x = sid then m else sid_entries a x)"
  by (simp add: sid_entries_def alist_simps)

lemma sid_entries_frame [simp]:
  "sid_entries (drop_member x e a) = sid_entries a"
  by (simp add: sid_entries_def fun_eq_iff)

lemma frame_sids [simp]:
  "memb (a\<lparr>ad_sids := m\<rparr>) = memb a" "rooms_ok sid_of (a\<lparr>ad_sids := m\<rparr>) = rooms_ok sid_of a"
  "links_ok L (a\<lparr>ad_sids := m\<rparr>) = links_ok L a"
  "memb (a\<lparr>ad_socketByID := n\<rparr>) = memb a" "rooms_ok sid_of (a\<lparr>ad_socketByID := n\<rparr>) = rooms_ok sid_of a"
  "links_ok L (a\<lparr>ad_socketByID := n\<rparr>) = links_ok L a"
  by (auto simp: memb_def fun_eq_iff rooms_ok_def entry_ok_def links_ok_def split: option.splits)

lemma adapter_delete_memb:
  assumes "adapter_inv sid_of a"
  shows "memb (adapter_delete x r a) r' x' = (if r' = r \<and> x' = x then None else memb a r' x')"
proof (cases "map_of (ad_rooms a) r")
  case None
  then show ?thesis by (auto simp: adapter_delete_def memb_def)
next
  case (Some e)
  have ok: "rooms_ok sid_of a" using assms by (simp add: adapter_inv_def)
  have "memb (drop_member x e (a\<lparr>ad_sids := m\<rparr>)) r' x' = (if r' = r \<and> x' = x then None else memb a r' x')" for m
    using drop_member_memb [of sid_of "a\<lparr>ad_sids := m\<rparr>" r e x r' x'] ok Some by simp
  then show ?thesis
    using drop_member_memb [OF ok Some] Some by (cases "map_of (ad_sids a) x") (simp_all add: adapter_delete_def)
qed

lemma adapter_delete_inv [inv_intros]:
  assumes inv: "adapter_inv sid_of a"
  shows "adapter_inv sid_of (adapter_delete x r a)"
proof (cases "map_of (ad_rooms a) r")
  case None
  with inv show ?thesis by (simp add: adapter_delete_def)
next
  case (Some e)
  have ok: "rooms_ok sid_of a" and links: "links_ok (link a) a" and idx: "index_ok sid_of a"
    using inv by (simp_all add: adapter_inv_def)
  have name: "re_name (ad_heap a ! e) = r" and nonempty: "re_members (ad_heap a ! e) \<noteq> []"
    using ok Some by (simp_all add: rooms_ok_def entry_ok_def)
  show ?thesis
  proof (cases "map_of (ad_sids a) x")
    case None
    then have "link a x r = None" by (simp add: link_def sid_entries_def)
    then have "map_of (re_members (ad_heap a ! e)) x = None"
      using links Some unfolding links_ok_def by (metis option.distinct(1) not_None_eq)
    with nonempty have "adapter_delete x r a = a"
      using None Some by (simp add: adapter_delete_def drop_member_absent)
    with inv show ?thesis by simp
  next
    case entries: (Some m)
    let ?b = "a\<lparr>ad_sids := AList.update x (AList.delete r m) (ad_sids a)\<rparr>"
    have eq: "adapter_delete x r a = drop_member x e ?b"
      using Some entries name by (simp add: adapter_delete_def)
    have "link (drop_member x e ?b) = (link a)(x := (link a x)(r := None))"
      using entries by (auto simp: link_def fun_eq_iff sid_entries_update alist_simps sid_entries_def [of a x])
    moreover have "index_ok sid_of (drop_member x e ?b)"
      using idx entries sid_entries_def [of a x]
      by (auto simp: index_ok_def sid_entries_update)
    ultimately show ?thesis
      using drop_member_links_ok [of sid_of ?b r e "link a" x] drop_member_rooms_ok [of sid_of ?b r e x] ok links Some
      by (simp add: adapter_inv_def eq)
  qed
qed

subsection \<open>Joining rooms\<close>

lemma join_room_existing:
  assumes "map_of (ad_rooms a) r = Some e"
  shows "join_room x s owned a r =
    a\<lparr>ad_sids := AList.update x (AList.update (re_name (ad_heap a ! e)) e (sid_entries a x)) (ad_sids a),
      ad_heap := (ad_heap a)[e := (ad_heap a ! e)\<lparr>re_members := AList.update x s (re_members (ad_heap a ! e))\<rparr>]\<rparr>"
  using assms by (simp add: join_room_def Let_def)

lemma join_room_new:
  assumes "map_of (ad_rooms a) r = None"
  shows "join_room x s owned a r =
    a\<lparr>ad_rooms := AList.update r (length (ad_heap a)) (ad_rooms a),
      ad_sids := AList.update x (AList.update r (length (ad_heap a)) (sid_entries a x)) (ad_sids a),
      ad_heap := ad_heap a @ [\<lparr>re_name = r, re_owned = owned, re_members = [(x, s)]\<rparr>]\<rparr>"
  using assms by (simp add: join_room_def Let_def newRoomEntry_def sid_entries_def)

lemma update_not_nil [simp]: "AList.update k v m \<noteq> []"
  by (cases m) auto

lemma join_room_memb:
  assumes ok: "rooms_ok sid_of a"
  shows "memb (join_room x s owned a r) r' x' = (if r' = r \<and> x' = x then Some s else memb a r' x')"
proof (cases "map_of (ad_rooms a) r")
  case None
  have "e < length (ad_heap a)" if "map_of (ad_rooms a) r' = Some e" for e
    using ok that by (simp add: rooms_ok_def entry_ok_def)
  then show ?thesis
    using None by (cases "map_of (ad_rooms a) r'") (auto simp: join_room_new memb_def alist_simps nth_append)
next
  case (Some e)
  have len: "e < length (ad_heap a)" using ok Some by (simp add: rooms_ok_def entry_ok_def)
  show ?thesis
  proof (cases "r' = r")
    case True
    with Some len show ?thesis by (simp add: join_room_existing memb_def alist_simps)
  next
    case False
    with room_entry_unique [OF ok Some] have "map_of (ad_rooms a) r' \<noteq> Some e" by blast
    with False Some show ?thesis
      by (cases "map_of (ad_rooms a) r'") (simp_all add: join_room_existing memb_def)
  qed
qed

lemma join_room_rooms_ok:
  assumes ok: "rooms_ok sid_of a" and s: "sid_of s = x"
  shows "rooms_ok sid_of (join_room x s owned a r)"
proof (cases "map_of (ad_rooms a) r")
  case None
  have "entry_ok sid_of (join_room x s owned a r) r' e" if "map_of (ad_rooms (join_room x s owned a r)) r' = Some e" for r' e
    using that ok s None
    by (auto simp: join_room_new rooms_ok_def entry_ok_def alist_simps nth_append wf_map_def split: if_splits)
  with ok None show ?thesis by (simp add: rooms_ok_def join_room_new)
next
  case (Some e)
  have "entry_ok sid_of (join_room x s owned a r) r' e'" if "map_of (ad_rooms (join_room x s owned a r)) r' = Some e'" for r' e'
    using that ok s Some
    by (auto simp: join_room_existing rooms_ok_def entry_ok_def alist_simps nth_list_update split: if_splits)
  with ok Some show ?thesis by (simp add: rooms_ok_def join_room_existing)
qed

lemma join_room_link: "link (join_room x s owned a r) =
    (link a)(x := (link a x)((case map_of (ad_rooms a) r of None \<Rightarrow> r | Some e \<Rightarrow> re_name (ad_heap a ! e)) \<mapsto>
      (case map_of (ad_rooms a) r of None \<Rightarrow> length (ad_heap a) | Some e \<Rightarrow> e)))"
  by (cases "map_of (ad_rooms a) r")
    (auto simp: join_room_new join_room_existing link_def fun_eq_iff sid_entries_def alist_simps)

lemma join_room_rooms:
  "map_of (ad_rooms (join_room x s owned a r)) r' =
     (if r' = r \<and> map_of (ad_rooms a) r = None then Some (length (ad_heap a)) else map_of (ad_rooms a) r')"
  by (cases "map_of (ad_rooms a) r") (auto simp: join_room_new join_room_existing alist_simps)

lemma join_room_links_ok:
  assumes ok: "rooms_ok sid_of a" and L: "links_ok (link a) a"
  shows "links_ok (link (join_room x s owned a r)) (join_room x s owned a r)"
proof -
  have "map_of (ad_rooms a) r = Some e \<Longrightarrow> re_name (ad_heap a ! e) = r" for e
    using ok by (simp add: rooms_ok_def entry_ok_def)
  then have "link (join_room x s owned a r) x' r' = Some e' \<longleftrightarrow>
      map_of (ad_rooms (join_room x s owned a r)) r' = Some e' \<and> memb (join_room x s owned a r) r' x' \<noteq> None" for x' r' e'
    using L by (cases "map_of (ad_rooms a) r"; cases "r' = r")
      (auto simp: join_room_link join_room_rooms join_room_memb [OF ok] links_ok_memb memb_def [of a r])
  then show ?thesis unfolding links_ok_memb by blast
qed

lemma join_room_index_ok: "index_ok sid_of a \<Longrightarrow> index_ok sid_of (join_room x s owned a r)"
proof (cases "map_of (ad_rooms a) r")
  case None
  moreover assume "index_ok sid_of a"
  ultimately show ?thesis
    by (auto simp: join_room_new index_ok_def sid_entries_def alist_simps)
next
  case (Some e)
  moreover assume "index_ok sid_of a"
  ultimately show ?thesis
    by (auto simp: join_room_existing index_ok_def sid_entries_def alist_simps)
qed

lemma join_room_inv:
  "adapter_inv sid_of a \<Longrightarrow> sid_of s = x \<Longrightarrow> adapter_inv sid_of (join_room x s owned a r)"
  unfolding adapter_inv_def by (elim conjE, intro conjI join_room_rooms_ok join_room_links_ok join_room_index_ok)

lemma join_all:
  assumes "adapter_inv sid_of a" "sid_of s = x"
  shows "adapter_inv sid_of (foldl (join_room x s owned) a rs)
    \<and> (memb (foldl (join_room x s owned) a rs) r' x' = (if r' \<in> set rs \<and> x' = x then Some s else memb a r' x'))"
  using assms
proof (induction rs arbitrary: a)
  case (Cons r rs)
  have "rooms_ok sid_of a" using Cons.prems by (simp add: adapter_inv_def)
  with Cons join_room_inv [OF Cons.prems] show ?case by (auto simp: join_room_memb)
qed simp

lemma fresh_sid_inv:
  assumes "adapter_inv sid_of a" "map_of (ad_sids a) x = None"
  shows "adapter_inv sid_of (a\<lparr>ad_sids := AList.update x [] (ad_sids a)\<rparr>)"
proof -
  have "link (a\<lparr>ad_sids := AList.update x [] (ad_sids a)\<rparr>) = link a"
    using assms(2) by (auto simp: link_def fun_eq_iff sid_entries_def alist_simps)
  with assms show ?thesis by (auto simp: adapter_inv_def index_ok_def sid_entries_update)
qed

lemma addAllWithRoomOwnership_spec:
  assumes "adapter_inv sid_of a" "sid_of s = x"
  shows "adapter_inv sid_of (addAllWithRoomOwnership x s rs owned a)
    \<and> memb (addAllWithRoomOwnership x s rs owned a) r' x' = (if r' \<in> set rs \<and> x' = x then Some s else memb a r' x')"
  using join_all [OF fresh_sid_inv [OF assms(1)] assms(2)] join_all [OF assms]
  by (simp add: addAllWithRoomOwnership_def)

lemma sid_entries_socketByID: "sid_entries (a\<lparr>ad_socketByID := m\<rparr>) = sid_entries a"
  by (simp add: sid_entries_def fun_eq_iff)

lemma adapter_inv_socketByID:
  "adapter_inv sid_of a \<Longrightarrow> adapter_inv sid_of (a\<lparr>ad_socketByID := AList.update (sid_of s) s (ad_socketByID a)\<rparr>)"
  by (auto simp: adapter_inv_def index_ok_def alist_simps sid_entries_socketByID link_def [abs_def] split: if_splits)

lemma addSocket_spec:
  assumes "adapter_inv sid_of a"
  shows "adapter_inv sid_of (addSocket sid_of s a)"
    "memb (addSocket sid_of s a) r x = (if r = sid_of s \<and> x = sid_of s then Some s else memb a r x)"
  using addAllWithRoomOwnership_spec [OF adapter_inv_socketByID [OF assms], of s "sid_of s" "[sid_of s]" False]
  by (simp_all add: addSocket_def addAll_def)

subsection \<open>Removing a socket\<close>

lemma drop_all:
  assumes "rooms_ok sid_of a" "links_ok L a" "L x = map_of es" "wf_map es"
  shows "rooms_ok sid_of (foldl (\<lambda>a (r, e). drop_member x e a) a es)
    \<and> links_ok (L(x := Map.empty)) (foldl (\<lambda>a (r, e). drop_member x e a) a es)
    \<and> (memb (foldl (\<lambda>a (r, e). drop_member x e a) a es) r' x' = (if x' = x then None else memb a r' x'))
    \<and> ad_sids (foldl (\<lambda>a (r, e). drop_member x e a) a es) = ad_sids a
    \<and> ad_socketByID (foldl (\<lambda>a (r, e). drop_member x e a) a es) = ad_socketByID a"
  using assms
proof (induction es arbitrary: a L)
  case Nil
  have "memb a r' x = None"
  proof (rule ccontr)
    assume some: "memb a r' x \<noteq> None"
    then obtain e where "map_of (ad_rooms a) r' = Some e" by (auto simp: memb_def split: option.splits)
    with some Nil.prems(2) have "L x r' = Some e" by (simp add: links_ok_memb)
    with Nil.prems(3) show False by simp
  qed
  moreover have "L(x := Map.empty) = L" using Nil.prems(3) by (simp add: fun_upd_idem_iff)
  ultimately show ?case using Nil.prems by simp
next
  case (Cons f es)
  obtain r e where f: "f = (r, e)" by (cases f)
  have "L x r = Some e" using Cons.prems(3) f by simp
  then have e: "map_of (ad_rooms a) r = Some e" using Cons.prems(2) by (simp add: links_ok_def)
  let ?a = "drop_member x e a"
  let ?L = "L(x := (L x)(r := None))"
  have "map_of es r = None" using Cons.prems(4) f by (simp add: wf_map_def map_of_eq_None_iff)
  then have "?L x = map_of es" using Cons.prems(3) f by (auto simp: fun_eq_iff)
  note IH = Cons.IH [OF drop_member_rooms_ok [OF Cons.prems(1) e, of x]
      drop_member_links_ok [OF Cons.prems(1) e Cons.prems(2), of x] this, unfolded fun_upd_upd]
  from IH Cons.prems(4) show ?case by (simp add: f wf_map_def drop_member_memb [OF Cons.prems(1) e])
qed

lemma removeSocket_spec:
  assumes "adapter_inv sid_of a"
  shows "adapter_inv sid_of (removeSocket x a)"
    "memb (removeSocket x a) r' x' = (if x' = x then None else memb a r' x')"
proof -
  let ?b = "foldl (\<lambda>a (r, e). drop_member x e a) a (sid_entries a x)"
  have parts: "rooms_ok sid_of a" "links_ok (link a) a" "index_ok sid_of a" using assms by (simp_all add: adapter_inv_def)
  have b: "rooms_ok sid_of ?b \<and> links_ok ((link a)(x := Map.empty)) ?b
      \<and> (memb ?b r' x' = (if x' = x then None else memb a r' x'))
      \<and> ad_sids ?b = ad_sids a \<and> ad_socketByID ?b = ad_socketByID a" for r' x'
    using parts by (intro drop_all) (simp_all add: link_def index_ok_def)
  have "link (removeSocket x a) = (link a)(x := Map.empty)"
    using b by (auto simp: removeSocket_def link_def sid_entries_def alist_simps fun_eq_iff)
  moreover have "index_ok sid_of (removeSocket x a)"
    using parts(3) b by (auto simp: removeSocket_def index_ok_def sid_entries_def alist_simps split: if_splits)
  ultimately show "adapter_inv sid_of (removeSocket x a)"
    using b by (simp add: adapter_inv_def removeSocket_def)
  show "memb (removeSocket x a) r' x' = (if x' = x then None else memb a r' x')"
    using b by (simp add: removeSocket_def)
qed

section \<open>Matching is exact\<close>

text \<open>A socket stands in a room.\<close>

definition hit :: "localAdapter \<Rightarrow> Room \<Rightarrow> sockref \<Rightarrow> bool" where
  "hit a r s \<longleftrightarrow> (\<exists>e. map_of (ad_rooms a) r = Some e \<and> s \<in> snd ` set (re_members (ad_heap a ! e)))"

lemma hit_memb:
  assumes "adapter_inv sid_of a"
  shows "hit a r s \<longleftrightarrow> memb a r (sid_of s) = Some s"
proof (cases "map_of (ad_rooms a) r")
  case (Some e)
  let ?m = "re_members (ad_heap a ! e)"
  have "wf_map ?m" and ids: "\<forall>x s. map_of ?m x = Some s \<longrightarrow> sid_of s = x"
    using assms Some by (auto simp: adapter_inv_def rooms_ok_def entry_ok_def)
  from \<open>wf_map ?m\<close> have "s \<in> snd ` set ?m \<longleftrightarrow> (\<exists>x. map_of ?m x = Some s)"
    by (force simp: wf_map_in_iff [symmetric])
  with ids have "s \<in> snd ` set ?m \<longleftrightarrow> map_of ?m (sid_of s) = Some s" by blast
  with Some show ?thesis by (simp add: hit_def memb_def)
qed (simp add: hit_def memb_def)

lemma mark_fold:
  "foldl (\<lambda>a s. a\<lparr>ad_except := (ad_except a)(s := token)\<rparr>) a ss =
     a\<lparr>ad_except := (\<lambda>s. if s \<in> set ss then token else ad_except a s)\<rparr>"
  by (induction ss arbitrary: a) (auto simp: fun_eq_iff)

lemma except_fold:
  "foldl (\<lambda>a room. case map_of (ad_rooms a) room of None \<Rightarrow> a | Some e \<Rightarrow> markExcept token a e) a rs =
     a\<lparr>ad_except := (\<lambda>s. if \<exists>r \<in> set rs. hit a r s then token else ad_except a s)\<rparr>"
proof (induction rs arbitrary: a)
  case (Cons r rs)
  have hits: "hit (a\<lparr>ad_except := f\<rparr>) = hit a" for f by (simp add: hit_def fun_eq_iff)
  show ?case
    by (cases "map_of (ad_rooms a) r")
      (auto simp: Cons.IH markExcept_def mark_fold hits fun_eq_iff hit_def [of a r] intro!: arg_cong [of _ _ "\<lambda>f. a\<lparr>ad_except := f\<rparr>"])
qed simp

text \<open>While \<^verbatim>\<open>apply\<close> collects: the sockets marked as seen are those collected.\<close>

definition collecting :: "u64 \<Rightarrow> localAdapter \<Rightarrow> sockref set \<Rightarrow> sockref list \<times> localAdapter \<Rightarrow> bool" where
  "collecting token a0 S st \<longleftrightarrow> (case st of (out, a) \<Rightarrow>
     distinct out \<and> set out = {s \<in> S. ad_except a0 s \<noteq> token} \<and> (\<forall>s. ad_seen a s = token \<longleftrightarrow> s \<in> set out)
     \<and> (\<forall>s. ad_seen a s = token \<or> ad_seen a s = ad_seen a0 s)
     \<and> a = a0\<lparr>ad_seen := ad_seen a\<rparr>)"

lemma match_step_collecting:
  assumes "collecting token a0 S st"
  shows "collecting token a0 (insert s S) (match_step token st s)"
proof -
  obtain out a where st: "st = (out, a)" by (cases st)
  have a: "a = a0\<lparr>ad_seen := ad_seen a\<rparr>" using assms st unfolding collecting_def by blast
  have ex: "ad_except a = ad_except a0" using arg_cong [OF a, of ad_except] by simp
  have upd: "a\<lparr>ad_seen := f\<rparr> = a0\<lparr>ad_seen := f\<rparr>" for f
    by (subst a) simp
  show ?thesis
    using assms ex
    by (auto simp: st collecting_def match_step_def upd)
qed

lemma match_fold_collecting:
  "collecting token a0 S st \<Longrightarrow> collecting token a0 (S \<union> set ss) (foldl (match_step token) st ss)"
proof (induction ss arbitrary: S st)
  case (Cons s ss)
  from Cons.IH [OF match_step_collecting [OF Cons.prems, of s]] show ?case by simp
qed simp

lemma rooms_fold_collecting:
  assumes "collecting token a0 S st"
  shows "collecting token a0 (S \<union> {s. \<exists>r \<in> set rs. hit a0 r s})
    (foldl (\<lambda>(out, a) room. case map_of (ad_rooms a) room of
        None \<Rightarrow> (out, a) | Some e \<Rightarrow> appendMatches token (out, a) e) st rs)"
  using assms
proof (induction rs arbitrary: S st)
  case (Cons r rs)
  obtain out a where st: "st = (out, a)" by (cases st)
  have a: "a = a0\<lparr>ad_seen := ad_seen a\<rparr>" using Cons.prems st unfolding collecting_def by blast
  have same: "ad_rooms a = ad_rooms a0" "ad_heap a = ad_heap a0"
    using arg_cong [OF a, of ad_rooms] arg_cong [OF a, of ad_heap] by simp_all
  show ?case
  proof (cases "map_of (ad_rooms a0) r")
    case None
    then have "\<not> hit a0 r s" for s by (simp add: hit_def)
    with Cons None st same show ?thesis by simp
  next
    case (Some e)
    let ?ss = "map snd (re_members (ad_heap a0 ! e))"
    have hits: "{s. hit a0 r s} = set ?ss" using Some by (auto simp: hit_def)
    have "S \<union> {s. \<exists>r' \<in> set (r # rs). hit a0 r' s} = (S \<union> set ?ss) \<union> {s. \<exists>r' \<in> set rs. hit a0 r' s}"
      using hits by auto
    with Cons.IH [OF match_fold_collecting [OF Cons.prems, of ?ss]] Some st same show ?thesis
      by (simp add: appendMatches_def)
  qed
qed simp

text \<open>No socket carries a token of the future.\<close>

definition tokens_ok :: "localAdapter \<Rightarrow> bool" where
  "tokens_ok a \<longleftrightarrow> (\<forall>s. ad_seen a s \<le> ad_epoch a \<and> ad_except a s \<le> ad_epoch a)"

definition selected :: "broadcastOptions \<Rightarrow> localAdapter \<Rightarrow> sockref \<Rightarrow> bool" where
  "selected opts a s \<longleftrightarrow>
     (if bo_Rooms opts \<noteq> [] then \<exists>r \<in> set (bo_Rooms opts). hit a r s else s \<in> snd ` set (ad_socketByID a))
     \<and> \<not> (\<exists>r \<in> set (bo_Except opts). hit a r s)"

lemma word_succ_greater: "x + 1 \<noteq> 0 \<Longrightarrow> x < x + (1 :: u64)"
  using inc_less_eq_triv_imp [of x] by (force simp: not_less [symmetric])

lemma wf_map_values_distinct:
  assumes "wf_map m" "\<And>x s. map_of m x = Some s \<Longrightarrow> f s = x"
  shows "distinct (map snd m)"
proof -
  have "map fst m = map f (map snd m)"
    using assms by (auto simp: wf_map_in_iff [symmetric])
  with assms(1) show ?thesis unfolding wf_map_def by (metis distinct_map)
qed

lemma adapter_apply_exact:
  assumes inv: "adapter_inv sid_of a" and tok: "tokens_ok a" and wrap: "ad_epoch a + 1 \<noteq> 0"
    and out: "adapter_apply opts a = (out, a')"
  shows "distinct out \<and> set out = {s. selected opts a s} \<and> tokens_ok a' \<and> ad_epoch a' = ad_epoch a + 1
    \<and> (\<exists>f g. a' = a\<lparr>ad_epoch := ad_epoch a + 1, ad_seen := f, ad_except := g\<rparr>)"
proof -
  define t where "t = ad_epoch a + 1"
  define ex where "ex = (\<lambda>s. if \<exists>r \<in> set (bo_Except opts). hit a r s then t else ad_except a s)"
  define a1 where "a1 = a\<lparr>ad_epoch := t, ad_except := ex\<rparr>"
  have less: "ad_epoch a < t" unfolding t_def using wrap by (rule word_succ_greater)
  have old: "ad_seen a s \<noteq> t" "ad_except a s \<noteq> t" for s
    using tok less unfolding tokens_ok_def by (metis leD)+
  have le: "ad_seen a s \<le> t" "ex s \<le> t" for s
    using tok less unfolding tokens_ok_def ex_def by (auto intro: order.strict_implies_order order.trans)
  have a1: "ad_seen a1 = ad_seen a" "ad_except a1 = ex" "ad_epoch a1 = t" "ad_socketByID a1 = ad_socketByID a" "hit a1 = hit a"
    by (simp_all add: a1_def hit_def fun_eq_iff)
  have marked: "ex s = t \<longleftrightarrow> (\<exists>r \<in> set (bo_Except opts). hit a r s)" for s
    using old(2) by (simp add: ex_def)
  have "hit (a\<lparr>ad_epoch := t\<rparr>) = hit a" by (simp add: hit_def fun_eq_iff)
  then have start: "foldl (\<lambda>a room. case map_of (ad_rooms a) room of None \<Rightarrow> a | Some e \<Rightarrow> markExcept t a e)
      (a\<lparr>ad_epoch := t\<rparr>) (bo_Except opts) = a1"
    by (simp add: except_fold a1_def ex_def cong: if_cong)
  show ?thesis
  proof (cases "bo_Rooms opts = []")
    case True
    then have eq: "out = filter (\<lambda>s. ex s \<noteq> t) (map snd (ad_socketByID a))" "a' = a1"
      using out start by (auto simp: adapter_apply_def Let_def a1 simp flip: t_def)
    have "distinct (map snd (ad_socketByID a))"
      using inv unfolding adapter_inv_def index_ok_def by (intro wf_map_values_distinct [of _ sid_of]) auto
    with eq True le have "distinct out" "set out = {s. selected opts a s}" "tokens_ok a'" "ad_epoch a' = t"
      by (auto simp: selected_def marked tokens_ok_def a1)
    moreover have "a' = a\<lparr>ad_epoch := ad_epoch a + 1, ad_seen := ad_seen a, ad_except := ex\<rparr>"
      by (simp add: eq(2) a1_def t_def)
    ultimately show ?thesis unfolding t_def by blast
  next
    case False
    have "collecting t a1 {} ([], a1)" using old(1) by (simp add: collecting_def a1)
    from rooms_fold_collecting [OF this, of "bo_Rooms opts"]
    have "collecting t a1 {s. \<exists>r \<in> set (bo_Rooms opts). hit a r s} (out, a')"
      using out start False by (simp add: adapter_apply_def Let_def a1 flip: t_def)
    then have c: "distinct out" "set out = {s \<in> {s. \<exists>r \<in> set (bo_Rooms opts). hit a r s}. ex s \<noteq> t}"
        "\<forall>s. ad_seen a' s = t \<or> ad_seen a' s = ad_seen a s" and a': "a' = a1\<lparr>ad_seen := ad_seen a'\<rparr>"
      unfolding collecting_def prod.case a1 by blast+
    have all: "distinct out" "set out = {s. selected opts a s}" "\<forall>s. ad_seen a' s = t \<or> ad_seen a' s = ad_seen a s"
      using c False by (simp_all add: marked selected_def)
    have parts: "ad_epoch a' = t" "ad_except a' = ex" by (subst a', simp add: a1)+
    have "tokens_ok a'" unfolding tokens_ok_def parts using all(3) le by (metis order.refl)
    moreover have "a' = a\<lparr>ad_epoch := ad_epoch a + 1, ad_seen := ad_seen a', ad_except := ex\<rparr>"
      by (subst a') (simp add: a1_def t_def)
    ultimately show ?thesis using all(1,2) parts(1) unfolding t_def by blast
  qed
qed

lemma match_fold_frame: "\<exists>f. snd (foldl (match_step t) st ss) = (snd st)\<lparr>ad_seen := f\<rparr>"
proof (induction ss arbitrary: st)
  case Nil
  have "snd st = (snd st)\<lparr>ad_seen := ad_seen (snd st)\<rparr>" by simp
  then show ?case by (metis foldl_Nil)
next
  case (Cons s ss)
  have "\<exists>f. snd (match_step t st s) = (snd st)\<lparr>ad_seen := f\<rparr>"
    by (cases st) (auto simp: match_step_def intro: exI [of _ "ad_seen (snd st)"])
  with Cons.IH [of "match_step t st s"] show ?case by auto
qed

lemma rooms_fold_frame:
  "\<exists>f. snd (foldl (\<lambda>(out, a) room. case map_of (ad_rooms a) room of
      None \<Rightarrow> (out, a) | Some e \<Rightarrow> appendMatches t (out, a) e) st rs) = (snd st)\<lparr>ad_seen := f\<rparr>"
proof (induction rs arbitrary: st)
  case Nil
  have "snd st = (snd st)\<lparr>ad_seen := ad_seen (snd st)\<rparr>" by simp
  then show ?case by (metis foldl_Nil)
next
  case (Cons r rs)
  obtain out b where st: "st = (out, b)" by (cases st)
  show ?case
  proof (cases "map_of (ad_rooms b) r")
    case None
    with Cons.IH [of st] st show ?thesis by simp
  next
    case (Some e)
    with Cons.IH [of "appendMatches t st e"] match_fold_frame [of t st "map snd (re_members (ad_heap b ! e))"] st show ?thesis
      by (auto simp: appendMatches_def)
  qed
qed

lemma adapter_apply_frame:
  "\<exists>f g. snd (adapter_apply opts a) = a\<lparr>ad_epoch := ad_epoch a + 1, ad_seen := f, ad_except := g\<rparr>"
proof -
  let ?t = "ad_epoch a + 1"
  obtain g where a1: "foldl (\<lambda>a room. case map_of (ad_rooms a) room of None \<Rightarrow> a | Some e \<Rightarrow> markExcept ?t a e)
      (a\<lparr>ad_epoch := ?t\<rparr>) (bo_Except opts) = a\<lparr>ad_epoch := ?t, ad_except := g\<rparr>"
    by (rule that) (rule except_fold)
  show ?thesis
  proof (cases "bo_Rooms opts = []")
    case True
    have "snd (adapter_apply opts a) = a\<lparr>ad_epoch := ?t, ad_except := g\<rparr>"
      using True by (simp add: adapter_apply_def Let_def a1)
    then have "snd (adapter_apply opts a) = a\<lparr>ad_epoch := ?t, ad_seen := ad_seen a, ad_except := g\<rparr>" by simp
    then show ?thesis by blast
  next
    case False
    obtain f where "snd (adapter_apply opts a) = a\<lparr>ad_epoch := ?t, ad_except := g, ad_seen := f\<rparr>"
      using rooms_fold_frame [of ?t "([], a\<lparr>ad_epoch := ?t, ad_except := g\<rparr>)" "bo_Rooms opts"] False
      by (auto simp: adapter_apply_def Let_def a1)
    then have "snd (adapter_apply opts a) = a\<lparr>ad_epoch := ?t, ad_seen := f, ad_except := g\<rparr>" by simp
    then show ?thesis by blast
  qed
qed

lemma adapter_inv_tokens:
  "adapter_inv sid_of (a\<lparr>ad_epoch := n, ad_seen := f, ad_except := g\<rparr>) = adapter_inv sid_of a"
  "memb (a\<lparr>ad_epoch := n, ad_seen := f, ad_except := g\<rparr>) = memb a"
proof -
  have "sid_entries (a\<lparr>ad_epoch := n, ad_seen := f, ad_except := g\<rparr>) = sid_entries a"
    by (simp add: sid_entries_def fun_eq_iff)
  then show "adapter_inv sid_of (a\<lparr>ad_epoch := n, ad_seen := f, ad_except := g\<rparr>) = adapter_inv sid_of a"
    by (simp add: adapter_inv_def rooms_ok_def entry_ok_def links_ok_def index_ok_def link_def)
  show "memb (a\<lparr>ad_epoch := n, ad_seen := f, ad_except := g\<rparr>) = memb a"
    by (auto simp: memb_def fun_eq_iff split: option.splits)
qed

section \<open>Runs of an adapter\<close>

datatype adapter_op =
    AddSocket sockref | RemoveSocket SocketID | Join sockref "Room list" | JoinOwned sockref "Room list"
  | Leave sockref Room | Apply broadcastOptions

fun adapter_step :: "(sockref \<Rightarrow> SocketID) \<Rightarrow> localAdapter \<Rightarrow> adapter_op \<Rightarrow> localAdapter" where
  "adapter_step sid_of a (AddSocket s) = addSocket sid_of s a"
| "adapter_step sid_of a (RemoveSocket x) = removeSocket x a"
| "adapter_step sid_of a (Join s rooms) = addAll (sid_of s) s rooms a"
| "adapter_step sid_of a (JoinOwned s rooms) = addAllOwned (sid_of s) s rooms a"
| "adapter_step sid_of a (Leave s room) = adapter_delete (sid_of s) room a"
| "adapter_step sid_of a (Apply opts) = snd (adapter_apply opts a)"

lemma adapter_step_inv: "adapter_inv sid_of a \<Longrightarrow> adapter_inv sid_of (adapter_step sid_of a x)"
proof (cases x)
  case (Apply opts)
  moreover assume "adapter_inv sid_of a"
  ultimately show ?thesis using adapter_apply_frame [of opts a] by (auto simp: adapter_inv_tokens)
qed (simp_all add: addSocket_spec removeSocket_spec addAll_def addAllOwned_def addAllWithRoomOwnership_spec adapter_delete_inv)

lemma adapter_init_inv: "adapter_inv sid_of newLocalAdapter"
  by (simp add: newLocalAdapter_def adapter_inv_def rooms_ok_def links_ok_def index_ok_def link_def sid_entries_def)

lemma adapter_init_tokens: "tokens_ok newLocalAdapter" "ad_epoch newLocalAdapter = of_nat 0"
  by (simp_all add: newLocalAdapter_def tokens_ok_def)

interpretation adapter: component newLocalAdapter "adapter_step sid_of" "adapter_inv sid_of" for sid_of
  by unfold_locales (rule adapter_init_inv, rule adapter_step_inv)

section \<open>Reachable adapters\<close>

text \<open>The specification: a table of memberships, changed by each operation in the obvious way.\<close>

fun memb_step ::
    "(sockref \<Rightarrow> SocketID) \<Rightarrow> (Room \<Rightarrow> SocketID \<Rightarrow> sockref option) \<Rightarrow> adapter_op \<Rightarrow> Room \<Rightarrow> SocketID \<Rightarrow> sockref option" where
  "memb_step sid_of M (AddSocket s) = (\<lambda>r x. if r = sid_of s \<and> x = sid_of s then Some s else M r x)"
| "memb_step sid_of M (RemoveSocket y) = (\<lambda>r x. if x = y then None else M r x)"
| "memb_step sid_of M (Join s rooms) = (\<lambda>r x. if r \<in> set rooms \<and> x = sid_of s then Some s else M r x)"
| "memb_step sid_of M (JoinOwned s rooms) = (\<lambda>r x. if r \<in> set rooms \<and> x = sid_of s then Some s else M r x)"
| "memb_step sid_of M (Leave s room) = (\<lambda>r x. if r = room \<and> x = sid_of s then None else M r x)"
| "memb_step sid_of M (Apply opts) = M"

lemma adapter_step_memb:
  assumes "adapter_inv sid_of a"
  shows "memb (adapter_step sid_of a x) = memb_step sid_of (memb a) x"
proof (cases x)
  case (Apply opts)
  then show ?thesis using adapter_apply_frame [of opts a] by (auto simp: adapter_inv_tokens)
qed (use assms in \<open>simp_all add: fun_eq_iff addSocket_spec removeSocket_spec addAll_def addAllOwned_def
      addAllWithRoomOwnership_spec adapter_delete_memb\<close>)

lemma adapter_run_memb:
  "adapter_inv sid_of a \<Longrightarrow>
   memb (run_ops (adapter_step sid_of) a ops) = run_ops (memb_step sid_of) (memb a) ops"
  by (induction ops arbitrary: a) (simp_all add: adapter_step_memb adapter_step_inv)

text \<open>Only \<open>apply\<close> touches the tokens.\<close>

definition same_tokens :: "localAdapter \<Rightarrow> localAdapter \<Rightarrow> bool" where
  "same_tokens a b \<longleftrightarrow> ad_epoch b = ad_epoch a \<and> ad_seen b = ad_seen a \<and> ad_except b = ad_except a"

lemma same_tokens_refl [simp]: "same_tokens a a"
  by (simp add: same_tokens_def)

lemma same_tokens_foldl:
  "(\<And>a x. same_tokens a (f a x)) \<Longrightarrow> same_tokens a (foldl f a xs)"
  by (induction xs arbitrary: a) (auto simp: same_tokens_def)

lemma join_room_tokens: "same_tokens a (join_room x s owned a r)"
  by (cases "map_of (ad_rooms a) r") (simp_all add: join_room_new join_room_existing same_tokens_def)

lemma addAllWithRoomOwnership_tokens: "same_tokens a (addAllWithRoomOwnership x s rs owned a)"
proof -
  have "same_tokens b (foldl (join_room x s owned) b rs)" for b
    by (rule same_tokens_foldl) (rule join_room_tokens)
  from this [of a] this [of "a\<lparr>ad_sids := AList.update x [] (ad_sids a)\<rparr>"] show ?thesis
    by (simp add: addAllWithRoomOwnership_def same_tokens_def)
qed

lemma removeSocket_tokens: "same_tokens a (removeSocket x a)"
proof -
  have "same_tokens a (foldl (\<lambda>a (r, e). drop_member x e a) a (sid_entries a x))"
    by (rule same_tokens_foldl) (auto simp: same_tokens_def)
  then show ?thesis by (simp add: removeSocket_def Let_def same_tokens_def)
qed

lemma adapter_delete_tokens: "same_tokens a (adapter_delete x r a)"
  by (simp add: adapter_delete_def same_tokens_def split: option.splits)

lemma addSocket_tokens: "same_tokens a (addSocket sid_of s a)"
  using addAllWithRoomOwnership_tokens [of "a\<lparr>ad_socketByID := AList.update (sid_of s) s (ad_socketByID a)\<rparr>"]
  by (simp add: addSocket_def addAll_def same_tokens_def)

lemmas step_tokens = addAllWithRoomOwnership_tokens removeSocket_tokens adapter_delete_tokens addSocket_tokens

lemma adapter_run_tokens:
  assumes "adapter_inv sid_of a" "tokens_ok a" "ad_epoch a = of_nat n" "n + length ops < 2 ^ 64"
  shows "tokens_ok (run_ops (adapter_step sid_of) a ops)
    \<and> (\<exists>k \<le> n + length ops. ad_epoch (run_ops (adapter_step sid_of) a ops) = of_nat k)"
  using assms
proof (induction ops arbitrary: a n)
  case (Cons x xs)
  have small: "unat (of_nat m :: u64) = m" if "m < 2 ^ 64" for m
    using that by (simp add: unsigned_of_nat take_bit_nat_eq_self)
  have "\<exists>m \<le> Suc n. tokens_ok (adapter_step sid_of a x) \<and> ad_epoch (adapter_step sid_of a x) = of_nat m"
  proof (cases "\<exists>opts. x = Apply opts")
    case True
    then obtain opts where x: "x = Apply opts" by blast
    have "(of_nat (Suc n) :: u64) \<noteq> 0" using small [of "Suc n"] Cons.prems(4) by auto
    then have "ad_epoch a + 1 \<noteq> 0" using Cons.prems(3) by (simp add: add.commute)
    from adapter_apply_exact [OF Cons.prems(1,2) this, of opts "fst (adapter_apply opts a)" "snd (adapter_apply opts a)"]
    have "tokens_ok (snd (adapter_apply opts a))" "ad_epoch (snd (adapter_apply opts a)) = of_nat (Suc n)"
      using Cons.prems(3) by (simp_all add: add.commute)
    then show ?thesis unfolding x by (intro exI [of _ "Suc n"]) simp
  next
    case False
    then have "same_tokens a (adapter_step sid_of a x)"
      by (cases x) (auto simp: addAll_def addAllOwned_def step_tokens)
    with Cons.prems(2,3) show ?thesis
      by (intro exI [of _ n]) (simp add: same_tokens_def tokens_ok_def)
  qed
  then obtain m where m: "m \<le> Suc n" "tokens_ok (adapter_step sid_of a x)" "ad_epoch (adapter_step sid_of a x) = of_nat m"
    by blast
  from Cons.IH [OF adapter_step_inv [OF Cons.prems(1)] m(2,3)] m(1) Cons.prems(4)
  obtain k where "k \<le> m + length xs" "tokens_ok (run_ops (adapter_step sid_of) a (x # xs))"
      "ad_epoch (run_ops (adapter_step sid_of) a (x # xs)) = of_nat k" by auto
  then show ?case using m(1) by (intro conjI exI [of _ k]) auto
qed auto

abbreviation reached :: "(sockref \<Rightarrow> SocketID) \<Rightarrow> adapter_op list \<Rightarrow> localAdapter" where
  "reached sid_of ops \<equiv> run_ops (adapter_step sid_of) newLocalAdapter ops"

abbreviation spec_members :: "(sockref \<Rightarrow> SocketID) \<Rightarrow> adapter_op list \<Rightarrow> Room \<Rightarrow> SocketID \<Rightarrow> sockref option" where
  "spec_members sid_of ops \<equiv> run_ops (memb_step sid_of) (\<lambda>_ _. None) ops"

lemma reached_memb: "memb (reached sid_of ops) = spec_members sid_of ops"
proof -
  have "memb newLocalAdapter = (\<lambda>_ _. None)" by (simp add: memb_def newLocalAdapter_def fun_eq_iff)
  then show ?thesis using adapter_run_memb [OF adapter_init_inv, of sid_of ops] by simp
qed

lemma socketRooms_names:
  assumes "adapter_inv sid_of a"
  shows "socketRooms x a = map fst (sid_entries a x)"
proof -
  have "re_name (ad_heap a ! e) = r" if "(r, e) \<in> set (sid_entries a x)" for r e
  proof -
    have "link a x r = Some e" using that assms by (simp add: link_def adapter_inv_def index_ok_def wf_map_in_iff)
    then have "map_of (ad_rooms a) r = Some e" using assms by (simp add: adapter_inv_def links_ok_def)
    then show ?thesis using assms by (simp add: adapter_inv_def rooms_ok_def entry_ok_def)
  qed
  then show ?thesis by (auto simp: socketRooms_def)
qed

lemma memb_link:
  assumes "adapter_inv sid_of a"
  shows "memb a r x \<noteq> None \<longleftrightarrow> link a x r \<noteq> None"
  using assms unfolding adapter_inv_def links_ok_memb
  by (metis memb_def not_None_eq option.case_eq_if)

lemma unat_of_nat_small: "n < 2 ^ 64 \<Longrightarrow> unat (of_nat n :: u64) = n"
  by (simp add: unsigned_of_nat take_bit_nat_eq_self)

lemma members_card: "wf_map m \<Longrightarrow> length m = card {x. map_of m x \<noteq> None}"
  by (simp add: wf_map_values_card dom_def)

lemma stats_count:
  assumes inv: "adapter_inv sid_of a"
  shows "length (ad_rooms a) = card {r. \<exists>x. memb a r x \<noteq> None}"
    "sum_list (map (\<lambda>(_, e). length (re_members (ad_heap a ! e))) (ad_rooms a)) = card {(r, x). memb a r x \<noteq> None}"
proof -
  have wf: "wf_map (ad_rooms a)" and ok: "\<And>r e. (r, e) \<in> set (ad_rooms a) \<Longrightarrow> entry_ok sid_of a r e"
    using inv by (auto simp: adapter_inv_def rooms_ok_def wf_map_in_iff)
  have "(\<exists>x. memb a r x \<noteq> None) \<longleftrightarrow> map_of (ad_rooms a) r \<noteq> None" for r
  proof (cases "map_of (ad_rooms a) r")
    case (Some e)
    with inv have "re_members (ad_heap a ! e) \<noteq> []" by (simp add: adapter_inv_def rooms_ok_def entry_ok_def)
    then obtain x s rest where "re_members (ad_heap a ! e) = (x, s) # rest" by (metis list.exhaust prod.exhaust)
    with Some show ?thesis by (auto simp: memb_def)
  qed (simp add: memb_def)
  then show "length (ad_rooms a) = card {r. \<exists>x. memb a r x \<noteq> None}"
    using members_card [OF wf] by simp
  let ?R = "fst ` set (ad_rooms a)"
  let ?X = "\<lambda>r. {x. memb a r x \<noteq> None}"
  have X: "card (?X r) = length (re_members (ad_heap a ! e))" "finite (?X r)" if "(r, e) \<in> set (ad_rooms a)" for r e
  proof -
    have "map_of (ad_rooms a) r = Some e" using that wf by (simp add: wf_map_in_iff)
    then have eq: "?X r = {x. map_of (re_members (ad_heap a ! e)) x \<noteq> None}" by (simp add: memb_def)
    show "card (?X r) = length (re_members (ad_heap a ! e))"
      using ok [OF that] unfolding eq entry_ok_def by (intro members_card [symmetric]) blast
    show "finite (?X r)" unfolding eq using finite_dom_map_of [of "re_members (ad_heap a ! e)"] by (simp add: dom_def)
  qed
  have Sigma: "{(r, x). memb a r x \<noteq> None} = Sigma ?R ?X"
    by (auto simp: memb_def split: option.splits dest: map_of_SomeD intro: rev_image_eqI)
  have "card (Sigma ?R ?X) = (\<Sum>r \<in> ?R. card (?X r))"
    using X by (intro card_SigmaI) auto
  also have "\<dots> = (\<Sum>p \<in> set (ad_rooms a). card (?X (fst p)))"
    using wf sum.reindex [of fst "set (ad_rooms a)" "\<lambda>r. card (?X r)"] by (simp add: wf_map_def distinct_map)
  also have "\<dots> = sum_list (map (\<lambda>p. card (?X (fst p))) (ad_rooms a))"
    using wf by (simp add: wf_map_def distinct_map sum_list_distinct_conv_sum_set)
  also have "\<dots> = sum_list (map (\<lambda>(_, e). length (re_members (ad_heap a ! e))) (ad_rooms a))"
    using X by (intro arg_cong [of _ _ sum_list]) auto
  finally show "sum_list (map (\<lambda>(_, e). length (re_members (ad_heap a ! e))) (ad_rooms a)) = card {(r, x). memb a r x \<noteq> None}"
    by (simp only: Sigma)
qed

lemma apply_selected:
  fixes sid_of :: "sockref \<Rightarrow> SocketID" and ops :: "adapter_op list" and opts :: broadcastOptions and s :: sockref
  assumes "length ops + 1 < 2 ^ 64"
  defines "a \<equiv> reached sid_of ops" and "M \<equiv> spec_members sid_of ops"
  defines "out \<equiv> fst (adapter_apply opts a)"
  shows "distinct out
    \<and> (s \<in> set out \<longleftrightarrow>
        (if bo_Rooms opts \<noteq> [] then \<exists>r \<in> set (bo_Rooms opts). M r (sid_of s) = Some s
         else map_of (ad_socketByID a) (sid_of s) = Some s)
        \<and> \<not> (\<exists>r \<in> set (bo_Except opts). M r (sid_of s) = Some s))"
proof -
  have inv: "adapter_inv sid_of a" unfolding a_def by (rule adapter.inv_run)
  have M: "memb a = M" unfolding a_def M_def by (rule reached_memb)
  obtain k where k: "tokens_ok a" "k \<le> length ops" "ad_epoch a = of_nat k"
    using adapter_run_tokens [OF adapter_init_inv adapter_init_tokens, of ops sid_of] assms(1) by (auto simp: a_def)
  have "unat (of_nat (Suc k) :: u64) = Suc k"
    using k(2) assms(1) by (intro unat_of_nat_small) simp
  then have "ad_epoch a + 1 \<noteq> 0" using k(3) by (auto simp: add.commute)
  from adapter_apply_exact [OF inv k(1) this, of opts out "snd (adapter_apply opts a)"]
  have out: "distinct out" "set out = {s. selected opts a s}" by (simp_all add: out_def)
  have "s \<in> snd ` set (ad_socketByID a) \<longleftrightarrow> map_of (ad_socketByID a) (sid_of s) = Some s"
    using inv unfolding adapter_inv_def index_ok_def by (force simp: wf_map_in_iff [symmetric])
  with out show ?thesis by (simp add: selected_def hit_memb [OF inv] M)
qed

lemma reached_rooms:
  "distinct (socketRooms x (reached sid_of ops))
   \<and> set (socketRooms x (reached sid_of ops)) = {r. spec_members sid_of ops r x \<noteq> None}"
proof -
  have inv: "adapter_inv sid_of (reached sid_of ops)" by (rule adapter.inv_run)
  have "{r. spec_members sid_of ops r x \<noteq> None} = {r. link (reached sid_of ops) x r \<noteq> None}"
    unfolding reached_memb [symmetric] memb_link [OF inv] ..
  also have "\<dots> = fst ` set (sid_entries (reached sid_of ops) x)"
    unfolding link_def map_of_eq_None_iff by blast
  finally show ?thesis using inv
    by (simp add: socketRooms_names [OF inv]) (simp add: adapter_inv_def index_ok_def wf_map_def)
qed

section \<open>What the adapter guarantees\<close>

text \<open>
  (C2) The room index refines a membership table: after any sequence of operations, the sockets found
  through \<open>rooms\<close> are those of the table, and \<open>sids\<close>, entry names and the heap of shared entries agree with it
  (no entry is left behind empty, none is reached after its release).
\<close>

theorem adapter_refines_membership:
  "memb (reached sid_of ops) = spec_members sid_of ops \<and> adapter_inv sid_of (reached sid_of ops)"
  using reached_memb adapter.inv_run by blast

text \<open>
  (C7) Broadcasts reach exactly the sockets selected: in every state reached by fewer than \<open>2^64 - 1\<close>
  operations, \<open>apply\<close> visits no socket twice, and visits a socket exactly when it stands in one of the named rooms (in
  the namespace when no room is named) and in none of the excepted rooms.
\<close>

theorem apply_visits_exactly_selected:
  fixes sid_of :: "sockref \<Rightarrow> SocketID" and ops :: "adapter_op list" and opts :: broadcastOptions and s :: sockref
  assumes "length ops + 1 < 2 ^ 64"
  defines "a \<equiv> reached sid_of ops" and "M \<equiv> spec_members sid_of ops"
  defines "out \<equiv> fst (adapter_apply opts a)"
  shows "distinct out
    \<and> (s \<in> set out \<longleftrightarrow>
        (if bo_Rooms opts \<noteq> [] then \<exists>r \<in> set (bo_Rooms opts). M r (sid_of s) = Some s
         else map_of (ad_socketByID a) (sid_of s) = Some s)
        \<and> \<not> (\<exists>r \<in> set (bo_Except opts). M r (sid_of s) = Some s))"
  using apply_selected [OF assms(1)] unfolding a_def M_def out_def .

text \<open>
  A socket knows its rooms: \<open>socketRooms\<close> lists, without repetition, exactly the rooms in which the
  membership table has the socket.
\<close>

theorem socket_rooms_exact:
  "distinct (socketRooms x (reached sid_of ops))
   \<and> set (socketRooms x (reached sid_of ops)) = {r. spec_members sid_of ops r x \<noteq> None}"
  by (rule reached_rooms)

text \<open>
  The gauges are exact: the rooms counted by \<open>stats\<close> are the rooms that have a member, the
  memberships counted are the entries of the membership table.
\<close>

theorem stats_exact:
  "snd (adapter_stats (reached sid_of ops)) =
     (card {r. \<exists>x. spec_members sid_of ops r x \<noteq> None}, card {(r, x). spec_members sid_of ops r x \<noteq> None})"
proof -
  let ?a = "reached sid_of ops"
  have inv: "adapter_inv sid_of ?a" by (rule adapter.inv_run)
  then show ?thesis using stats_count [OF inv] by (simp add: adapter_stats_def reached_memb)
qed

section \<open>Witnesses\<close>

definition sample_ids :: "sockref \<Rightarrow> SocketID" where
  "sample_ids s = (if s = 0 then ''a'' else if s = 1 then ''b'' else ''c'')"

theorem apply_visits_exactly_selected_witness:
  "distinct (fst (adapter_apply \<lparr>bo_Rooms = [''x'', ''y''], bo_Except = [''b''], bo_Local = False\<rparr>
      (reached sample_ids [AddSocket 0, AddSocket 1, Join 0 [''x'', ''y''], Join 1 [''x'']])))
   \<and> 0 \<in> set (fst (adapter_apply \<lparr>bo_Rooms = [''x'', ''y''], bo_Except = [''b''], bo_Local = False\<rparr>
      (reached sample_ids [AddSocket 0, AddSocket 1, Join 0 [''x'', ''y''], Join 1 [''x'']])))
   \<and> 1 \<notin> set (fst (adapter_apply \<lparr>bo_Rooms = [''x'', ''y''], bo_Except = [''b''], bo_Local = False\<rparr>
      (reached sample_ids [AddSocket 0, AddSocket 1, Join 0 [''x'', ''y''], Join 1 [''x'']])))"
  using apply_visits_exactly_selected [of "[AddSocket 0, AddSocket 1, Join 0 [''x'', ''y''], Join 1 [''x'']]"
      "\<lparr>bo_Rooms = [''x'', ''y''], bo_Except = [''b''], bo_Local = False\<rparr>" sample_ids 0]
    apply_visits_exactly_selected [of "[AddSocket 0, AddSocket 1, Join 0 [''x'', ''y''], Join 1 [''x'']]"
      "\<lparr>bo_Rooms = [''x'', ''y''], bo_Except = [''b''], bo_Local = False\<rparr>" sample_ids 1]
  by (auto simp: sample_ids_def)

end
