(* ===== verification/Recovery.thy ===== *)
theory Recovery
  imports AckStore Adapter
begin

text \<open>
  Connection state recovery: \<open>recoveryStore\<close> of \<^verbatim>\<open>recovery.go\<close>.

  The log keeps copies of broadcast packets, the sessions of sockets that lost their transport.
  The byte buffers behind them are owned by the store and copied on the way in and out; a
  buffer is modelled by its contents, and \<open>release\<close>, which only returns buffers of dropped records to the
  pool, by dropping the record. The clock is an argument of every operation that reads it.
\<close>

section \<open>State\<close>

record recoveryPacket =
  rp_namespace :: bytes
  rp_offset :: bytes
  rp_offsetSeq :: u64
  rp_opts :: broadcastOptions
  rp_packet :: bytes
  rp_attachments :: "bytes list"
  rp_releaseAfterSend :: bool
  rp_createdAt :: time

record recoverySession =
  rs_namespace :: bytes
  rs_pid :: bytes
  rs_sid :: SocketID
  rs_rooms :: "Room list"
  rs_expiresAt :: time

record recoveryStore =
  st_maxAge :: int
  st_next :: u64
  st_sessions :: "(bytes \<times> recoverySession) list"
  st_packets :: "recoveryPacket list"

definition newRecoveryStore :: "int \<Rightarrow> recoveryStore" where
  "newRecoveryStore maxAge = \<lparr>st_maxAge = maxAge, st_next = 0, st_sessions = [], st_packets = []\<rparr>"

section \<open>Operations\<close>

text \<open>\<open>now\<close> is \<^verbatim>\<open>uint64(time.Now().UnixNano())\<close>.\<close>

definition nextOffset :: "u64 \<Rightarrow> recoveryStore \<Rightarrow> bytes \<times> recoveryStore" where
  "nextOffset now s =
     (let n = (if now > st_next s then now else st_next s + 1) in (format_uint n, s\<lparr>st_next := n\<rparr>))"

text \<open>The filter over \<^verbatim>\<open>s.packets[:0]\<close> and the deletion loop over the sessions.\<close>

definition pruneLocked :: "time \<Rightarrow> recoveryStore \<Rightarrow> recoveryStore" where
  "pruneLocked now s =
     s\<lparr>st_packets := compacted (\<lambda>p. now - st_maxAge s < rp_createdAt p) (st_packets s),
       st_sessions := foldl (\<lambda>m (key, session). if now > rs_expiresAt session then AList.delete key m else m)
         (st_sessions s) (st_sessions s)\<rparr>"

definition recovery_log ::
    "bytes \<Rightarrow> broadcastOptions \<Rightarrow> bytes \<Rightarrow> bytes \<Rightarrow> bytes list \<Rightarrow> time \<Rightarrow> recoveryStore \<Rightarrow> recoveryStore" where
  "recovery_log namespace opts offset packet attachments now s =
     (case parse_uint offset of
        None \<Rightarrow> s
      | Some seq \<Rightarrow>
          (let item = \<lparr>rp_namespace = namespace, rp_offset = offset, rp_offsetSeq = seq, rp_opts = opts,
                       rp_packet = packet, rp_attachments = attachments, rp_releaseAfterSend = False,
                       rp_createdAt = now\<rparr>
           in pruneLocked now (s\<lparr>st_packets := st_packets s @ [item]\<rparr>)))"

definition recoveryKey :: "bytes \<Rightarrow> bytes \<Rightarrow> bytes" where
  "recoveryKey namespace pid = namespace @ [CHR 0x00] @ pid"

definition newRecoverySession ::
    "bytes \<Rightarrow> bytes \<Rightarrow> SocketID \<Rightarrow> Room list \<Rightarrow> time \<Rightarrow> recoverySession" where
  "newRecoverySession namespace pid sid rooms expiresAt =
     \<lparr>rs_namespace = namespace, rs_pid = pid, rs_sid = sid, rs_rooms = rooms, rs_expiresAt = expiresAt\<rparr>"

definition recovery_save ::
    "bytes \<Rightarrow> bytes \<Rightarrow> SocketID \<Rightarrow> Room list \<Rightarrow> time \<Rightarrow> recoveryStore \<Rightarrow> recoveryStore" where
  "recovery_save namespace pid sid rooms now s =
     (if pid = [] then s
      else pruneLocked now
        (s\<lparr>st_sessions := AList.update (recoveryKey namespace pid)
             (newRecoverySession namespace pid sid rooms (now + st_maxAge s)) (st_sessions s)\<rparr>))"

definition recoveryPacketMatches :: "broadcastOptions \<Rightarrow> Room list \<Rightarrow> bool" where
  "recoveryPacketMatches opts rooms =
     (if list_ex (\<lambda>room. room \<in> set rooms) (bo_Except opts) then False
      else if bo_Rooms opts = [] then True
      else list_ex (\<lambda>room. room \<in> set rooms) (bo_Rooms opts))"

definition cloneForReplay :: "recoveryPacket \<Rightarrow> recoveryPacket" where
  "cloneForReplay p = p\<lparr>rp_releaseAfterSend := True\<rparr>"

definition session_clone :: "recoverySession \<Rightarrow> recoverySession" where
  "session_clone s = newRecoverySession (rs_namespace s) (rs_pid s) (rs_sid s) (rs_rooms s) (rs_expiresAt s)"

definition recoverWithConsume ::
    "bytes \<Rightarrow> bytes \<Rightarrow> bytes \<Rightarrow> time \<Rightarrow> bool \<Rightarrow> recoveryStore
     \<Rightarrow> (recoverySession \<times> recoveryPacket list) option \<times> recoveryStore" where
  "recoverWithConsume namespace pid offset now consume s =
     (case parse_uint offset of
        None \<Rightarrow> (None, s)
      | Some seq \<Rightarrow>
          if pid = [] then (None, s)
          else (let key = recoveryKey namespace pid; s1 = pruneLocked now s in
            case map_of (st_sessions s1) key of
              None \<Rightarrow> (None, s1)
            | Some session \<Rightarrow>
                if now > rs_expiresAt session
                then (None, s1\<lparr>st_sessions := AList.delete key (st_sessions s1)\<rparr>)
                else (let s2 = (if consume then s1\<lparr>st_sessions := AList.delete key (st_sessions s1)\<rparr> else s1);
                          packets = map cloneForReplay (filter (\<lambda>p. \<not> (rp_namespace p \<noteq> namespace \<or> rp_offsetSeq p \<le> seq)
                                       \<and> recoveryPacketMatches (rp_opts p) (rs_rooms session)) (st_packets s2))
                      in (Some (if consume then session else session_clone session, packets), s2))))"

definition recovery_recover ::
    "bytes \<Rightarrow> bytes \<Rightarrow> bytes \<Rightarrow> time \<Rightarrow> recoveryStore \<Rightarrow> (recoverySession \<times> recoveryPacket list) option \<times> recoveryStore" where
  "recovery_recover namespace pid offset now s = recoverWithConsume namespace pid offset now True s"

definition recovery_snapshot ::
    "bytes \<Rightarrow> bytes \<Rightarrow> bytes \<Rightarrow> time \<Rightarrow> recoveryStore \<Rightarrow> (recoverySession \<times> recoveryPacket list) option \<times> recoveryStore" where
  "recovery_snapshot namespace pid offset now s = recoverWithConsume namespace pid offset now False s"

definition deleteSession :: "bytes \<Rightarrow> bytes \<Rightarrow> recoveryStore \<Rightarrow> recoveryStore" where
  "deleteSession namespace pid s =
     (let key = recoveryKey namespace pid in
      if map_of (st_sessions s) key \<noteq> None
      then s\<lparr>st_sessions := AList.delete key (st_sessions s)\<rparr> else s)"

section \<open>Pruning\<close>

lemma prune_sessions_fold:
  "foldl (\<lambda>m (key, session). if now > rs_expiresAt session then AList.delete key m else m) m0 es =
     filter (\<lambda>e. fst e \<notin> fst ` set (filter (\<lambda>e. now > rs_expiresAt (snd e)) es)) m0"
proof (induction es arbitrary: m0)
  case (Cons e es)
  obtain k s where "e = (k, s)" by (cases e)
  then show ?case
    by (auto simp: Cons.IH AList.delete_eq intro!: filter_cong)
qed simp

lemma pruneLocked_sessions:
  "wf_map (st_sessions s) \<Longrightarrow>
   st_sessions (pruneLocked now s) = filter (\<lambda>e. \<not> now > rs_expiresAt (snd e)) (st_sessions s)"
  using filter_keys_wf [of "st_sessions s" "\<lambda>e. now > rs_expiresAt (snd e)"]
  by (simp only: pruneLocked_def prune_sessions_fold) simp

lemma pruneLocked_packets [simp]:
  "st_packets (pruneLocked now s) = filter (\<lambda>p. now - st_maxAge s < rp_createdAt p) (st_packets s)"
  by (simp add: pruneLocked_def)

lemma pruneLocked_frame [simp]:
  "st_maxAge (pruneLocked now s) = st_maxAge s" "st_next (pruneLocked now s) = st_next s"
  by (simp_all add: pruneLocked_def)

lemma pruneLocked_wf [simp]: "wf_map (st_sessions s) \<Longrightarrow> wf_map (st_sessions (pruneLocked now s))"
  by (simp add: pruneLocked_sessions)

lemma pruneLocked_lookup:
  "wf_map (st_sessions s) \<Longrightarrow>
   map_of (st_sessions (pruneLocked now s)) k =
     (case map_of (st_sessions s) k of None \<Rightarrow> None | Some v \<Rightarrow> if now > rs_expiresAt v then None else Some v)"
  by (simp add: pruneLocked_sessions alist_simps split: option.splits)

section \<open>Runs of the store and their history\<close>

datatype recovery_op =
    Log bytes broadcastOptions bytes bytes "bytes list" time
  | Save bytes bytes SocketID "Room list" time
  | Recover bytes bytes bytes time
  | Snapshot bytes bytes bytes time
  | Delete bytes bytes
  | Prune time

fun recovery_step :: "recoveryStore \<Rightarrow> recovery_op \<Rightarrow> recoveryStore" where
  "recovery_step s (Log ns opts offset packet atts now) = recovery_log ns opts offset packet atts now s"
| "recovery_step s (Save ns pid sid rooms now) = recovery_save ns pid sid rooms now s"
| "recovery_step s (Recover ns pid offset now) = snd (recovery_recover ns pid offset now s)"
| "recovery_step s (Snapshot ns pid offset now) = snd (recovery_snapshot ns pid offset now s)"
| "recovery_step s (Delete ns pid) = deleteSession ns pid s"
| "recovery_step s (Prune now) = pruneLocked now s"

text \<open>What the history says: every packet that was logged, and the last session saved and not taken.\<close>

fun logged :: "recovery_op list \<Rightarrow> recoveryPacket list" where
  "logged [] = []"
| "logged (Log ns opts offset packet atts now # xs) =
     (case parse_uint offset of
        None \<Rightarrow> []
      | Some seq \<Rightarrow> [\<lparr>rp_namespace = ns, rp_offset = offset, rp_offsetSeq = seq, rp_opts = opts, rp_packet = packet,
                     rp_attachments = atts, rp_releaseAfterSend = False, rp_createdAt = now\<rparr>]) @ logged xs"
| "logged (_ # xs) = logged xs"

type_synonym saved = "bytes \<Rightarrow> bytes \<Rightarrow> recoverySession option"

definition saved_put :: "bytes \<Rightarrow> bytes \<Rightarrow> recoverySession option \<Rightarrow> saved \<Rightarrow> saved" where
  "saved_put ns pid v K = (\<lambda>ns' pid'. if ns' = ns \<and> pid' = pid then v else K ns' pid')"

fun saved_step :: "int \<Rightarrow> saved \<Rightarrow> recovery_op \<Rightarrow> saved" where
  "saved_step maxAge K (Save ns pid sid rooms now) =
     (if pid = [] then K else saved_put ns pid (Some (newRecoverySession ns pid sid rooms (now + maxAge))) K)"
| "saved_step maxAge K (Recover ns pid offset now) =
     (if pid = [] \<or> parse_uint offset = None then K else saved_put ns pid None K)"
| "saved_step maxAge K (Delete ns pid) = saved_put ns pid None K"
| "saved_step maxAge K _ = K"

abbreviation saved_after :: "int \<Rightarrow> recovery_op list \<Rightarrow> saved" where
  "saved_after maxAge ops \<equiv> run_ops (saved_step maxAge) (\<lambda>_ _. None) ops"

text \<open>The clock of a run does not go backwards, and no namespace has a NUL byte.\<close>

fun op_time :: "recovery_op \<Rightarrow> time option" where
  "op_time (Log _ _ _ _ _ now) = Some now"
| "op_time (Save _ _ _ _ now) = Some now"
| "op_time (Recover _ _ _ now) = Some now"
| "op_time (Snapshot _ _ _ now) = Some now"
| "op_time (Delete _ _) = None"
| "op_time (Prune now) = Some now"

fun op_namespace :: "recovery_op \<Rightarrow> bytes" where
  "op_namespace (Log ns _ _ _ _ _) = ns"
| "op_namespace (Save ns _ _ _ _) = ns"
| "op_namespace (Recover ns _ _ _) = ns"
| "op_namespace (Snapshot ns _ _ _) = ns"
| "op_namespace (Delete ns _) = ns"
| "op_namespace (Prune _) = []"

definition plain_namespace :: "bytes \<Rightarrow> bool" where
  "plain_namespace ns \<longleftrightarrow> CHR 0x00 \<notin> set ns"

lemma recoveryKey_inj:
  assumes "plain_namespace ns" "plain_namespace ns'"
  shows "recoveryKey ns pid = recoveryKey ns' pid' \<longleftrightarrow> ns = ns' \<and> pid = pid'"
proof
  assume "recoveryKey ns pid = recoveryKey ns' pid'"
  then show "ns = ns' \<and> pid = pid'"
    using assms unfolding recoveryKey_def plain_namespace_def
  proof (induction ns arbitrary: ns')
    case Nil
    then show ?case by (cases ns') auto
  next
    case (Cons b ns)
    then show ?case by (cases ns') auto
  qed
qed simp

definition unexpired :: "time \<Rightarrow> recoverySession option \<Rightarrow> recoverySession option" where
  "unexpired now v = (case v of None \<Rightarrow> None | Some s \<Rightarrow> if now > rs_expiresAt s then None else Some s)"

lemma unexpired_simps [simp]:
  "unexpired now None = None" "unexpired t2 (unexpired t1 v) = unexpired (max t1 t2) v"
  by (auto simp: unexpired_def split: option.splits)

text \<open>
  The store at a point of its history: for any clock from \<open>t\<close> on, its log and its sessions hold what the
  history holds, except what is too old at that clock.
\<close>

definition fresh :: "int \<Rightarrow> time \<Rightarrow> recoveryPacket list \<Rightarrow> recoveryPacket list" where
  "fresh maxAge now = filter (\<lambda>p. now - maxAge < rp_createdAt p)"

definition store_at :: "time \<Rightarrow> recoveryPacket list \<Rightarrow> saved \<Rightarrow> recoveryStore \<Rightarrow> bool" where
  "store_at t L K s \<longleftrightarrow> wf_map (st_sessions s) \<and> (\<forall>now \<ge> t.
     fresh (st_maxAge s) now (st_packets s) = fresh (st_maxAge s) now L
     \<and> (\<forall>ns pid. plain_namespace ns \<longrightarrow>
          unexpired now (map_of (st_sessions s) (recoveryKey ns pid)) = unexpired now (K ns pid)))"

lemma fresh_fresh: "t \<le> now \<Longrightarrow> fresh maxAge now (fresh maxAge t L) = fresh maxAge now L"
  by (auto simp: fresh_def intro!: filter_cong)

lemma fresh_append [simp]: "fresh maxAge now (L @ L') = fresh maxAge now L @ fresh maxAge now L'"
  by (simp add: fresh_def)

lemma pruneLocked_fresh: "st_packets (pruneLocked now s) = fresh (st_maxAge s) now (st_packets s)"
  by (simp add: fresh_def)

lemma pruneLocked_unexpired:
  "wf_map (st_sessions s) \<Longrightarrow> map_of (st_sessions (pruneLocked now s)) k = unexpired now (map_of (st_sessions s) k)"
  by (simp add: pruneLocked_lookup unexpired_def)

lemma store_at_later: "store_at t L K s \<Longrightarrow> t \<le> t' \<Longrightarrow> store_at t' L K s"
  by (auto simp: store_at_def)

lemma store_at_prune:
  "store_at t L K s \<Longrightarrow> store_at t L K (pruneLocked t s)"
  by (auto simp: store_at_def pruneLocked_fresh pruneLocked_unexpired fresh_fresh max_absorb2
      simp del: pruneLocked_packets)

lemma store_at_log:
  "store_at t L K s \<Longrightarrow> store_at t (L @ [p]) K (s\<lparr>st_packets := st_packets s @ [p]\<rparr>)"
  by (auto simp: store_at_def)

lemma store_at_put:
  "store_at t L K s \<Longrightarrow> plain_namespace ns \<Longrightarrow>
   store_at t L (saved_put ns pid (Some v) K) (s\<lparr>st_sessions := AList.update (recoveryKey ns pid) v (st_sessions s)\<rparr>)"
  by (auto simp: store_at_def alist_simps saved_put_def recoveryKey_inj)

lemma store_at_drop:
  "store_at t L K s \<Longrightarrow> plain_namespace ns \<Longrightarrow>
   store_at t L (saved_put ns pid None K) (s\<lparr>st_sessions := AList.delete (recoveryKey ns pid) (st_sessions s)\<rparr>)"
  by (auto simp: store_at_def alist_simps saved_put_def recoveryKey_inj)

lemma delete_absent: "map_of (st_sessions s) k = None \<Longrightarrow> s\<lparr>st_sessions := AList.delete k (st_sessions s)\<rparr> = s"
  by (simp add: map_of_eq_None_iff delete_id)

lemma recoverWithConsume_store:
  assumes wf: "wf_map (st_sessions s)"
  shows "snd (recoverWithConsume ns pid offset now consume s) =
    (if parse_uint offset = None \<or> pid = [] then s
     else if consume then (pruneLocked now s)\<lparr>st_sessions := AList.delete (recoveryKey ns pid) (st_sessions (pruneLocked now s))\<rparr>
     else pruneLocked now s)"
proof (cases "map_of (st_sessions (pruneLocked now s)) (recoveryKey ns pid)")
  case None
  then show ?thesis using delete_absent [OF None]
    by (auto simp: recoverWithConsume_def Let_def split: option.splits)
next
  case (Some v)
  then have "\<not> now > rs_expiresAt v"
    using pruneLocked_lookup [OF wf, of now "recoveryKey ns pid"] by (auto split: option.splits if_splits)
  with Some show ?thesis
    by (auto simp: recoverWithConsume_def Let_def split: option.splits)
qed

lemma deleteSession_eq: "deleteSession ns pid s = s\<lparr>st_sessions := AList.delete (recoveryKey ns pid) (st_sessions s)\<rparr>"
  using delete_absent [of s "recoveryKey ns pid"] by (simp add: deleteSession_def Let_def)

lemma recovery_step_frame [simp]: "wf_map (st_sessions s) \<Longrightarrow> st_maxAge (recovery_step s x) = st_maxAge s"
  by (cases x)
    (auto simp: recovery_log_def recovery_save_def recovery_recover_def recovery_snapshot_def Let_def
      recoverWithConsume_store deleteSession_eq split: option.splits)

text \<open>Every operation moves the store along its history; \<open>t\<close> is the clock of the operation, or an earlier one.\<close>

lemma store_at_step:
  assumes at: "store_at t L K s" and ns: "plain_namespace (op_namespace x)"
    and clock: "op_time x = None \<or> op_time x = Some t"
  shows "store_at t (L @ logged [x]) (saved_step (st_maxAge s) K x) (recovery_step s x)"
proof -
  have wf: "wf_map (st_sessions s)" using at by (simp add: store_at_def)
  show ?thesis
  proof (cases x)
    case (Log n opts offset packet atts now)
    with at clock show ?thesis
      by (cases "parse_uint offset") (simp_all add: recovery_log_def Let_def store_at_prune store_at_log)
  next
    case (Save n pid sid rooms now)
    with at clock ns show ?thesis by (simp add: recovery_save_def store_at_prune store_at_put)
  next
    case (Recover n pid offset now)
    with at clock ns store_at_drop [OF store_at_prune [OF at], of n pid] show ?thesis
      by (auto simp: recovery_recover_def recoverWithConsume_store [OF wf])
  next
    case (Snapshot n pid offset now)
    with at clock ns show ?thesis
      by (auto simp: recovery_snapshot_def recoverWithConsume_store [OF wf] store_at_prune)
  next
    case (Delete n pid)
    with at ns show ?thesis by (simp add: deleteSession_eq store_at_drop)
  next
    case (Prune now)
    with at clock show ?thesis by (simp add: store_at_prune)
  qed
qed

lemma logged_append: "logged (xs @ ys) = logged xs @ logged ys"
  by (induction xs rule: logged.induct) (auto split: option.splits)

fun clock_from :: "time \<Rightarrow> recovery_op list \<Rightarrow> bool" where
  "clock_from t [] = True"
| "clock_from t (x # xs) = (case op_time x of None \<Rightarrow> clock_from t xs | Some now \<Rightarrow> t \<le> now \<and> clock_from now xs)"

fun clock_of :: "time \<Rightarrow> recovery_op list \<Rightarrow> time" where
  "clock_of t [] = t"
| "clock_of t (x # xs) = clock_of (case op_time x of None \<Rightarrow> t | Some now \<Rightarrow> now) xs"

lemma store_at_run:
  assumes "store_at t L K s" "list_all (plain_namespace \<circ> op_namespace) ops" "clock_from t ops"
  shows "store_at (clock_of t ops) (L @ logged ops) (run_ops (saved_step (st_maxAge s)) K ops) (run_ops recovery_step s ops)
    \<and> st_maxAge (run_ops recovery_step s ops) = st_maxAge s"
  using assms
proof (induction ops arbitrary: t L K s)
  case (Cons x xs)
  define t' where "t' = (case op_time x of None \<Rightarrow> t | Some now \<Rightarrow> now)"
  have "t \<le> t'" "clock_from t' xs" "op_time x = None \<or> op_time x = Some t'"
    using Cons.prems(3) by (auto simp: t'_def split: option.splits)
  then have "store_at t' (L @ logged [x]) (saved_step (st_maxAge s) K x) (recovery_step s x)"
    using Cons.prems(1,2) store_at_later by (intro store_at_step) auto
  moreover have "st_maxAge (recovery_step s x) = st_maxAge s"
    using Cons.prems(1) by (simp add: store_at_def)
  moreover have "logged [x] @ logged xs = logged (x # xs)"
    using logged_append [of "[x]" xs] by simp
  ultimately show ?case
    using Cons.IH [of t' "L @ logged [x]" "saved_step (st_maxAge s) K x" "recovery_step s x"]
      Cons.prems(2) \<open>clock_from t' xs\<close> by (simp add: t'_def [symmetric])
qed simp

text \<open>A session that is not there stays away until it is saved.\<close>

lemma absent_step:
  assumes s: "wf_map (st_sessions s) \<and> map_of (st_sessions s) (recoveryKey ns pid) = None"
    and ns: "plain_namespace ns" "plain_namespace (op_namespace x)"
    and x: "\<forall>sid rooms now. x \<noteq> Save ns pid sid rooms now"
  shows "wf_map (st_sessions (recovery_step s x)) \<and> map_of (st_sessions (recovery_step s x)) (recoveryKey ns pid) = None"
proof -
  have prune: "wf_map (st_sessions s') \<and> map_of (st_sessions s') (recoveryKey ns pid) = None \<Longrightarrow>
      wf_map (st_sessions (pruneLocked now s')) \<and> map_of (st_sessions (pruneLocked now s')) (recoveryKey ns pid) = None" for s' now
    by (simp add: pruneLocked_unexpired)
  show ?thesis
  proof (cases x)
    case (Save n p sid rooms now)
    with x have "n \<noteq> ns \<or> p \<noteq> pid" by blast
    with Save ns have "recoveryKey ns pid \<noteq> recoveryKey n p" using recoveryKey_inj [of ns n pid p] by auto
    with Save s show ?thesis by (simp add: recovery_save_def pruneLocked_unexpired alist_simps)
  qed (use s prune in \<open>auto simp: recovery_log_def Let_def recovery_recover_def recovery_snapshot_def
        recoverWithConsume_store deleteSession_eq alist_simps split: option.splits\<close>)
qed

section \<open>Offsets\<close>

fun offsets :: "recoveryStore \<Rightarrow> u64 list \<Rightarrow> bytes list" where
  "offsets s [] = []"
| "offsets s (now # ts) = (case nextOffset now s of (offset, s') \<Rightarrow> offset # offsets s' ts)"

definition parsed :: "bytes \<Rightarrow> u64" where
  "parsed offset = (case parse_uint offset of None \<Rightarrow> 0 | Some n \<Rightarrow> n)"

lemma unat_plus_one: "unat x + 1 < 2 ^ 64 \<Longrightarrow> unat (x + 1 :: u64) = unat x + 1"
  by (simp add: unat_word_ariths)

lemma offsets_increase_from:
  assumes "unat (st_next s) + length ts < 2 ^ 64" "\<forall>t \<in> set ts. unat t + length ts < 2 ^ 64"
  shows "list_all (\<lambda>off. parse_uint off \<noteq> None) (offsets s ts) \<and> sorted_wrt (<) (st_next s # map parsed (offsets s ts))"
  using assms
proof (induction ts arbitrary: s)
  case (Cons t ts)
  define n where "n = (if t > st_next s then t else st_next s + 1)"
  have step: "nextOffset t s = (format_uint n, s\<lparr>st_next := n\<rparr>)" by (simp add: nextOffset_def n_def Let_def)
  have n: "unat n + length ts < 2 ^ 64" "st_next s < n"
    using Cons.prems unat_plus_one [of "st_next s"] by (auto simp: n_def word_less_nat_alt)
  have "list_all (\<lambda>off. parse_uint off \<noteq> None) (offsets (s\<lparr>st_next := n\<rparr>) ts)
      \<and> sorted_wrt (<) (n # map parsed (offsets (s\<lparr>st_next := n\<rparr>) ts))"
    using Cons.IH [of "s\<lparr>st_next := n\<rparr>"] n(1) Cons.prems(2) by force
  with step n(2) show ?case by (auto simp: parse_uint_format_uint parsed_def [of "format_uint n"])
qed simp

section \<open>What recovery guarantees\<close>

text \<open>
  (C3) Recovery returns exactly what was missed. After any history whose clock does not go backwards,
  an attempt succeeds exactly when a session was saved under the namespace and the private id, not taken or deleted
  since, and not expired; it returns that session and, in the order they were logged, all
  packets of the namespace behind the client's offset, addressed to the session's rooms, and
  younger than the maximal age.
\<close>

theorem recovery_exact:
  assumes "list_all (plain_namespace \<circ> op_namespace) ops" "plain_namespace ns"
    and "clock_from t ops" "clock_of t ops \<le> now"
  shows "fst (recoverWithConsume ns pid offset now consume (run_ops recovery_step (newRecoveryStore maxAge) ops)) =
    (case parse_uint offset of
       None \<Rightarrow> None
     | Some seq \<Rightarrow>
         if pid = [] then None
         else map_option (\<lambda>session. (session,
             map cloneForReplay (filter (\<lambda>p. rp_namespace p = ns \<and> seq < rp_offsetSeq p
               \<and> recoveryPacketMatches (rp_opts p) (rs_rooms session) \<and> now - maxAge < rp_createdAt p) (logged ops))))
           (unexpired now (saved_after maxAge ops ns pid)))"
proof -
  let ?s = "run_ops recovery_step (newRecoveryStore maxAge) ops"
  have init: "store_at t [] (\<lambda>_ _. None) (newRecoveryStore maxAge)"
    by (simp add: store_at_def newRecoveryStore_def)
  from store_at_run [OF init assms(1,3)] have at: "store_at now (logged ops) (saved_after maxAge ops) ?s" "st_maxAge ?s = maxAge"
    using store_at_later [OF _ assms(4)] by (simp_all add: newRecoveryStore_def)
  then have wf: "wf_map (st_sessions ?s)" by (simp add: store_at_def)
  have packets: "st_packets (pruneLocked now ?s) = fresh maxAge now (logged ops)"
    using at unfolding pruneLocked_fresh store_at_def by auto
  have session: "map_of (st_sessions (pruneLocked now ?s)) (recoveryKey ns pid) = unexpired now (saved_after maxAge ops ns pid)"
    using at assms(2) unfolding pruneLocked_unexpired [OF wf] store_at_def by auto
  have same: "session_clone v = v" for v by (simp add: session_clone_def newRecoverySession_def)
  have live: "\<not> now > rs_expiresAt v" if "unexpired now w = Some v" for v w
    using that by (auto simp: unexpired_def split: option.splits if_splits)
  have filters: "filter (\<lambda>p. \<not> (rp_namespace p \<noteq> ns \<or> rp_offsetSeq p \<le> seq) \<and> recoveryPacketMatches (rp_opts p) rooms)
      (fresh maxAge now (logged ops)) = filter (\<lambda>p. rp_namespace p = ns \<and> seq < rp_offsetSeq p
        \<and> recoveryPacketMatches (rp_opts p) rooms \<and> now - maxAge < rp_createdAt p) (logged ops)" for seq rooms
    by (auto simp: fresh_def not_le intro!: filter_cong)
  show ?thesis
  proof (cases "unexpired now (saved_after maxAge ops ns pid)")
    case None
    with session show ?thesis by (simp add: recoverWithConsume_def Let_def split: option.split)
  next
    case (Some v)
    with session packets live [OF Some] filters same show ?thesis
      by (simp add: recoverWithConsume_def Let_def del: pruneLocked_packets split: option.split)
  qed
qed

text \<open>
  A session is recovered once: after a successful \<open>recover\<close>, no later attempt for the same namespace and
  private id succeeds, whatever happens in between, until the session is saved again.
\<close>

theorem recovery_consumes_session:
  assumes "wf_map (st_sessions s)" "fst (recovery_recover ns pid offset now s) \<noteq> None"
    and "plain_namespace ns" "list_all (plain_namespace \<circ> op_namespace) ops"
    and "list_all (\<lambda>x. \<forall>sid rooms now. x \<noteq> Save ns pid sid rooms now) ops"
  shows "fst (recoverWithConsume ns pid offset' now' consume
    (run_ops recovery_step (snd (recovery_recover ns pid offset now s)) ops)) = None"
proof -
  let ?s = "snd (recovery_recover ns pid offset now s)"
  have ok: "parse_uint offset \<noteq> None" "pid \<noteq> []"
    using assms(2) by (auto simp: recovery_recover_def recoverWithConsume_def split: option.splits if_splits)
  then have start: "wf_map (st_sessions ?s) \<and> map_of (st_sessions ?s) (recoveryKey ns pid) = None"
    using assms(1) by (auto simp: recovery_recover_def recoverWithConsume_store alist_simps)
  have "wf_map (st_sessions (run_ops recovery_step s' ops)) \<and> map_of (st_sessions (run_ops recovery_step s' ops)) (recoveryKey ns pid) = None"
    if "wf_map (st_sessions s') \<and> map_of (st_sessions s') (recoveryKey ns pid) = None" for s'
    using that assms(4,5)
  proof (induction ops arbitrary: s')
    case (Cons x xs)
    have "wf_map (st_sessions (recovery_step s' x)) \<and> map_of (st_sessions (recovery_step s' x)) (recoveryKey ns pid) = None"
      using Cons.prems by (intro absent_step [OF _ assms(3)]) auto
    with Cons show ?case by simp
  qed simp
  from this [OF start] show ?thesis
    by (auto simp: recoverWithConsume_def Let_def pruneLocked_unexpired split: option.splits)
qed

text \<open>
  (C30) Offsets identify a position in the log: however the clock behaves, the offsets handed out by
  \<open>nextOffset\<close> parse back to strictly increasing numbers (as long as neither the clock nor the counter is within the
  number of calls of \<open>2^64\<close>).
\<close>

theorem offsets_strictly_increase:
  assumes "length ts < 2 ^ 64" "\<forall>t \<in> set ts. unat t + length ts < 2 ^ 64"
  shows "list_all (\<lambda>off. parse_uint off \<noteq> None) (offsets (newRecoveryStore maxAge) ts)
    \<and> sorted_wrt (<) (map parsed (offsets (newRecoveryStore maxAge) ts))"
  using offsets_increase_from [of "newRecoveryStore maxAge" ts] assms by (simp add: newRecoveryStore_def)

text \<open>
  (C29) Replay agrees with live delivery: for a socket that is connected (it is the one its namespace knows under
  its id, in all its rooms), a broadcast reaches the socket live exactly when the log would
  replay it to a session saved with the rooms the socket has now.
\<close>

theorem replay_agrees_with_live:
  fixes sid_of :: "sockref \<Rightarrow> SocketID" and ops :: "adapter_op list" and opts :: broadcastOptions and s :: sockref
  assumes "length ops + 1 < 2 ^ 64"
  defines "a \<equiv> reached sid_of ops"
  assumes "map_of (ad_socketByID a) (sid_of s) = Some s"
    and "\<forall>r s'. spec_members sid_of ops r (sid_of s) = Some s' \<longrightarrow> s' = s"
  shows "s \<in> set (fst (adapter_apply opts a)) \<longleftrightarrow> recoveryPacketMatches opts (socketRooms (sid_of s) a)"
proof -
  have "(spec_members sid_of ops r (sid_of s) = Some s) = (r \<in> set (socketRooms (sid_of s) a))" for r
    using assms(4) reached_rooms [of "sid_of s" sid_of ops] unfolding a_def by auto
  with assms(3) apply_selected [OF assms(1), of opts sid_of s] show ?thesis
    unfolding recoveryPacketMatches_def list_ex_iff a_def by auto
qed

section \<open>Witnesses\<close>

abbreviation sample_history :: "recovery_op list" where
  "sample_history \<equiv>
     [Log ''/'' no_options ''10'' ''2[1]'' [] 5,
      Save ''/'' ''p'' ''sid'' [''sid'', ''r''] 6,
      Log ''/'' \<lparr>bo_Rooms = [''r''], bo_Except = [], bo_Local = False\<rparr> ''11'' ''2[2]'' [] 7,
      Log ''/'' \<lparr>bo_Rooms = [''q''], bo_Except = [], bo_Local = False\<rparr> ''12'' ''2[3]'' [] 8]"

lemma sample_parse: "parse_uint ''10'' = Some 10" "parse_uint ''11'' = Some 11" "parse_uint ''12'' = Some 12"
  by (simp_all add: parse_uint_def is_dec_digit_def digits_val_def digit_val_def)

theorem recovery_exact_witness:
  "map_option (\<lambda>(session, packets). (rs_sid session, map rp_packet packets))
     (fst (recoverWithConsume ''/'' ''p'' ''10'' 9 True (run_ops recovery_step (newRecoveryStore 100) sample_history)))
   = Some (''sid'', [''2[2]''])"
proof -
  have "fst (recoverWithConsume ''/'' ''p'' ''10'' 9 True (run_ops recovery_step (newRecoveryStore 100) sample_history)) =
    (case parse_uint ''10'' of
       None \<Rightarrow> None
     | Some seq \<Rightarrow>
         if ''p'' = [] then None
         else map_option (\<lambda>session. (session,
             map cloneForReplay (filter (\<lambda>p. rp_namespace p = ''/'' \<and> seq < rp_offsetSeq p
               \<and> recoveryPacketMatches (rp_opts p) (rs_rooms session) \<and> 9 - 100 < rp_createdAt p) (logged sample_history))))
           (unexpired 9 (saved_after 100 sample_history ''/'' ''p'')))"
    by (rule recovery_exact [of sample_history _ 0]) (simp_all add: plain_namespace_def)
  then show ?thesis
    by (simp add: sample_parse saved_put_def unexpired_def newRecoverySession_def recoveryPacketMatches_def cloneForReplay_def
        no_options_def)
qed

theorem recovery_consumes_session_witness:
  "fst (recoverWithConsume ''/'' ''p'' ''10'' 9 False
     (run_ops recovery_step (snd (recovery_recover ''/'' ''p'' ''10'' 9 (recovery_save ''/'' ''p'' ''sid'' [] 6 (newRecoveryStore 100))))
       [Prune 9])) = None"
proof (rule recovery_consumes_session)
  let ?s = "recovery_save ''/'' ''p'' ''sid'' [] 6 (newRecoveryStore 100)"
  show wf: "wf_map (st_sessions ?s)"
    by (simp add: recovery_save_def newRecoveryStore_def wf_map_def pruneLocked_def newRecoverySession_def)
  show "fst (recovery_recover ''/'' ''p'' ''10'' 9 ?s) \<noteq> None"
    by (simp add: recovery_save_def newRecoveryStore_def recovery_recover_def recoverWithConsume_def sample_parse Let_def
        pruneLocked_def newRecoverySession_def)
qed (simp_all add: plain_namespace_def)

theorem offsets_strictly_increase_witness:
  "sorted_wrt (<) (map parsed (offsets (newRecoveryStore 0) [5, 3, 3, 9]))"
  using offsets_strictly_increase [of "[5, 3, 3, 9]" 0] by simp

theorem replay_agrees_with_live_witness:
  "0 \<in> set (fst (adapter_apply \<lparr>bo_Rooms = [''x''], bo_Except = [], bo_Local = False\<rparr>
      (reached sample_ids [AddSocket 0, Join 0 [''x'']])))
   \<longleftrightarrow> recoveryPacketMatches \<lparr>bo_Rooms = [''x''], bo_Except = [], bo_Local = False\<rparr>
      (socketRooms ''a'' (reached sample_ids [AddSocket 0, Join 0 [''x'']]))"
proof -
  have "map_of (ad_socketByID (reached sample_ids [AddSocket 0, Join 0 [''x'']])) (sample_ids 0) = Some 0"
    by code_simp
  then show ?thesis
    using replay_agrees_with_live [of "[AddSocket 0, Join 0 [''x'']]" sample_ids 0] by (simp add: sample_ids_def)
qed

end
