(* ===== verification/ClusterCodec.thy ===== *)
theory ClusterCodec
  imports Recovery
begin

text \<open>
  The binary bodies that cluster nodes exchange (\<^verbatim>\<open>cluster.go\<close>): a broadcast packet with its attachments, and the
  response to a recovery request.

  A decoder that reads from \<^verbatim>\<open>body[pos:]\<close> and advances \<^verbatim>\<open>pos\<close> takes the rest of the body and returns the value and
  the number of bytes it took. \<^verbatim>\<open>make\<close> with a capacity that is negative or beyond the runtime's
  \<open>limit\<close> panics, which is the error \<open>MakePanics\<close>. Buffers are modelled by their contents.
\<close>

datatype cluster_error =
    ReadFailed | InvalidPacketLength | PacketLengthExceedsBody | InvalidAttachmentCount
  | InvalidAttachmentLength | AttachmentLengthExceedsBody | InvalidStringLength | StringLengthExceedsBody
  | InvalidMagic | InvalidRoomCount | InvalidPacketCount | InvalidCSRAttachmentCount | MakePanics

definition clusterBinaryMagic :: bytes where
  "clusterBinaryMagic = ''SIOB''"

definition clusterCSRMagic :: bytes where
  "clusterCSRMagic = ''SIOCSR''"

section \<open>Length-prefixed values\<close>

definition appendUvarint :: "bytes \<Rightarrow> u64 \<Rightarrow> bytes" where
  "appendUvarint dst v = dst @ put_uvarint v"

definition appendBinaryBytes :: "bytes \<Rightarrow> bytes \<Rightarrow> bytes" where
  "appendBinaryBytes dst value = appendUvarint dst (of_nat (length value)) @ value"

definition appendBinaryString :: "bytes \<Rightarrow> bytes \<Rightarrow> bytes" where
  "appendBinaryString dst value = appendUvarint dst (of_nat (length value)) @ value"

text \<open>
  \<^verbatim>\<open>size > uint64(len(data)-n)\<close> compares the numbers themselves, since a length is a non-negative \<^verbatim>\<open>int\<close>.
\<close>

definition readBinaryBytes :: "bytes \<Rightarrow> (cluster_error, bytes \<times> nat) result" where
  "readBinaryBytes data =
     (case uvarint data of (sz, n) \<Rightarrow>
        if n \<le> 0 then Inl InvalidStringLength
        else if unat sz > length data - nat n then Inl StringLengthExceedsBody
        else (let start = nat n; stop = start + nat (sint sz)
              in Inr (take (stop - start) (drop start data), stop)))"

definition readBinaryString :: "bytes \<Rightarrow> (cluster_error, bytes \<times> nat) result" where
  "readBinaryString data =
     (case readBinaryBytes data of Inl err \<Rightarrow> Inl err | Inr (value, n) \<Rightarrow> Inr (value, n))"

text \<open>\<^verbatim>\<open>for i := 0; i < int(cnt); i++ { v, n, err := read(body[pos:]); pos += n; vs = append(vs, v) }\<close>\<close>

fun read_many ::
    "(bytes \<Rightarrow> (cluster_error, 'a \<times> nat) result) \<Rightarrow> nat \<Rightarrow> bytes \<Rightarrow> (cluster_error, 'a list \<times> nat) result" where
  "read_many read 0 data = Inr ([], 0)"
| "read_many read (Suc k) data =
     (case read data of
        Inl err \<Rightarrow> Inl err
      | Inr (v, n) \<Rightarrow>
          (case read_many read k (drop n data) of
             Inl err \<Rightarrow> Inl err
           | Inr (vs, m) \<Rightarrow> Inr (v # vs, n + m)))"

text \<open>\<^verbatim>\<open>int(cnt)\<close> as the number of turns of a loop.\<close>

definition turns :: "u64 \<Rightarrow> nat" where
  "turns cnt = nat (sint cnt)"

text \<open>\<^verbatim>\<open>make([]T, 0, int(cnt))\<close> and \<^verbatim>\<open>acquireByteViews(int(cnt))\<close>: whether they panic.\<close>

definition make_panics :: "nat \<Rightarrow> u64 \<Rightarrow> bool" where
  "make_panics limit cnt \<longleftrightarrow> sint cnt < 0 \<or> sint cnt > int limit"

definition views_panic :: "nat \<Rightarrow> u64 \<Rightarrow> bool" where
  "views_panic limit cnt \<longleftrightarrow> sint cnt > 64 \<and> sint cnt > int limit"

section \<open>Broadcast bodies\<close>

record clusterPacketBody =
  cb_packet :: bytes
  cb_attachments :: "bytes list"

definition encodeClusterPacket :: "bytes \<Rightarrow> bytes list \<Rightarrow> bytes" where
  "encodeClusterPacket packet attachments =
     (if attachments = [] then packet
      else (let owner = appendUvarint clusterBinaryMagic (of_nat (length packet)) @ packet;
                owner = appendUvarint owner (of_nat (length attachments))
            in foldl (\<lambda>owner attachment. appendUvarint owner (of_nat (length attachment)) @ attachment) owner attachments))"

text \<open>One turn of the attachment loop.\<close>

definition read_attachment :: "bytes \<Rightarrow> (cluster_error, bytes \<times> nat) result" where
  "read_attachment data =
     (case uvarint data of (sz, n) \<Rightarrow>
        if n \<le> 0 then Inl InvalidAttachmentLength
        else if unat sz > length data - nat n then Inl AttachmentLengthExceedsBody
        else Inr (take (nat (sint sz)) (drop (nat n) data), nat n + nat (sint sz)))"

definition readClusterPacket :: "nat \<Rightarrow> bytes option \<Rightarrow> (cluster_error, clusterPacketBody) result" where
  "readClusterPacket limit body =
     (case body of
        None \<Rightarrow> Inl ReadFailed
      | Some B \<Rightarrow>
          if length B < length clusterBinaryMagic \<or> take (length clusterBinaryMagic) B \<noteq> clusterBinaryMagic
          then Inr \<lparr>cb_packet = B, cb_attachments = []\<rparr>
          else (let B1 = drop (length clusterBinaryMagic) B in
            case uvarint B1 of (packetLen, n) \<Rightarrow>
              if n \<le> 0 then Inl InvalidPacketLength
              else (let B2 = drop (nat n) B1 in
                if unat packetLen > length B2 then Inl PacketLengthExceedsBody
                else (let packet = take (nat (sint packetLen)) B2; B3 = drop (nat (sint packetLen)) B2 in
                  case uvarint B3 of (cnt, n) \<Rightarrow>
                    if n \<le> 0 then Inl InvalidAttachmentCount
                    else if cnt \<noteq> 0 \<and> views_panic limit cnt then Inl MakePanics
                    else (case read_many read_attachment (turns cnt) (drop (nat n) B3) of
                        Inl err \<Rightarrow> Inl err
                      | Inr (views, _) \<Rightarrow> Inr \<lparr>cb_packet = packet, cb_attachments = views\<rparr>)))))"

definition clusterPacketAttachments :: "clusterPacketBody option \<Rightarrow> bytes list" where
  "clusterPacketAttachments b = (case b of None \<Rightarrow> [] | Some b \<Rightarrow> cb_attachments b)"

definition valuesToRooms :: "bytes list \<Rightarrow> Room list" where
  "valuesToRooms values = foldl (\<lambda>rooms v. rooms @ [v]) [] values"

section \<open>Recovery responses\<close>

definition encodeCSRPacket :: "bytes \<Rightarrow> recoveryPacket \<Rightarrow> bytes" where
  "encodeCSRPacket out packet =
     foldl appendBinaryBytes
       (appendUvarint (appendBinaryBytes out (rp_packet packet)) (of_nat (length (rp_attachments packet))))
       (rp_attachments packet)"

definition encodeCSRResponse :: "recoverySession \<Rightarrow> recoveryPacket list \<Rightarrow> bytes" where
  "encodeCSRResponse session replay =
     (let out = appendBinaryString (appendBinaryString clusterCSRMagic (rs_sid session)) (rs_pid session);
          out = foldl appendBinaryString (appendUvarint out (of_nat (length (rs_rooms session)))) (rs_rooms session)
      in foldl encodeCSRPacket (appendUvarint out (of_nat (length replay))) replay)"

text \<open>A packet decoded from a response has the fields the code sets; the others are zero.\<close>

definition decoded_packet :: "bytes \<Rightarrow> bytes \<Rightarrow> bytes list \<Rightarrow> recoveryPacket" where
  "decoded_packet namespace packet attachments =
     \<lparr>rp_namespace = namespace, rp_offset = [], rp_offsetSeq = 0, rp_opts = no_options, rp_packet = packet,
      rp_attachments = attachments, rp_releaseAfterSend = True, rp_createdAt = 0\<rparr>"

definition read_csr_packet :: "nat \<Rightarrow> bytes \<Rightarrow> bytes \<Rightarrow> (cluster_error, recoveryPacket \<times> nat) result" where
  "read_csr_packet limit namespace data =
     (case readBinaryBytes data of
        Inl err \<Rightarrow> Inl err
      | Inr (packetBytes, n1) \<Rightarrow>
          (case uvarint (drop n1 data) of (attachmentCount, n2) \<Rightarrow>
             if n2 \<le> 0 then Inl InvalidCSRAttachmentCount
             else if attachmentCount \<noteq> 0 \<and> views_panic limit attachmentCount then Inl MakePanics
             else (case read_many readBinaryBytes (turns attachmentCount) (drop (n1 + nat n2) data) of
                 Inl err \<Rightarrow> Inl err
               | Inr (attachments, n3) \<Rightarrow> Inr (decoded_packet namespace packetBytes attachments, n1 + nat n2 + n3))))"

text \<open>The session is built with the zero time; \<open>0\<close> stands for it (nothing reads the field of a decoded session).\<close>

definition decodeCSRResponse ::
    "nat \<Rightarrow> bytes \<Rightarrow> bytes \<Rightarrow> (cluster_error, recoverySession \<times> recoveryPacket list) result" where
  "decodeCSRResponse limit namespace body =
     (if length body < length clusterCSRMagic \<or> take (length clusterCSRMagic) body \<noteq> clusterCSRMagic
      then Inl InvalidMagic
      else (let b0 = drop (length clusterCSRMagic) body in
        case readBinaryString b0 of
          Inl err \<Rightarrow> Inl err
        | Inr (sid, n) \<Rightarrow>
        (let b1 = drop n b0 in
        case readBinaryString b1 of
          Inl err \<Rightarrow> Inl err
        | Inr (pid, n) \<Rightarrow>
        (let b2 = drop n b1 in
        case uvarint b2 of (roomCount, n) \<Rightarrow>
          if n \<le> 0 then Inl InvalidRoomCount
          else if make_panics limit roomCount then Inl MakePanics
          else (let b3 = drop (nat n) b2 in
            case read_many readBinaryString (turns roomCount) b3 of
              Inl err \<Rightarrow> Inl err
            | Inr (rooms, n) \<Rightarrow>
            (let b4 = drop n b3 in
            case uvarint b4 of (packetCount, n) \<Rightarrow>
              if n \<le> 0 then Inl InvalidPacketCount
              else if make_panics limit packetCount then Inl MakePanics
              else (case read_many (read_csr_packet limit namespace) (turns packetCount) (drop (nat n) b4) of
                  Inl err \<Rightarrow> Inl err
                | Inr (replay, _) \<Rightarrow> Inr (newRecoverySession namespace pid sid rooms 0, replay))))))))"

section \<open>Round trips\<close>

text \<open>
  The contract between an encoder and the decoder the loops call: decoding what was encoded, whatever
  follows it, gives the value back and takes exactly the encoded bytes. It lifts to the loops.
\<close>

locale codec =
  fixes enc :: "'a \<Rightarrow> bytes"
    and dec :: "bytes \<Rightarrow> (cluster_error, 'a \<times> nat) result"
    and ok :: "'a \<Rightarrow> bool"
  assumes dec_enc: "ok v \<Longrightarrow> dec (enc v @ rest) = Inr (v, length (enc v))"
begin

lemma read_many_enc:
  "list_all ok vs \<Longrightarrow>
   read_many dec (length vs) (concat (map enc vs) @ rest) = Inr (vs, length (concat (map enc vs)))"
  by (induction vs) (simp_all add: dec_enc)

end

definition sized :: "bytes \<Rightarrow> bool" where
  "sized v \<longleftrightarrow> length v < 2 ^ 63"

definition binary_bytes :: "bytes \<Rightarrow> bytes" where
  "binary_bytes v = put_uvarint (of_nat (length v)) @ v"

lemma appends:
  "appendBinaryBytes dst v = dst @ binary_bytes v" "appendBinaryString dst v = dst @ binary_bytes v"
  "appendUvarint dst n = dst @ put_uvarint n"
  by (simp_all add: appendBinaryBytes_def appendBinaryString_def appendUvarint_def binary_bytes_def)

lemma foldl_appends:
  assumes "\<And>dst v. f dst v = dst @ g v"
  shows "foldl f dst vs = dst @ concat (map g vs)"
  by (induction vs arbitrary: dst) (simp_all add: assms)

lemma count_value:
  assumes "n < 2 ^ 63"
  shows "sint (of_nat n :: u64) = int n" "unat (of_nat n :: u64) = n" "turns (of_nat n) = n"
proof -
  show sint: "sint (of_nat n :: u64) = int n" using assms by (rule sint_of_nat_u64)
  show "turns (of_nat n) = n" by (simp add: turns_def sint)
  show "unat (of_nat n :: u64) = n" using assms by (intro unat_small) simp
qed

lemma readBinaryBytes_enc: "sized v \<Longrightarrow> readBinaryBytes (binary_bytes v @ rest) = Inr (v, length (binary_bytes v))"
  by (simp add: readBinaryBytes_def binary_bytes_def codec_simps count_value sized_def)

lemma readBinaryString_eq [simp]: "readBinaryString data = readBinaryBytes data"
  by (simp add: readBinaryString_def split: sum.split prod.split)

lemma read_attachment_enc: "sized v \<Longrightarrow> read_attachment (binary_bytes v @ rest) = Inr (v, length (binary_bytes v))"
  by (simp add: read_attachment_def binary_bytes_def codec_simps count_value sized_def)

interpretation binary: codec binary_bytes readBinaryBytes sized
  by unfold_locales (rule readBinaryBytes_enc)

interpretation strings: codec binary_bytes readBinaryString sized
  by unfold_locales (simp add: readBinaryBytes_enc)

interpretation attachment: codec binary_bytes read_attachment sized
  by unfold_locales (rule read_attachment_enc)

definition csr_bytes :: "recoveryPacket \<Rightarrow> bytes" where
  "csr_bytes p = binary_bytes (rp_packet p) @ put_uvarint (of_nat (length (rp_attachments p)))
     @ concat (map binary_bytes (rp_attachments p))"

text \<open>What a decoded packet can hold: no more attachments than can be allocated, each of a possible length.\<close>

definition csr_sized :: "nat \<Rightarrow> recoveryPacket \<Rightarrow> bool" where
  "csr_sized limit p \<longleftrightarrow> sized (rp_packet p) \<and> list_all sized (rp_attachments p)
     \<and> length (rp_attachments p) < 2 ^ 63 \<and> length (rp_attachments p) \<le> max 64 limit"

definition as_decoded :: "bytes \<Rightarrow> recoveryPacket \<Rightarrow> recoveryPacket" where
  "as_decoded namespace p = decoded_packet namespace (rp_packet p) (rp_attachments p)"

lemma read_csr_packet_enc:
  assumes "csr_sized limit p"
  shows "read_csr_packet limit ns (csr_bytes p @ rest) = Inr (as_decoded ns p, length (csr_bytes p))"
proof -
  let ?n = "length (rp_attachments p)"
  have "\<not> views_panic limit (of_nat ?n)"
    using assms by (auto simp: csr_sized_def views_panic_def count_value)
  with assms show ?thesis
    by (simp add: csr_sized_def read_csr_packet_def csr_bytes_def readBinaryBytes_enc codec_simps count_value
        binary.read_many_enc as_decoded_def)
qed

interpretation csr: codec csr_bytes "read_csr_packet limit ns" "\<lambda>p. csr_sized limit p \<and> as_decoded ns p = p" for limit ns
  by unfold_locales (simp add: read_csr_packet_enc)

lemma csr_bytes_as_decoded [simp]:
  "csr_bytes (as_decoded ns p) = csr_bytes p" "csr_sized limit (as_decoded ns p) = csr_sized limit p"
  "as_decoded ns (as_decoded ns p) = as_decoded ns p"
  by (simp_all add: csr_bytes_def csr_sized_def as_decoded_def decoded_packet_def)

lemma read_many_csr:
  assumes "list_all (csr_sized limit) ps"
  shows "read_many (read_csr_packet limit ns) (length ps) (concat (map csr_bytes ps) @ rest)
    = Inr (map (as_decoded ns) ps, length (concat (map csr_bytes ps)))"
proof -
  have "map csr_bytes (map (as_decoded ns) ps) = map csr_bytes ps" by simp
  with csr.read_many_enc [of limit ns "map (as_decoded ns) ps" rest] assms show ?thesis
    by (simp add: list_all_iff del: map_map)
qed

lemma encodeCSRResponse_eq:
  "encodeCSRResponse session replay = clusterCSRMagic @ binary_bytes (rs_sid session) @ binary_bytes (rs_pid session)
     @ put_uvarint (of_nat (length (rs_rooms session))) @ concat (map binary_bytes (rs_rooms session))
     @ put_uvarint (of_nat (length replay)) @ concat (map csr_bytes replay)"
proof -
  have "encodeCSRPacket out p = out @ csr_bytes p" for out p
    by (simp add: encodeCSRPacket_def csr_bytes_def appends foldl_appends [of appendBinaryBytes binary_bytes])
  then show ?thesis
    by (simp add: encodeCSRResponse_def Let_def appends foldl_appends [of appendBinaryString binary_bytes]
        foldl_appends [of encodeCSRPacket csr_bytes])
qed

lemma encodeClusterPacket_eq:
  "attachments \<noteq> [] \<Longrightarrow> encodeClusterPacket packet attachments = clusterBinaryMagic @ binary_bytes packet
     @ put_uvarint (of_nat (length attachments)) @ concat (map binary_bytes attachments)"
  using foldl_appends [of "\<lambda>owner a. appendUvarint owner (of_nat (length a)) @ a" binary_bytes]
  by (simp add: encodeClusterPacket_def Let_def appends binary_bytes_def)

section \<open>Bounds\<close>

text \<open>A decoder never takes more than there is, and takes more bytes than the value it returns has.\<close>

locale bounded_reader =
  fixes dec :: "bytes \<Rightarrow> (cluster_error, 'a \<times> nat) result"
    and weight :: "'a \<Rightarrow> nat"
  assumes dec_bound: "dec data = Inr (v, n) \<Longrightarrow> weight v < n \<and> n \<le> length data"
begin

lemma read_many_bound:
  "read_many dec k data = Inr (vs, n) \<Longrightarrow> sum_list (map weight vs) + length vs \<le> n \<and> n \<le> length data \<and> length vs = k"
proof (induction k arbitrary: data vs n)
  case (Suc k)
  then obtain v m vs' m' where first: "dec data = Inr (v, m)" and rest: "read_many dec k (drop m data) = Inr (vs', m')"
    and eq: "vs = v # vs'" "n = m + m'"
    by (auto split: sum.splits prod.splits)
  from Suc.IH [OF rest] dec_bound [OF first] eq show ?case by auto
qed simp

end

lemma nat_sint_le: "nat (sint (w :: u64)) \<le> unat w"
proof (cases "sint w < 0")
  case False
  then have "nat (sint w) < 2 ^ 63" using sint_lt [of w] by simp
  then have "unat (of_nat (nat (sint w)) :: u64) = nat (sint w)" by (rule count_value)
  moreover have "(of_nat (nat (sint w)) :: u64) = w" using False by simp
  ultimately show ?thesis by simp
qed simp

lemma sized_piece:
  fixes sz :: u64
  assumes "uvarint data = (sz, n)" "0 < n" "unat sz \<le> length data - nat n"
  shows "length (take (nat (sint sz)) (drop (nat n) data)) < nat n + nat (sint sz) \<and> nat n + nat (sint sz) \<le> length data"
proof -
  have "n \<le> int (length data)" using uvarint_bound [of data] assms(1) by simp
  with nat_sint_le [of sz] assms show ?thesis by auto
qed

interpretation attachment_reader: bounded_reader read_attachment length
  using sized_piece by unfold_locales (auto simp: read_attachment_def split: prod.splits if_splits)

interpretation binary_reader: bounded_reader readBinaryBytes length
  using sized_piece by unfold_locales (auto simp: readBinaryBytes_def Let_def split: prod.splits if_splits)

interpretation string_reader: bounded_reader readBinaryString length
  by unfold_locales (simp add: binary_reader.dec_bound)

definition csr_weight :: "recoveryPacket \<Rightarrow> nat" where
  "csr_weight p = length (rp_packet p) + sum_list (map length (rp_attachments p))"

lemma read_csr_packet_bound:
  assumes "read_csr_packet limit ns data = Inr (p, n)"
  shows "csr_weight p < n \<and> n \<le> length data"
proof -
  obtain pk n1 c n2 atts n3 where parts: "readBinaryBytes data = Inr (pk, n1)" "uvarint (drop n1 data) = (c, n2)" "0 < n2"
      "read_many readBinaryBytes (turns c) (drop (n1 + nat n2) data) = Inr (atts, n3)"
      "p = decoded_packet ns pk atts" "n = n1 + nat n2 + n3"
    using assms by (auto simp: read_csr_packet_def split: sum.splits prod.splits if_splits)
  have "n2 \<le> int (length data - n1)" using uvarint_bound [of "drop n1 data"] parts(2) by simp
  with binary_reader.dec_bound [OF parts(1)] binary_reader.read_many_bound [OF parts(4)] parts(3,5,6) show ?thesis
    by (auto simp: csr_weight_def decoded_packet_def)
qed

interpretation csr_reader: bounded_reader "read_csr_packet limit ns" csr_weight for limit ns
  by unfold_locales (rule read_csr_packet_bound)

lemma readClusterPacket_bound:
  assumes "readClusterPacket limit (Some B) = Inr b"
  shows "length (cb_packet b) + sum_list (map length (cb_attachments b)) + length (cb_attachments b) \<le> length B"
proof (cases "length B < length clusterBinaryMagic \<or> take (length clusterBinaryMagic) B \<noteq> clusterBinaryMagic")
  case True
  with assms show ?thesis by (auto simp: readClusterPacket_def)
next
  case False
  define B1 where "B1 = drop (length clusterBinaryMagic) B"
  obtain len n1 where u1: "uvarint B1 = (len, n1)" by (cases "uvarint B1")
  define B2 where "B2 = drop (nat n1) B1"
  define B3 where "B3 = drop (nat (sint len)) B2"
  obtain c n2 where u2: "uvarint B3 = (c, n2)" by (cases "uvarint B3")
  have "unat len \<le> length B2" and
    b: "\<exists>m. read_many read_attachment (turns c) (drop (nat n2) B3) = Inr (cb_attachments b, m)" "cb_packet b = take (nat (sint len)) B2"
    using assms False u1 u2 unfolding readClusterPacket_def
    by (auto simp: Let_def B1_def [symmetric] B2_def [symmetric] B3_def [symmetric] split: if_splits sum.splits prod.splits)
  obtain m where m: "read_many read_attachment (turns c) (drop (nat n2) B3) = Inr (cb_attachments b, m)" using b(1) by blast
  have "length (cb_packet b) + length B3 \<le> length B" by (simp add: b(2) B3_def B2_def B1_def)
  with attachment_reader.read_many_bound [OF m] show ?thesis by auto
qed

lemma decodeCSRResponse_bound:
  assumes "decodeCSRResponse limit ns B = Inr (session, replay)"
  shows "sum_list (map length (rs_rooms session)) + sum_list (map csr_weight replay) + length replay \<le> length B"
proof -
  define b0 where "b0 = drop (length clusterCSRMagic) B"
  obtain sid n0 where r0: "readBinaryString b0 = Inr (sid, n0)"
    using assms unfolding decodeCSRResponse_def b0_def [symmetric] by (cases "readBinaryString b0") (auto simp: Let_def split: if_splits)
  define b1 where "b1 = drop n0 b0"
  obtain pid n1 where r1: "readBinaryString b1 = Inr (pid, n1)"
    using assms r0 unfolding decodeCSRResponse_def b0_def [symmetric]
    by (cases "readBinaryString b1") (auto simp: Let_def b1_def [symmetric] split: if_splits)
  define b2 where "b2 = drop n1 b1"
  obtain c n2 where r2: "uvarint b2 = (c, n2)" by (cases "uvarint b2")
  define b3 where "b3 = drop (nat n2) b2"
  obtain rooms n3 where r3: "read_many readBinaryString (turns c) b3 = Inr (rooms, n3)"
    using assms r0 r1 r2 unfolding decodeCSRResponse_def b0_def [symmetric]
    by (cases "read_many readBinaryString (turns c) b3")
      (auto simp: Let_def b1_def [symmetric] b2_def [symmetric] b3_def [symmetric] split: if_splits)
  define b4 where "b4 = drop n3 b3"
  obtain d n4 where r4: "uvarint b4 = (d, n4)" by (cases "uvarint b4")
  obtain n5 where r5: "read_many (read_csr_packet limit ns) (turns d) (drop (nat n4) b4) = Inr (replay, n5)"
      "session = newRecoverySession ns pid sid rooms 0"
    using assms r0 r1 r2 r3 r4 unfolding decodeCSRResponse_def b0_def [symmetric]
    by (auto simp: Let_def b1_def [symmetric] b2_def [symmetric] b3_def [symmetric] b4_def [symmetric]
        split: if_splits sum.splits prod.splits)
  have "sum_list (map length rooms) \<le> n3" "n3 \<le> length b3" using string_reader.read_many_bound [OF r3] by auto
  moreover have "sum_list (map csr_weight replay) + length replay \<le> length b4" using csr_reader.read_many_bound [OF r5(1)] by auto
  moreover have "length b3 \<le> length B" by (simp add: b3_def b2_def b1_def b0_def)
  ultimately show ?thesis by (simp add: r5(2) newRecoverySession_def b4_def)
qed

lemma csr_decodes:
  assumes "sized (rs_sid session)" "sized (rs_pid session)" "list_all sized (rs_rooms session)"
    and "list_all (csr_sized limit) replay" "length (rs_rooms session) \<le> limit" "length replay \<le> limit" "limit < 2 ^ 63"
  shows "decodeCSRResponse limit ns (encodeCSRResponse session replay) =
    Inr (newRecoverySession ns (rs_pid session) (rs_sid session) (rs_rooms session) 0,
         map (\<lambda>p. decoded_packet ns (rp_packet p) (rp_attachments p)) replay)"
proof -
  let ?r = "length (rs_rooms session)" and ?p = "length replay"
  have "\<not> make_panics limit (of_nat ?r)" "\<not> make_panics limit (of_nat ?p)" "?r < 2 ^ 63" "?p < 2 ^ 63"
    using assms(5-7) by (auto simp: make_panics_def count_value)
  with assms(1-3) show ?thesis
    using strings.read_many_enc [OF assms(3)] read_many_csr [OF assms(4), of ns "[]"]
    by (simp add: decodeCSRResponse_def encodeCSRResponse_eq clusterCSRMagic_def Let_def readBinaryBytes_enc codec_simps
        count_value as_decoded_def [abs_def])
qed

lemma cluster_packet_decodes:
  assumes "attachments \<noteq> [] \<or> take (length clusterBinaryMagic) packet \<noteq> clusterBinaryMagic"
    and "sized packet" "list_all sized attachments" "length attachments < 2 ^ 63" "length attachments \<le> max 64 limit"
  shows "readClusterPacket limit (Some (encodeClusterPacket packet attachments)) = Inr \<lparr>cb_packet = packet, cb_attachments = attachments\<rparr>"
proof (cases "attachments = []")
  case True
  with assms(1) show ?thesis by (simp add: readClusterPacket_def encodeClusterPacket_def)
next
  case False
  let ?n = "length attachments"
  have "\<not> views_panic limit (of_nat ?n)" using assms by (auto simp: views_panic_def count_value)
  with False assms show ?thesis
    using attachment.read_many_enc [OF assms(3), of "[]"]
    by (simp add: readClusterPacket_def encodeClusterPacket_eq clusterBinaryMagic_def binary_bytes_def [of packet]
        codec_simps count_value sized_def Let_def)
qed

section \<open>What the cluster codecs guarantee\<close>

text \<open>
  (C14) A broadcast body survives the trip to a peer: with attachments, or without them for a packet that does
  not begin with the magic, \<open>readClusterPacket\<close> gives back the packet and the attachments that
  \<open>encodeClusterPacket\<close> was given.
\<close>

theorem cluster_packet_roundtrip:
  assumes "attachments \<noteq> [] \<or> take (length clusterBinaryMagic) packet \<noteq> clusterBinaryMagic"
    and "sized packet" "list_all sized attachments" "length attachments < 2 ^ 63" "length attachments \<le> max 64 limit"
  shows "readClusterPacket limit (Some (encodeClusterPacket packet attachments)) = Inr \<lparr>cb_packet = packet, cb_attachments = attachments\<rparr>"
  using assms by (rule cluster_packet_decodes)

text \<open>
  (C33) A recovered session survives the trip between nodes: the session id, the private id, the rooms and every replayed
  packet with its attachments, in order.
\<close>

theorem csr_response_roundtrip:
  assumes "sized (rs_sid session)" "sized (rs_pid session)" "list_all sized (rs_rooms session)"
    and "list_all (csr_sized limit) replay" "length (rs_rooms session) \<le> limit" "length replay \<le> limit" "limit < 2 ^ 63"
  shows "decodeCSRResponse limit ns (encodeCSRResponse session replay) =
    Inr (newRecoverySession ns (rs_pid session) (rs_sid session) (rs_rooms session) 0,
         map (\<lambda>p. decoded_packet ns (rp_packet p) (rp_attachments p)) replay)"
  using assms by (rule csr_decodes)


text \<open>
  (C35) A response that announces more rooms than can be allocated does not end in an error of the decoder: it panics, whatever
  follows the count, even nothing.
\<close>

theorem csr_room_count_panics:
  assumes "sized sid" "sized pid" "int limit < sint c \<or> sint c < 0"
  shows "decodeCSRResponse limit ns (clusterCSRMagic @ binary_bytes sid @ binary_bytes pid @ put_uvarint c @ rest) = Inl MakePanics"
  using assms
  by (auto simp: decodeCSRResponse_def clusterCSRMagic_def Let_def readBinaryBytes_enc codec_simps make_panics_def)

section \<open>Witnesses\<close>

theorem cluster_packet_roundtrip_witness:
  "readClusterPacket 10 (Some (encodeClusterPacket ''51-[1]'' [''ab'', []])) = Inr \<lparr>cb_packet = ''51-[1]'', cb_attachments = [''ab'', []]\<rparr>"
  by (rule cluster_packet_roundtrip) (simp_all add: sized_def)

definition sample_session :: recoverySession where
  "sample_session = newRecoverySession ''/'' ''p'' ''s'' [''s'', ''r''] 5"

theorem csr_response_roundtrip_witness:
  "decodeCSRResponse 10 ''/'' (encodeCSRResponse sample_session [decoded_packet ''/'' ''2[1]'' [''a'']]) =
    Inr (newRecoverySession ''/'' (rs_pid sample_session) (rs_sid sample_session) (rs_rooms sample_session) 0,
         map (\<lambda>p. decoded_packet ''/'' (rp_packet p) (rp_attachments p)) [decoded_packet ''/'' ''2[1]'' [''a'']])"
  by (rule csr_response_roundtrip)
    (simp_all add: sample_session_def newRecoverySession_def decoded_packet_def csr_sized_def sized_def)


theorem csr_room_count_panics_witness:
  "decodeCSRResponse 100 ''/'' (clusterCSRMagic @ binary_bytes ''s'' @ binary_bytes ''p'' @ put_uvarint 200 @ []) = Inl MakePanics"
  by (rule csr_room_count_panics) (simp_all add: sized_def)

end
