(* ===== verification/GoStrings.thy ===== *)
theory GoStrings
  imports GoLib
begin

text \<open>
  The functions of Go's \<^verbatim>\<open>strings\<close> package that the configuration code calls, on byte strings. Nothing here is
  mapped to a line of the repository.
\<close>

section \<open>Prefixes and suffixes\<close>

lemma has_prefix_append [simp]: "has_prefix (p @ s) p"
  by (simp add: has_prefix_iff)

lemma has_suffix_iff: "has_suffix s p \<longleftrightarrow> (\<exists>r. s = r @ p)"
proof
  assume "has_suffix s p"
  then have "rev p = take (length p) (rev s)" by (simp add: has_suffix_def has_prefix_iff)
  then have "rev s = rev p @ drop (length p) (rev s)" by (metis append_take_drop_id)
  then have "s = rev (drop (length p) (rev s)) @ p" by (metis rev_append rev_rev_ident)
  then show "\<exists>r. s = r @ p" ..
next
  assume "\<exists>r. s = r @ p"
  then show "has_suffix s p" by (auto simp: has_suffix_def has_prefix_iff)
qed

lemma has_suffix_append [simp]: "has_suffix (s @ p) p"
  by (auto simp: has_suffix_iff)

lemma contains_append: "contains (s @ p @ t) p"
proof (induction s)
  case Nil
  have "has_prefix (p @ t) p" by simp
  then show ?case by (cases "p @ t") (auto simp: contains_def)
next
  case (Cons b s)
  then show ?case by (auto simp: contains_def)
qed

lemma contains_prefix_append: "contains s p \<Longrightarrow> contains (s @ t) p"
proof (induction s)
  case Nil
  then have "p = []" by (simp add: contains_def split: if_splits)
  then show ?case by (cases t) (simp_all add: contains_def)
next
  case (Cons b s)
  show ?case
  proof (cases "has_prefix (b # s) p")
    case True
    then have "has_prefix ((b # s) @ t) p" by (metis has_prefix_iff append_take_drop_id append.assoc has_prefix_append)
    then show ?thesis by (simp add: contains_def)
  next
    case False
    with Cons show ?thesis by (auto simp: contains_def)
  qed
qed

lemma contains_char: "contains s [c] \<longleftrightarrow> c \<in> set s"
proof (induction s)
  case (Cons b s)
  then show ?case by (auto simp: contains_def has_prefix_iff)
qed (simp add: contains_def)

definition trim_prefix :: "bytes \<Rightarrow> bytes \<Rightarrow> bytes" where
  "trim_prefix s p = (if has_prefix s p then drop (length p) s else s)"

definition trim_suffix :: "bytes \<Rightarrow> bytes \<Rightarrow> bytes" where
  "trim_suffix s p = (if has_suffix s p then take (length s - length p) s else s)"

text \<open>\<^verbatim>\<open>strings.TrimRight\<close> with a single byte as its cutset.\<close>

definition trim_right_byte :: "bytes \<Rightarrow> byte \<Rightarrow> bytes" where
  "trim_right_byte s c = rev (dropWhile (\<lambda>b. b = c) (rev s))"

section \<open>White space\<close>

text \<open>
  The runes \<^verbatim>\<open>unicode.IsSpace\<close> accepts, encoded. The encodings are self-synchronising, so that \<^verbatim>\<open>strings.TrimSpace\<close>,
  which decodes runes from both ends, removes exactly these byte sequences.
\<close>

definition space_runes :: "bytes list" where
  "space_runes =
     [[CHR 0x09], [CHR 0x0A], [CHR 0x0B], [CHR 0x0C], [CHR 0x0D], [CHR '' ''], [CHR 0xC2, CHR 0x85], [CHR 0xC2, CHR 0xA0],
      [CHR 0xE1, CHR 0x9A, CHR 0x80], [CHR 0xE2, CHR 0x80, CHR 0x80], [CHR 0xE2, CHR 0x80, CHR 0x81],
      [CHR 0xE2, CHR 0x80, CHR 0x82], [CHR 0xE2, CHR 0x80, CHR 0x83], [CHR 0xE2, CHR 0x80, CHR 0x84],
      [CHR 0xE2, CHR 0x80, CHR 0x85], [CHR 0xE2, CHR 0x80, CHR 0x86], [CHR 0xE2, CHR 0x80, CHR 0x87],
      [CHR 0xE2, CHR 0x80, CHR 0x88], [CHR 0xE2, CHR 0x80, CHR 0x89], [CHR 0xE2, CHR 0x80, CHR 0x8A],
      [CHR 0xE2, CHR 0x80, CHR 0xA8], [CHR 0xE2, CHR 0x80, CHR 0xA9], [CHR 0xE2, CHR 0x80, CHR 0xAF],
      [CHR 0xE2, CHR 0x81, CHR 0x9F], [CHR 0xE3, CHR 0x80, CHR 0x80]]"

lemma space_runes_not_Nil: "r \<in> set space_runes \<Longrightarrow> r \<noteq> []"
  by (auto simp: space_runes_def)

function trim_left_space :: "bytes \<Rightarrow> bytes" where
  "trim_left_space s =
     (case find (\<lambda>r. has_prefix s r) space_runes of None \<Rightarrow> s | Some r \<Rightarrow> trim_left_space (drop (length r) s))"
  by pat_completeness auto
termination
proof (relation "measure length")
  fix s r assume "find (\<lambda>r. has_prefix s r) space_runes = Some r"
  then have r: "r \<in> set space_runes" "has_prefix s r" by (auto simp: find_Some_iff)
  have "length s \<noteq> 0" using r space_runes_not_Nil [of r] by (auto simp: has_prefix_iff)
  moreover have "length r \<noteq> 0" using r space_runes_not_Nil [of r] by simp
  ultimately show "(drop (length r) s, s) \<in> measure length" by simp
qed simp

function trim_right_space :: "bytes \<Rightarrow> bytes" where
  "trim_right_space s =
     (case find (\<lambda>r. has_suffix s r) space_runes of
        None \<Rightarrow> s | Some r \<Rightarrow> trim_right_space (take (length s - length r) s))"
  by pat_completeness auto
termination
proof (relation "measure length")
  fix s r assume "find (\<lambda>r. has_suffix s r) space_runes = Some r"
  then have "r \<in> set space_runes" "has_suffix s r" by (auto simp: find_Some_iff)
  then show "(take (length s - length r) s, s) \<in> measure length"
    using space_runes_not_Nil [of r] by (auto simp: has_suffix_iff)
qed simp

declare trim_left_space.simps [simp del] trim_right_space.simps [simp del]

definition trim_space :: "bytes \<Rightarrow> bytes" where
  "trim_space s = trim_right_space (trim_left_space s)"

definition starts_blank :: "bytes \<Rightarrow> bool" where
  "starts_blank s \<longleftrightarrow> list_ex (has_prefix s) space_runes"

definition ends_blank :: "bytes \<Rightarrow> bool" where
  "ends_blank s \<longleftrightarrow> list_ex (has_suffix s) space_runes"

lemma find_list_ex: "find p xs = None \<longleftrightarrow> \<not> list_ex p xs"
  by (auto simp: find_None_iff list_ex_iff)

lemma trim_left_space_id: "\<not> starts_blank s \<Longrightarrow> trim_left_space s = s"
  by (subst trim_left_space.simps) (simp add: starts_blank_def find_list_ex [symmetric])

lemma trim_right_space_id: "\<not> ends_blank s \<Longrightarrow> trim_right_space s = s"
  by (subst trim_right_space.simps) (simp add: ends_blank_def find_list_ex [symmetric])

lemma trim_space_id: "\<not> starts_blank s \<Longrightarrow> \<not> ends_blank s \<Longrightarrow> trim_space s = s"
  by (simp add: trim_space_def trim_left_space_id trim_right_space_id)

lemma trim_left_space_done: "\<not> starts_blank (trim_left_space s)"
proof (induction s rule: trim_left_space.induct)
  case (1 s)
  show ?case
  proof (cases "find (\<lambda>r. has_prefix s r) space_runes")
    case None
    then show ?thesis
      by (simp add: trim_left_space.simps [of s]) (simp add: starts_blank_def find_list_ex)
  next
    case (Some r)
    with 1 show ?thesis by (simp add: trim_left_space.simps [of s])
  qed
qed

lemma trim_right_space_done: "\<not> ends_blank (trim_right_space s)"
proof (induction s rule: trim_right_space.induct)
  case (1 s)
  show ?case
  proof (cases "find (\<lambda>r. has_suffix s r) space_runes")
    case None
    then show ?thesis
      by (simp add: trim_right_space.simps [of s]) (simp add: ends_blank_def find_list_ex)
  next
    case (Some r)
    with 1 show ?thesis by (simp add: trim_right_space.simps [of s])
  qed
qed

lemma trim_right_space_prefix: "\<exists>t. s = trim_right_space s @ t"
proof (induction s rule: trim_right_space.induct)
  case (1 s)
  show ?case
  proof (cases "find (\<lambda>r. has_suffix s r) space_runes")
    case None
    then show ?thesis by (simp add: trim_right_space.simps [of s])
  next
    case (Some r)
    from 1 [OF Some] obtain t where "take (length s - length r) s = trim_right_space (take (length s - length r) s) @ t" by blast
    with Some show ?thesis
      by (metis append.assoc append_take_drop_id option.simps(5) trim_right_space.simps)
  qed
qed

lemma has_prefix_extend: "has_prefix s p \<Longrightarrow> has_prefix (s @ t) p"
  by (metis append.assoc append_take_drop_id has_prefix_append has_prefix_iff)

lemma trim_space_done: "\<not> starts_blank (trim_space s)" "\<not> ends_blank (trim_space s)"
proof -
  show "\<not> ends_blank (trim_space s)" by (simp add: trim_space_def trim_right_space_done)
  obtain t where "trim_left_space s = trim_space s @ t"
    using trim_right_space_prefix by (auto simp: trim_space_def)
  with trim_left_space_done [of s] show "\<not> starts_blank (trim_space s)"
    unfolding starts_blank_def list_ex_iff by (metis has_prefix_extend)
qed

lemma trim_space_idem [simp]: "trim_space (trim_space s) = trim_space s"
  by (simp add: trim_space_id trim_space_done)

section \<open>Splitting and joining\<close>

text \<open>\<^verbatim>\<open>strings.Split\<close> and \<^verbatim>\<open>strings.Join\<close> with a separator of one byte.\<close>

fun split_byte :: "byte \<Rightarrow> bytes \<Rightarrow> bytes list" where
  "split_byte c [] = [[]]"
| "split_byte c (b # bs) =
     (if b = c then [] # split_byte c bs
      else (case split_byte c bs of [] \<Rightarrow> [[b]] | p # ps \<Rightarrow> (b # p) # ps))"

fun join_byte :: "byte \<Rightarrow> bytes list \<Rightarrow> bytes" where
  "join_byte c [] = []"
| "join_byte c [p] = p"
| "join_byte c (p # q # ps) = p @ [c] @ join_byte c (q # ps)"

lemma split_byte_not_Nil [simp]: "split_byte c s \<noteq> []"
  by (induction s) (auto split: list.splits)

lemma split_byte_pieces: "p \<in> set (split_byte c s) \<Longrightarrow> c \<notin> set p"
  by (induction s arbitrary: p) (auto split: if_splits list.splits)

lemma split_byte_whole: "c \<notin> set s \<Longrightarrow> split_byte c s = [s]"
  by (induction s) auto

lemma split_byte_append: "c \<notin> set p \<Longrightarrow> split_byte c (p @ c # s) = p # split_byte c s"
  by (induction p) auto

lemma split_byte_append_last: "c \<notin> set p \<Longrightarrow> split_byte c (s @ c # p) = split_byte c s @ [p]"
proof (induction s)
  case Nil
  then show ?case by (simp add: split_byte_whole)
next
  case (Cons b s)
  then show ?case by (cases "split_byte c s") auto
qed

lemma join_split [simp]: "join_byte c (split_byte c s) = s"
proof (induction s)
  case (Cons b s)
  obtain p ps where sp: "split_byte c s = p # ps" by (cases "split_byte c s") auto
  with Cons show ?case by (cases ps) auto
qed simp

end
