(* ===== verification/ClusterConfig.thy ===== *)
theory ClusterConfig
  imports GoStrings
begin

text \<open>
  How a node of the cluster is configured (\<^verbatim>\<open>cluster.go\<close>): its identity, the URL it advertises, its peers and
  their discovery through DNS.

  The environment variables, the host name and the network interfaces are the record \<open>environment\<close> (an unset
  variable is the empty string, as for \<^verbatim>\<open>os.Getenv\<close>). \<^verbatim>\<open>url.Parse\<close>, \<^verbatim>\<open>net.SplitHostPort\<close> and \<^verbatim>\<open>net.LookupHost\<close> are parameters
  that return what the code reads of their results.
\<close>

section \<open>Data\<close>

record netIP =
  ip_isNil :: bool
  ip_IsLoopback :: bool
  ip_IsUnspecified :: bool
  ip_IsLinkLocalUnicast :: bool
  ip_IsLinkLocalMulticast :: bool
  ip_To4 :: "bytes option"
  ip_String :: bytes

record netInterface =
  if_up :: bool
  if_loopback :: bool
  if_Addrs :: "netIP list option"

record environment =
  Getenv :: "bytes \<Rightarrow> bytes"
  Hostname :: "bytes option"
  Interfaces :: "netInterface list option"

record parsed_url =
  u_Scheme :: bytes
  u_Host :: bytes
  u_Hostname :: bytes
  u_Port :: bytes

record ClusterConfig =
  cc_AdvertiseURL :: bytes
  cc_NodeID :: bytes
  cc_Peers :: "bytes list"
  cc_HeadlessDNS :: "bytes list"
  cc_RequestTimeout :: int
  cc_HeartbeatInterval :: int
  cc_FanoutWorkers :: int

datatype config_error =
    SecretRequired | PortRequired | InvalidPort bytes | EmptyPort | NoAdvertiseHost
  | ParseAdvertiseURLFailed bytes | BadScheme bytes | NoHost bytes | NoPort bytes | AdvertisePortInvalid bytes

section \<open>Strings\<close>

fun firstNonEmpty :: "bytes list \<Rightarrow> bytes" where
  "firstNonEmpty [] = []"
| "firstNonEmpty (value # values) = (let value = trim_space value in if value \<noteq> [] then value else firstNonEmpty values)"

fun split_parts :: "bytes list \<Rightarrow> bytes list" where
  "split_parts [] = []"
| "split_parts (part # parts) = (let part = trim_space part in if part \<noteq> [] then part # split_parts parts else split_parts parts)"

definition splitEnvList :: "environment \<Rightarrow> bytes \<Rightarrow> bytes list" where
  "splitEnvList env key =
     (let value = trim_space (Getenv env key) in
      if value = [] then [] else split_parts (split_byte (CHR '','') value))"

definition allDigits :: "bytes \<Rightarrow> bool" where
  "allDigits value \<longleftrightarrow> value \<noteq> [] \<and> list_all (\<lambda>b. \<not> (b < CHR ''0'' \<or> b > CHR ''9'')) value"

definition isKubernetesHash :: "bytes \<Rightarrow> nat \<Rightarrow> nat \<Rightarrow> bool" where
  "isKubernetesHash value minLen maxLen \<longleftrightarrow>
     \<not> (length value < minLen \<or> length value > maxLen)
     \<and> list_all (\<lambda>c. \<not> ((c < CHR ''0'' \<or> c > CHR ''9'') \<and> (c < CHR ''a'' \<or> c > CHR ''z''))) value"

definition inferClusterServiceName :: "bytes \<Rightarrow> bytes" where
  "inferClusterServiceName podName =
     (let parts = split_byte (CHR ''-'') (trim_space podName) in
      if length parts < 2 then []
      else (let final = last parts in
        if allDigits final then join_byte (CHR ''-'') (butlast parts)
        else if length parts \<ge> 3 \<and> isKubernetesHash (parts ! (length parts - 2)) 8 12 \<and> isKubernetesHash final 5 5
        then join_byte (CHR ''-'') (take (length parts - 2) parts)
        else []))"

definition serviceEnvByte :: "byte \<Rightarrow> byte" where
  "serviceEnvByte c =
     (if c \<ge> CHR ''a'' \<and> c \<le> CHR ''z'' then char_of (bval c - bval (CHR ''a'') + bval (CHR ''A''))
      else if c \<ge> CHR ''A'' \<and> c \<le> CHR ''Z'' then c
      else if c \<ge> CHR ''0'' \<and> c \<le> CHR ''9'' then c
      else CHR ''_'')"

definition serviceEnvKey :: "bytes \<Rightarrow> bytes" where
  "serviceEnvKey service = map serviceEnvByte service"

section \<open>Identity, service, port\<close>

definition resolveNodeID :: "environment \<Rightarrow> bytes \<Rightarrow> bytes" where
  "resolveNodeID env configured =
     (if configured \<noteq> [] then configured
      else if trim_space (Getenv env ''POD_NAME'') \<noteq> [] then trim_space (Getenv env ''POD_NAME'')
      else if trim_space (Getenv env ''HOSTNAME'') \<noteq> [] then trim_space (Getenv env ''HOSTNAME'')
      else (case Hostname env of Some hostname \<Rightarrow> hostname | None \<Rightarrow> []))"

definition defaultPeers :: "environment \<Rightarrow> bytes list \<Rightarrow> bytes list" where
  "defaultPeers env configured =
     (if configured \<noteq> [] then configured
      else if splitEnvList env ''SIO_CLUSTER_PEERS'' \<noteq> [] then splitEnvList env ''SIO_CLUSTER_PEERS''
      else splitEnvList env ''SOCKETIO_CLUSTER_PEERS'')"

definition defaultClusterServiceName :: "environment \<Rightarrow> bytes" where
  "defaultClusterServiceName env =
     (let service = firstNonEmpty [Getenv env ''SIO_CLUSTER_SERVICE'', Getenv env ''SOCKETIO_CLUSTER_SERVICE'', Getenv env ''SERVICE_NAME''] in
      if service \<noteq> [] then service
      else inferClusterServiceName (firstNonEmpty [Getenv env ''POD_NAME'', Getenv env ''HOSTNAME'']))"

definition defaultKubernetesNamespace :: "environment \<Rightarrow> bytes" where
  "defaultKubernetesNamespace env =
     firstNonEmpty [Getenv env ''POD_NAMESPACE'', Getenv env ''NAMESPACE'', Getenv env ''KUBERNETES_NAMESPACE'']"

definition defaultHeadlessDNS :: "environment \<Rightarrow> bytes list \<Rightarrow> bytes list" where
  "defaultHeadlessDNS env configured =
     (if configured \<noteq> [] then configured
      else if splitEnvList env ''SIO_CLUSTER_HEADLESS_DNS'' \<noteq> [] then splitEnvList env ''SIO_CLUSTER_HEADLESS_DNS''
      else if splitEnvList env ''SOCKETIO_CLUSTER_HEADLESS_DNS'' \<noteq> [] then splitEnvList env ''SOCKETIO_CLUSTER_HEADLESS_DNS''
      else (let service = defaultClusterServiceName env; namespace = defaultKubernetesNamespace env in
        if service = [] then []
        else if namespace = [] then [service]
        else [service @ ''.'' @ namespace @ ''.svc'']))"

definition validatePort :: "bytes \<Rightarrow> config_error option" where
  "validatePort port =
     (case atoi port of
        None \<Rightarrow> Some (InvalidPort port)
      | Some n \<Rightarrow> if n \<le> 0 \<or> n > 65535 then Some (InvalidPort port) else None)"

definition defaultClusterPort :: "environment \<Rightarrow> bytes \<Rightarrow> bytes option" where
  "defaultClusterPort env configured =
     (let port = firstNonEmpty [configured, Getenv env ''SIO_CLUSTER_PORT'', Getenv env ''SOCKETIO_CLUSTER_PORT'',
                                Getenv env ''SOCKETIO_PORT'', Getenv env ''PORT'', Getenv env ''HTTP_PORT''] in
      if port \<noteq> [] then Some (trim_prefix port '':'')
      else (let service = defaultClusterServiceName env in
        if service \<noteq> [] then
          (let port = trim_prefix (Getenv env (serviceEnvKey service @ ''_SERVICE_PORT'')) '':'' in
           if port \<noteq> [] then Some port else None)
        else None))"

section \<open>The advertised URL\<close>

definition validateAdvertiseURL ::
    "(bytes \<Rightarrow> parsed_url option) \<Rightarrow> bytes \<Rightarrow> (config_error, bytes) result" where
  "validateAdvertiseURL url_parse value =
     (case url_parse value of
        None \<Rightarrow> Inl (ParseAdvertiseURLFailed value)
      | Some u \<Rightarrow>
          if u_Scheme u \<noteq> ''http'' \<and> u_Scheme u \<noteq> ''https'' then Inl (BadScheme value)
          else if u_Hostname u = [] then Inl (NoHost value)
          else if u_Port u = [] then Inl (NoPort value)
          else if validatePort (u_Port u) \<noteq> None then Inl (AdvertisePortInvalid value)
          else Inr value)"

text \<open>The loops of \<^verbatim>\<open>firstNonLoopbackIP\<close> over the addresses of an interface and over the interfaces.\<close>

fun first_address :: "netIP list \<Rightarrow> bytes option" where
  "first_address [] = None"
| "first_address (ip # ips) =
     (if ip_isNil ip \<or> ip_IsLoopback ip \<or> ip_IsUnspecified ip \<or> ip_IsLinkLocalUnicast ip \<or> ip_IsLinkLocalMulticast ip
      then first_address ips
      else Some (case ip_To4 ip of Some v4 \<Rightarrow> v4 | None \<Rightarrow> ip_String ip))"

fun first_interface :: "netInterface list \<Rightarrow> bytes" where
  "first_interface [] = []"
| "first_interface (iface # ifaces) =
     (if \<not> if_up iface \<or> if_loopback iface then first_interface ifaces
      else (case if_Addrs iface of
          None \<Rightarrow> first_interface ifaces
        | Some addrs \<Rightarrow> (case first_address addrs of Some ip \<Rightarrow> ip | None \<Rightarrow> first_interface ifaces)))"

definition firstNonLoopbackIP :: "environment \<Rightarrow> bytes" where
  "firstNonLoopbackIP env = (case Interfaces env of None \<Rightarrow> [] | Some ifaces \<Rightarrow> first_interface ifaces)"

definition defaultPodDNSHost :: "environment \<Rightarrow> bytes" where
  "defaultPodDNSHost env =
     (let pod = firstNonEmpty [Getenv env ''POD_NAME'', Getenv env ''HOSTNAME'']; service = defaultClusterServiceName env;
          namespace = defaultKubernetesNamespace env
      in if pod = [] \<or> service = [] then []
         else if namespace = [] then pod @ ''.'' @ service
         else pod @ ''.'' @ service @ ''.'' @ namespace @ ''.svc'')"

definition defaultAdvertiseHost :: "environment \<Rightarrow> bytes" where
  "defaultAdvertiseHost env =
     (let host = firstNonEmpty [Getenv env ''SIO_CLUSTER_HOST'', Getenv env ''SOCKETIO_CLUSTER_HOST'', Getenv env ''POD_IP'', Getenv env ''HOST_IP''] in
      if host \<noteq> [] then host
      else if defaultPodDNSHost env \<noteq> [] then defaultPodDNSHost env
      else if firstNonLoopbackIP env \<noteq> [] then firstNonLoopbackIP env
      else (case Hostname env of
          Some hostname \<Rightarrow> if trim_space hostname \<noteq> [] then trim_space hostname else ''127.0.0.1''
        | None \<Rightarrow> ''127.0.0.1''))"

text \<open>\<^verbatim>\<open>net.JoinHostPort\<close> puts brackets around a host with a colon.\<close>

definition join_host_port :: "bytes \<Rightarrow> bytes \<Rightarrow> bytes" where
  "join_host_port host port = (if CHR '':'' \<in> set host then ''['' @ host @ '']:'' @ port else host @ '':'' @ port)"

definition defaultAdvertiseURL ::
    "environment \<Rightarrow> (bytes \<Rightarrow> parsed_url option) \<Rightarrow> bytes \<Rightarrow> ClusterConfig \<Rightarrow> (config_error, bytes) result" where
  "defaultAdvertiseURL env url_parse port config =
     (let value = firstNonEmpty [cc_AdvertiseURL config, Getenv env ''SIO_CLUSTER_ADVERTISE_URL'',
                                 Getenv env ''SOCKETIO_CLUSTER_ADVERTISE_URL'', Getenv env ''SOCKETIO_ADVERTISE_URL''] in
      if value \<noteq> [] then validateAdvertiseURL url_parse value
      else (case defaultClusterPort env port of
          None \<Rightarrow> Inl PortRequired
        | Some port \<Rightarrow>
            (case validatePort port of
               Some err \<Rightarrow> Inl err
             | None \<Rightarrow>
                 if port = [] then Inl EmptyPort
                 else (let host = defaultAdvertiseHost env in
                   if host = [] then Inl NoAdvertiseHost
                   else Inr (firstNonEmpty [Getenv env ''SIO_CLUSTER_SCHEME'', Getenv env ''SOCKETIO_CLUSTER_SCHEME'', ''http'']
                             @ ''://'' @ join_host_port host port)))))"

section \<open>Peers\<close>

definition transport_cluster :: bytes where
  "transport_cluster = ''?transport=cluster''"

text \<open>One turn of the loop of \<^verbatim>\<open>normalizePeers\<close>.\<close>

definition normalize_peer :: "bytes \<Rightarrow> bytes \<Rightarrow> bytes option" where
  "normalize_peer path peer =
     (let peer = trim_space peer in
      if peer = [] then None
      else (let peer = (if \<not> has_prefix peer ''http://'' \<and> \<not> has_prefix peer ''https://'' then ''http://'' @ peer else peer) in
        if contains peer transport_cluster then Some peer
        else if \<not> has_suffix peer path then Some (trim_right_byte peer (CHR ''/'') @ path @ transport_cluster)
        else Some peer))"

definition normalizePeers :: "bytes list \<Rightarrow> bytes \<Rightarrow> bytes list" where
  "normalizePeers peers path = List.map_filter (normalize_peer path) peers"

definition appendClusterQuery :: "bytes \<Rightarrow> bytes \<Rightarrow> bytes" where
  "appendClusterQuery peer query = peer @ (if contains peer ''?'' then ''&'' else ''?'') @ query"

section \<open>The node\<close>

record clusterNode =
  cn_nodeID :: bytes
  cn_advertiseURL :: bytes
  cn_path :: bytes
  cn_secret :: bytes
  cn_peers :: "bytes list"
  cn_dnsNames :: "bytes list"
  cn_requestTimeout :: int
  cn_heartbeatInterval :: int
  cn_jobs :: "int option"
  cn_workerCount :: int
  cn_started :: bool

definition peerSnapshot :: "clusterNode \<Rightarrow> bytes list" where
  "peerSnapshot c = cn_peers c"

text \<open>The peers one DNS name contributes.\<close>

definition dns_peers ::
    "clusterNode \<Rightarrow> parsed_url \<Rightarrow> bytes \<Rightarrow> bytes list \<Rightarrow> bytes list \<Rightarrow> bytes list" where
  "dns_peers c u port selfHosts ips =
     filter (\<lambda>peer. peer \<noteq> cn_advertiseURL c @ cn_path c @ transport_cluster)
       (map (\<lambda>ip. u_Scheme u @ ''://'' @ join_host_port ip port @ cn_path c @ transport_cluster)
         (filter (\<lambda>ip. ip \<notin> set selfHosts) ips))"

definition refreshDNSPeers ::
    "environment \<Rightarrow> (bytes \<Rightarrow> parsed_url option) \<Rightarrow> (bytes \<Rightarrow> bytes) \<Rightarrow> (bytes \<Rightarrow> bytes list option) \<Rightarrow> clusterNode \<Rightarrow> clusterNode" where
  "refreshDNSPeers env url_parse port_of lookup_host c =
     (if cn_dnsNames c = [] \<or> cn_advertiseURL c = [] then c
      else (case url_parse (cn_advertiseURL c) of
          None \<Rightarrow> c
        | Some u \<Rightarrow>
            (let port = port_of (u_Host u);
                 host = trim_space (u_Hostname u);
                 podIP = trim_space (Getenv env ''POD_IP'');
                 selfHosts = (if host \<noteq> [] then [host] else []) @ (if podIP \<noteq> [] then [podIP] else [])
             in if port = [] then c
                else c\<lparr>cn_peers := concat (map (\<lambda>name. case lookup_host name of
                          None \<Rightarrow> [] | Some ips \<Rightarrow> dns_peers c u port selfHosts ips) (cn_dnsNames c))\<rparr>)))"

text \<open>\<^verbatim>\<open>cmp.Or(a, b)\<close>\<close>

definition cmp_Or :: "int \<Rightarrow> int \<Rightarrow> int" where
  "cmp_Or a b = (if a \<noteq> 0 then a else b)"

definition second :: int where
  "second = 1000000000"

definition newClusterNode ::
    "environment \<Rightarrow> (bytes \<Rightarrow> parsed_url option) \<Rightarrow> (bytes \<Rightarrow> bytes) \<Rightarrow> (bytes \<Rightarrow> bytes list option)
     \<Rightarrow> bytes \<Rightarrow> bytes \<Rightarrow> bytes \<Rightarrow> bytes \<Rightarrow> ClusterConfig \<Rightarrow> (config_error, clusterNode) result" where
  "newClusterNode env url_parse port_of lookup_host path node port secret config =
     (let secret = trim_space secret in
      if secret = [] then Inl SecretRequired
      else (case defaultAdvertiseURL env url_parse port config of
          Inl err \<Rightarrow> Inl err
        | Inr advertiseURL \<Rightarrow>
            (let workers = cmp_Or (cc_FanoutWorkers config) 8;
                 c = \<lparr>cn_nodeID = (if cc_NodeID config = [] then node else cc_NodeID config),
                      cn_advertiseURL = trim_right_byte advertiseURL (CHR ''/''), cn_path = path, cn_secret = secret,
                      cn_peers = normalizePeers (defaultPeers env (cc_Peers config)) path,
                      cn_dnsNames = defaultHeadlessDNS env (cc_HeadlessDNS config),
                      cn_requestTimeout = cmp_Or (cc_RequestTimeout config) second,
                      cn_heartbeatInterval = cmp_Or (cc_HeartbeatInterval config) second,
                      cn_jobs = None, cn_workerCount = (if workers < 1 then 1 else workers), cn_started = False\<rparr>;
                 c = refreshDNSPeers env url_parse port_of lookup_host c
             in Inr (if cn_peers c \<noteq> [] \<or> cn_dnsNames c \<noteq> [] then c\<lparr>cn_jobs := Some (cn_workerCount c * 4)\<rparr> else c))))"

text \<open>The goroutines \<^verbatim>\<open>start\<close> starts: the number of fan-out workers, and whether the DNS refresher runs.\<close>

definition cluster_start :: "clusterNode \<Rightarrow> (nat \<times> bool) \<times> clusterNode" where
  "cluster_start c =
     (if cn_started c then ((0, False), c)
      else ((if cn_jobs c \<noteq> None then nat (cn_workerCount c) else 0, cn_dnsNames c \<noteq> []), c\<lparr>cn_started := True\<rparr>))"

section \<open>Lemmas\<close>

lemma firstNonEmpty_trimmed: "trim_space (firstNonEmpty vs) = firstNonEmpty vs"
proof (induction vs)
  case Nil
  have "\<not> starts_blank []" "\<not> ends_blank []" by (simp_all add: starts_blank_def ends_blank_def space_runes_def has_suffix_def)
  then show ?case by (simp add: trim_space_id)
qed (simp add: Let_def)

lemma validatePort_bounds: "validatePort port = None \<longleftrightarrow> (\<exists>n. atoi port = Some n \<and> 1 \<le> n \<and> n \<le> 65535)"
  by (auto simp: validatePort_def split: option.splits)

lemma trim_right_byte_done: "\<not> has_suffix (trim_right_byte s c) [c]"
proof
  assume "has_suffix (trim_right_byte s c) [c]"
  then obtain r where "rev (dropWhile (\<lambda>b. b = c) (rev s)) = r @ [c]" by (auto simp: has_suffix_iff trim_right_byte_def)
  then have "dropWhile (\<lambda>b. b = c) (rev s) = c # rev r" by (metis rev_eq_Cons_iff rev_rev_ident rev.simps(2) rev_append append_Cons append_Nil)
  then show False using hd_dropWhile [of "\<lambda>b. b = c" "rev s"] by auto
qed

lemma trim_right_byte_append:
  assumes "s \<noteq> []" "last s \<noteq> c"
  shows "trim_right_byte (s @ r) c = s @ trim_right_byte r c"
proof -
  obtain s' where "s = s' @ [last s]" using assms(1) by (metis append_butlast_last_id)
  then have "dropWhile (\<lambda>b. b = c) (rev s) = rev s" using assms(2) by (metis (full_types) dropWhile.simps(2) rev_eq_Cons_iff rev_rev_ident)
  then show ?thesis
    by (cases "\<forall>b \<in> set r. b = c") (auto simp: trim_right_byte_def dropWhile_append)
qed

lemma has_prefix_split: "has_prefix s p \<Longrightarrow> s = p @ drop (length p) s"
  by (metis append_take_drop_id has_prefix_iff)

definition http_peer :: "bytes \<Rightarrow> bool" where
  "http_peer p \<longleftrightarrow> has_prefix p ''http:'' \<or> has_prefix p ''https:''"

lemma http_peer_trim:
  assumes "has_prefix q ''http://'' \<or> has_prefix q ''https://''"
  shows "http_peer q \<and> http_peer (trim_right_byte q (CHR ''/'') @ r)"
proof -
  have "\<exists>t. q = ''http:'' @ ''//'' @ t \<or> q = ''https:'' @ ''//'' @ t"
    using assms has_prefix_split [of q "''http:'' @ ''//''"] has_prefix_split [of q "''https:'' @ ''//''"]
    by (metis append.assoc append_Cons append_Nil)
  then obtain h t where q: "q = h @ ''//'' @ t" "h = ''http:'' \<or> h = ''https:''" by blast
  then have "trim_right_byte q (CHR ''/'') = h @ trim_right_byte (''//'' @ t) (CHR ''/'')"
    unfolding q(1) using q(2) by (intro trim_right_byte_append) auto
  with q show ?thesis by (auto simp: http_peer_def)
qed

lemma normalize_peer_shape:
  assumes "normalize_peer path peer = Some p"
  shows "http_peer p \<and> (contains p transport_cluster \<or> has_suffix p path)"
proof -
  define q where "q = (if \<not> has_prefix (trim_space peer) ''http://'' \<and> \<not> has_prefix (trim_space peer) ''https://''
    then ''http://'' @ trim_space peer else trim_space peer)"
  have q: "has_prefix q ''http://'' \<or> has_prefix q ''https://''"
    using has_prefix_append [of "''http://''" "trim_space peer"] by (auto simp: q_def)
  have norm: "normalize_peer path peer = (if trim_space peer = [] then None
      else if contains q transport_cluster then Some q
      else if \<not> has_suffix q path then Some (trim_right_byte q (CHR ''/'') @ path @ transport_cluster) else Some q)"
    by (simp only: normalize_peer_def Let_def q_def)
  then have cases: "p = q \<and> (contains p transport_cluster \<or> has_suffix p path)
      \<or> p = trim_right_byte q (CHR ''/'') @ path @ transport_cluster"
    using assms by (auto split: if_splits)
  have "contains ((trim_right_byte q (CHR ''/'') @ path) @ transport_cluster @ []) transport_cluster"
    by (rule contains_append)
  with cases http_peer_trim [OF q, of "path @ transport_cluster"] show ?thesis by auto
qed

text \<open>A name as Kubernetes admits it begins with a letter or a digit; no such byte begins or ends a blank.\<close>

definition name_byte :: "byte \<Rightarrow> bool" where
  "name_byte c \<longleftrightarrow> CHR ''0'' \<le> c \<and> c \<le> CHR ''9'' \<or> CHR ''a'' \<le> c \<and> c \<le> CHR ''z''"

definition graph_byte :: "byte \<Rightarrow> bool" where
  "graph_byte c \<longleftrightarrow> 33 \<le> bval c \<and> bval c \<le> 126"

lemma name_byte_graph: "name_byte c \<Longrightarrow> graph_byte c"
  by (auto simp: name_byte_def graph_byte_def less_eq_char_def)

lemma space_runes_name: "r \<in> set space_runes \<Longrightarrow> \<not> graph_byte (hd r) \<and> \<not> graph_byte (last r)"
  by (auto simp: space_runes_def graph_byte_def)

lemma name_not_blank:
  assumes "s \<noteq> []" "graph_byte (hd s)" "graph_byte (last s)"
  shows "trim_space s = s"
proof (rule trim_space_id)
  show "\<not> starts_blank s"
  proof
    assume "starts_blank s"
    then obtain r where r: "r \<in> set space_runes" "has_prefix s r" by (auto simp: starts_blank_def list_ex_iff)
    then have "hd s = hd r" using has_prefix_split [of s r] space_runes_not_Nil [OF r(1)] by (metis hd_append2)
    with assms(2) space_runes_name [OF r(1)] show False by simp
  qed
  show "\<not> ends_blank s"
  proof
    assume "ends_blank s"
    then obtain r where r: "r \<in> set space_runes" "has_suffix s r" by (auto simp: ends_blank_def list_ex_iff)
    then have "last s = last r" using space_runes_not_Nil [OF r(1)] by (auto simp: has_suffix_iff)
    with assms(3) space_runes_name [OF r(1)] show False by simp
  qed
qed

lemma allDigits_names: "allDigits d \<Longrightarrow> d \<noteq> [] \<and> (\<forall>b \<in> set d. name_byte b \<and> b \<noteq> CHR ''-'')"
  by (auto simp: allDigits_def list_all_iff name_byte_def not_less)

lemma isKubernetesHash_names: "isKubernetesHash h lo hi \<Longrightarrow> (\<forall>b \<in> set h. name_byte b \<and> b \<noteq> CHR ''-'') \<and> lo \<le> length h"
  by (auto simp: isKubernetesHash_def list_all_iff name_byte_def not_less)

lemma pod_parts:
  assumes "s \<noteq> []" "name_byte (hd s)" "d \<noteq> []" "\<forall>b \<in> set d. name_byte b \<and> b \<noteq> CHR ''-''"
  shows "split_byte (CHR ''-'') (trim_space (s @ ''-'' @ d)) = split_byte (CHR ''-'') s @ [d]"
proof -
  have "name_byte (last d)" using assms(3,4) last_in_set by blast
  then have "graph_byte (hd s)" "graph_byte (last d)" using assms(2) by (simp_all only: name_byte_graph)
  then have "trim_space (s @ ''-'' @ d) = s @ ''-'' @ d"
    using assms(1,3) by (intro name_not_blank) (simp_all only: append_is_Nil_conv hd_append2 last_appendR last_ConsR append_Cons append_Nil list.distinct simp_thms)
  moreover have "CHR ''-'' \<notin> set d" using assms(4) by blast
  ultimately show ?thesis using split_byte_append_last [of "CHR ''-''" d s] by simp
qed

lemma infer_ordinal:
  assumes "s \<noteq> []" "name_byte (hd s)" "allDigits d"
  shows "inferClusterServiceName (s @ ''-'' @ d) = s"
proof -
  have "1 \<le> length (split_byte (CHR ''-'') s)" by (cases "split_byte (CHR ''-'') s") auto
  moreover have parts: "split_byte (CHR ''-'') (trim_space (s @ ''-'' @ d)) = split_byte (CHR ''-'') s @ [d]"
    using allDigits_names [OF assms(3)] by (intro pod_parts assms) blast+
  ultimately show ?thesis
    unfolding inferClusterServiceName_def Let_def parts using assms(3) by simp
qed

lemma infer_hash:
  assumes "s \<noteq> []" "name_byte (hd s)" "isKubernetesHash h 8 12" "isKubernetesHash x 5 5" "\<not> allDigits x"
  shows "inferClusterServiceName (s @ ''-'' @ h @ ''-'' @ x) = s"
proof -
  note hn = isKubernetesHash_names [OF assms(3)] and xn = isKubernetesHash_names [OF assms(4)]
  let ?sp = "split_byte (CHR ''-'') s"
  have "x \<noteq> []" using conjunct2 [OF xn] by (cases x) simp_all
  then have "split_byte (CHR ''-'') (trim_space ((s @ ''-'' @ h) @ ''-'' @ x)) = split_byte (CHR ''-'') (s @ ''-'' @ h) @ [x]"
    using assms(1,2) conjunct1 [OF xn] by (intro pod_parts) simp_all
  also have "split_byte (CHR ''-'') (s @ ''-'' @ h) = ?sp @ [h]"
  proof -
    have "CHR ''-'' \<notin> set h" using conjunct1 [OF hn] by blast
    from split_byte_append_last [OF this, of s] show ?thesis by simp
  qed
  finally have parts: "split_byte (CHR ''-'') (trim_space (s @ ''-'' @ h @ ''-'' @ x)) = ?sp @ [h, x]" by simp
  have "1 \<le> length ?sp" by (cases ?sp) simp_all
  then show ?thesis
    unfolding inferClusterServiceName_def Let_def parts using assms(3-5) by (simp add: nth_append)
qed

lemma contains_subset: "contains s p \<Longrightarrow> set p \<subseteq> set s"
proof (induction s)
  case Nil
  then show ?case by (simp add: contains_def split: if_splits)
next
  case (Cons b s)
  show ?case
  proof (cases "has_prefix (b # s) p")
    case True
    then have "b # s = p @ drop (length p) (b # s)" by (rule has_prefix_split)
    then show ?thesis by (metis Un_iff set_append subsetI)
  next
    case False
    with Cons show ?thesis by (auto simp: contains_def)
  qed
qed

lemma advertised_url:
  assumes "defaultAdvertiseURL env url_parse port config = Inr url"
  shows "validateAdvertiseURL url_parse url = Inr url
    \<or> (\<exists>p. url = firstNonEmpty [Getenv env ''SIO_CLUSTER_SCHEME'', Getenv env ''SOCKETIO_CLUSTER_SCHEME'', ''http''] @ ''://''
           @ join_host_port (defaultAdvertiseHost env) p \<and> (\<exists>n. atoi p = Some n \<and> 1 \<le> n \<and> n \<le> 65535))"
proof -
  define given where "given = firstNonEmpty [cc_AdvertiseURL config, Getenv env ''SIO_CLUSTER_ADVERTISE_URL'',
    Getenv env ''SOCKETIO_CLUSTER_ADVERTISE_URL'', Getenv env ''SOCKETIO_ADVERTISE_URL'']"
  show ?thesis
  proof (cases "given = []")
    case False
    then have "validateAdvertiseURL url_parse given = Inr url"
      using assms unfolding defaultAdvertiseURL_def given_def [symmetric] by simp
    moreover from this have "url = given" by (auto simp: validateAdvertiseURL_def split: option.splits if_splits)
    ultimately show ?thesis by simp
  next
    case True
    with assms obtain p where "defaultClusterPort env port = Some p" "validatePort p = None"
        "url = firstNonEmpty [Getenv env ''SIO_CLUSTER_SCHEME'', Getenv env ''SOCKETIO_CLUSTER_SCHEME'', ''http''] @ ''://''
           @ join_host_port (defaultAdvertiseHost env) p"
      unfolding defaultAdvertiseURL_def given_def [symmetric]
      by (auto simp: Let_def simp del: firstNonEmpty.simps split: option.splits if_splits)
    then show ?thesis using validatePort_bounds [of p] by blast
  qed
qed

lemma refresh_found:
  assumes "cn_dnsNames c \<noteq> []" "cn_advertiseURL c \<noteq> []" "url_parse (cn_advertiseURL c) = Some u" "port_of (u_Host u) \<noteq> []"
  shows "refreshDNSPeers env url_parse port_of lookup_host c =
    c\<lparr>cn_peers := concat (map (\<lambda>name. case lookup_host name of None \<Rightarrow> []
       | Some ips \<Rightarrow> dns_peers c u (port_of (u_Host u)) ((if trim_space (u_Hostname u) \<noteq> [] then [trim_space (u_Hostname u)] else [])
            @ (if trim_space (Getenv env ''POD_IP'') \<noteq> [] then [trim_space (Getenv env ''POD_IP'')] else [])) ips) (cn_dnsNames c))\<rparr>"
  unfolding refreshDNSPeers_def Let_def using assms by simp

lemma dns_peers_static: "dns_peers (c\<lparr>cn_peers := static\<rparr>) = dns_peers c"
  by (simp add: dns_peers_def fun_eq_iff)

text \<open>A node outside Kubernetes, for the examples: no environment, no interfaces.\<close>

definition plain_env :: environment where
  "plain_env = \<lparr>Getenv = (\<lambda>_. []), Hostname = None, Interfaces = None\<rparr>"

definition plain_url :: parsed_url where
  "plain_url = \<lparr>u_Scheme = ''http'', u_Host = ''h:80'', u_Hostname = ''h'', u_Port = ''80''\<rparr>"

definition plain_config :: ClusterConfig where
  "plain_config = \<lparr>cc_AdvertiseURL = ''http://h:80/'', cc_NodeID = [], cc_Peers = [''peer''], cc_HeadlessDNS = [],
     cc_RequestTimeout = 0, cc_HeartbeatInterval = 0, cc_FanoutWorkers = -3\<rparr>"

definition plain_node :: clusterNode where
  "plain_node = \<lparr>cn_nodeID = ''n'', cn_advertiseURL = ''http://h:80'', cn_path = ''/socket.io/'', cn_secret = ''s'',
     cn_peers = [''http://peer/socket.io/?transport=cluster''], cn_dnsNames = [''svc''], cn_requestTimeout = second, cn_heartbeatInterval = second,
     cn_jobs = Some 4, cn_workerCount = 1, cn_started = False\<rparr>"

section \<open>What the configuration guarantees\<close>

text \<open>
  A node that is configured can work: its secret is not blank, it has at least one fan-out worker, a job
  queue exactly when there is something to fan out to, its advertised URL ends in no slash, and unless the
  URL was given explicitly the port in it is a number between 1 and 65535.
\<close>

theorem configured_node_valid:
  assumes "newClusterNode env url_parse port_of lookup_host path node port secret config = Inr c"
  shows "cn_secret c \<noteq> [] \<and> trim_space (cn_secret c) = cn_secret c
    \<and> 1 \<le> cn_workerCount c \<and> cn_jobs c = (if cn_peers c = [] \<and> cn_dnsNames c = [] then None else Some (cn_workerCount c * 4))
    \<and> \<not> has_suffix (cn_advertiseURL c) ''/''
    \<and> (\<exists>url p. cn_advertiseURL c = trim_right_byte url (CHR ''/'') \<and>
         (validateAdvertiseURL url_parse url = Inr url
          \<or> url = firstNonEmpty [Getenv env ''SIO_CLUSTER_SCHEME'', Getenv env ''SOCKETIO_CLUSTER_SCHEME'', ''http''] @ ''://''
                  @ join_host_port (defaultAdvertiseHost env) p
            \<and> (\<exists>n. atoi p = Some n \<and> 1 \<le> n \<and> n \<le> 65535)))"
proof -
  obtain url where url: "defaultAdvertiseURL env url_parse port config = Inr url"
    using assms by (auto simp: newClusterNode_def Let_def split: if_splits sum.splits)
  define c0 where "c0 = \<lparr>cn_nodeID = (if cc_NodeID config = [] then node else cc_NodeID config),
      cn_advertiseURL = trim_right_byte url (CHR ''/''), cn_path = path, cn_secret = trim_space secret,
      cn_peers = normalizePeers (defaultPeers env (cc_Peers config)) path,
      cn_dnsNames = defaultHeadlessDNS env (cc_HeadlessDNS config),
      cn_requestTimeout = cmp_Or (cc_RequestTimeout config) second,
      cn_heartbeatInterval = cmp_Or (cc_HeartbeatInterval config) second,
      cn_jobs = None, cn_workerCount = (if cmp_Or (cc_FanoutWorkers config) 8 < 1 then 1 else cmp_Or (cc_FanoutWorkers config) 8),
      cn_started = False\<rparr>"
  define c1 where "c1 = refreshDNSPeers env url_parse port_of lookup_host c0"
  have c: "trim_space secret \<noteq> []"
      "c = (if cn_peers c1 \<noteq> [] \<or> cn_dnsNames c1 \<noteq> [] then c1\<lparr>cn_jobs := Some (cn_workerCount c1 * 4)\<rparr> else c1)"
    using assms url by (auto simp: newClusterNode_def Let_def c0_def [symmetric] c1_def [symmetric] split: if_splits)
  have c1: "cn_secret c1 = trim_space secret" "cn_workerCount c1 = cn_workerCount c0" "cn_jobs c1 = None"
      "cn_advertiseURL c1 = trim_right_byte url (CHR ''/'')"
    by (simp_all add: c1_def refreshDNSPeers_def c0_def Let_def split: option.split)
  have "1 \<le> cn_workerCount c1" by (simp add: c1 c0_def)
  moreover have "validateAdvertiseURL url_parse url = Inr url
      \<or> (\<exists>p. url = firstNonEmpty [Getenv env ''SIO_CLUSTER_SCHEME'', Getenv env ''SOCKETIO_CLUSTER_SCHEME'', ''http''] @ ''://''
             @ join_host_port (defaultAdvertiseHost env) p \<and> (\<exists>n. atoi p = Some n \<and> 1 \<le> n \<and> n \<le> 65535))"
    by (rule advertised_url) (rule url)
  ultimately show ?thesis using c c1 trim_right_byte_done [of url "CHR ''/''"] by auto
qed

theorem configured_node_valid_witness:
  "newClusterNode plain_env (\<lambda>_. Some plain_url) (\<lambda>_. ''80'') (\<lambda>_. None) ''/socket.io/'' ''n'' [] '' s'' plain_config
     = Inr (plain_node\<lparr>cn_dnsNames := []\<rparr>)
   \<and> \<not> has_suffix (cn_advertiseURL (plain_node\<lparr>cn_dnsNames := []\<rparr>)) ''/''"
proof -
  have "newClusterNode plain_env (\<lambda>_. Some plain_url) (\<lambda>_. ''80'') (\<lambda>_. None) ''/socket.io/'' ''n'' [] '' s'' plain_config
     = Inr (plain_node\<lparr>cn_dnsNames := []\<rparr>)" by code_simp
  then show ?thesis using configured_node_valid by blast
qed

text \<open>
  The service a pod belongs to is read off its name: for a pod of a StatefulSet (name, dash, ordinal) and for one of a Deployment (name, dash,
  hash, dash, random suffix) it is the name, unless the random suffix happens to consist of digits: then the
  hash is taken for a part of the name.
\<close>

theorem service_name_inferred:
  assumes "s \<noteq> []" "name_byte (hd s)"
  shows "(allDigits d \<longrightarrow> inferClusterServiceName (s @ ''-'' @ d) = s)
    \<and> (isKubernetesHash h 8 12 \<longrightarrow> isKubernetesHash x 5 5 \<longrightarrow> inferClusterServiceName (s @ ''-'' @ h @ ''-'' @ x)
         = (if allDigits x then s @ ''-'' @ h else s))"
proof -
  have "inferClusterServiceName ((s @ ''-'' @ h) @ ''-'' @ x) = s @ ''-'' @ h" if "allDigits x"
    using assms that by (intro infer_ordinal) auto
  then show ?thesis using infer_ordinal [OF assms] infer_hash [OF assms] by simp
qed

theorem service_name_inferred_witness:
  "inferClusterServiceName ''chat-12'' = ''chat'' \<and> inferClusterServiceName ''chat-5d9f8c7b6d-x2k4p'' = ''chat''
   \<and> inferClusterServiceName ''chat-5d9f8c7b6d-24689'' = ''chat-5d9f8c7b6d''"
proof -
  have d: "allDigits ''12''" "isKubernetesHash ''5d9f8c7b6d'' 8 12" "isKubernetesHash ''x2k4p'' 5 5" "isKubernetesHash ''24689'' 5 5"
      "\<not> allDigits ''x2k4p''" "allDigits ''24689''" "name_byte (CHR ''c'')" by code_simp+
  then show ?thesis
    using service_name_inferred [of "''chat''" "''12''" "''5d9f8c7b6d''" "''x2k4p''"]
      service_name_inferred [of "''chat''" "''12''" "''5d9f8c7b6d''" "''24689''"] by simp
qed

text \<open>
  Configured peers: every one is an HTTP URL, and names the cluster transport unless it ends in the path
  of the server.
\<close>

theorem normalized_peers_shape:
  assumes "p \<in> set (normalizePeers peers path)"
  shows "http_peer p \<and> (contains p transport_cluster \<or> has_suffix p path)"
proof -
  obtain peer where "normalize_peer path peer = Some p"
    using assms by (auto simp: normalizePeers_def List.map_filter_def)
  then show ?thesis by (rule normalize_peer_shape)
qed

theorem normalized_peers_shape_witness:
  "http_peer ''http://a/socket.io/?transport=cluster''
   \<and> (contains ''http://a/socket.io/?transport=cluster'' transport_cluster \<or> has_suffix ''http://a/socket.io/?transport=cluster'' ''/socket.io/'')"
proof -
  have "normalizePeers ['' a/''] ''/socket.io/'' = [''http://a/socket.io/?transport=cluster'']" by code_simp
  then show ?thesis
    using normalized_peers_shape [of "''http://a/socket.io/?transport=cluster''" "['' a/'']" "''/socket.io/''"] by simp
qed

text \<open>
  A peer written with the path, and without a query, is kept as it is: requests to it carry no
  transport at all.
\<close>

theorem peer_with_path_loses_transport:
  assumes "CHR ''?'' \<notin> set host"
  shows "normalizePeers [''http://'' @ host @ ''/socket.io/''] ''/socket.io/'' = [''http://'' @ host @ ''/socket.io/'']
    \<and> appendClusterQuery (''http://'' @ host @ ''/socket.io/'') q = ''http://'' @ host @ ''/socket.io/'' @ ''?'' @ q"
proof -
  let ?p = "''http://'' @ host @ ''/socket.io/''"
  have query: "CHR ''?'' \<notin> set ?p" using assms by simp
  then have plain: "\<not> contains ?p transport_cluster" "\<not> contains ?p ''?''"
    using contains_subset [of ?p transport_cluster] contains_subset [of ?p "''?''"] by (auto simp: transport_cluster_def)
  have "trim_space ?p = ?p" by (rule name_not_blank) (simp_all add: graph_byte_def)
  moreover have "has_prefix ?p ''http://''" by (rule has_prefix_append)
  moreover have "has_suffix ?p ''/socket.io/''" using has_suffix_append [of "''http://'' @ host"] by (simp only: append_assoc)
  ultimately have "normalize_peer ''/socket.io/'' ?p = Some ?p"
    unfolding normalize_peer_def Let_def using plain by simp
  with plain show ?thesis by (simp add: normalizePeers_def List.map_filter_def appendClusterQuery_def)
qed

theorem peer_with_path_loses_transport_witness:
  "normalizePeers [''http://b/socket.io/''] ''/socket.io/'' = [''http://b/socket.io/'']
   \<and> appendClusterQuery ''http://b/socket.io/'' ''q=1'' = ''http://b/socket.io/?q=1''"
  using peer_with_path_loses_transport [of "''b''" "''q=1''"] by simp

text \<open>
  DNS discovery replaces the peer list: whatever peers were configured, after a refresh with a DNS name and
  an advertised URL with a port the peers are those the DNS names give, and never the node itself.
\<close>

theorem dns_refresh_replaces_peers:
  assumes "cn_dnsNames c \<noteq> []" "cn_advertiseURL c \<noteq> []" "url_parse (cn_advertiseURL c) = Some u" "port_of (u_Host u) \<noteq> []"
  shows "refreshDNSPeers env url_parse port_of lookup_host (c\<lparr>cn_peers := static\<rparr>) = refreshDNSPeers env url_parse port_of lookup_host c
    \<and> cn_advertiseURL c @ cn_path c @ transport_cluster \<notin> set (cn_peers (refreshDNSPeers env url_parse port_of lookup_host c))"
proof
  note found = refresh_found [of _ url_parse u port_of env lookup_host]
  show "refreshDNSPeers env url_parse port_of lookup_host (c\<lparr>cn_peers := static\<rparr>) = refreshDNSPeers env url_parse port_of lookup_host c"
    using found [of "c\<lparr>cn_peers := static\<rparr>"] found [OF assms] assms unfolding dns_peers_static by simp
  show "cn_advertiseURL c @ cn_path c @ transport_cluster \<notin> set (cn_peers (refreshDNSPeers env url_parse port_of lookup_host c))"
    unfolding found [OF assms] by (auto simp: dns_peers_def split: option.splits)
qed

theorem dns_refresh_replaces_peers_witness:
  "refreshDNSPeers plain_env (\<lambda>_. Some plain_url) (\<lambda>_. ''80'') (\<lambda>_. None) (plain_node\<lparr>cn_peers := [''http://peer/'']\<rparr>)
     = refreshDNSPeers plain_env (\<lambda>_. Some plain_url) (\<lambda>_. ''80'') (\<lambda>_. None) plain_node
   \<and> cn_peers (refreshDNSPeers plain_env (\<lambda>_. Some plain_url) (\<lambda>_. ''80'') (\<lambda>_. None) plain_node) = []"
proof -
  have "cn_peers (refreshDNSPeers plain_env (\<lambda>_. Some plain_url) (\<lambda>_. ''80'') (\<lambda>_. None) plain_node) = []"
    by (simp add: refreshDNSPeers_def plain_node_def plain_url_def Let_def concat_eq_Nil_conv)
  then show ?thesis
    using dns_refresh_replaces_peers [of plain_node "\<lambda>_. Some plain_url" plain_url "\<lambda>_. ''80''" plain_env "\<lambda>_. None" "[''http://peer/'']"]
    by (simp add: plain_node_def)
qed

end
