(* ===== verification/ServerState.thy ===== *)
theory ServerState
  imports Encode ClusterCodec ClusterConfig
begin

text \<open>
  The state of a server: connections (\<^verbatim>\<open>engineConn\<close>), sockets (\<^verbatim>\<open>serverSocket\<close>), namespaces (\<^verbatim>\<open>Namespace\<close>) and
  the \<^verbatim>\<open>Server\<close> that holds them, with the counters of \<^verbatim>\<open>metrics.go\<close>.

  Sockets and connections are objects shared by pointer: they live in the two heaps of the server record and
  are referred to by their index. A namespace is never removed, so its name stands for the pointer to it.
  Calls of user code, error reports and forwarded acknowledgements are recorded, in order, in the trace
  \<open>sv_out\<close>; a Go panic deep inside an operation is the effect \<open>Panicked\<close>, after which the trace has no meaning. What the code takes from outside (JSON encoding and decoding, the results of the user's
  middlewares) is the record \<open>outside\<close> that the operations take as an argument, the clock an argument \<open>now\<close>.
\<close>

section \<open>Counters\<close>

record metricsRecorder =
  me_engineConnectionsOpened :: u64
  me_engineConnectionsClosed :: u64
  me_engineConnectionsActive :: u64
  me_socketsConnected :: u64
  me_socketsClosed :: u64
  me_socketsActive :: u64
  me_socketsRecovered :: u64
  me_packetsIn :: "u64 list"
  me_packetsOut :: "u64 list"
  me_packetBytesIn :: u64
  me_packetBytesOut :: u64
  me_binaryIn :: u64
  me_binaryOut :: u64
  me_parserErrors :: u64
  me_emitsTotal :: u64
  me_broadcastsTotal :: u64
  me_acksRegistered :: u64
  me_acksResolved :: u64
  me_acksTimedOut :: u64
  me_clusterRequestsReceived :: u64
  me_clusterRequestsSent :: u64
  me_clusterRequestsFailed :: u64
  me_clusterResponsesFailed :: u64

definition newMetricsRecorder :: metricsRecorder where
  "newMetricsRecorder = \<lparr>me_engineConnectionsOpened = 0, me_engineConnectionsClosed = 0, me_engineConnectionsActive = 0,
     me_socketsConnected = 0, me_socketsClosed = 0, me_socketsActive = 0, me_socketsRecovered = 0,
     me_packetsIn = replicate 7 0, me_packetsOut = replicate 7 0, me_packetBytesIn = 0, me_packetBytesOut = 0,
     me_binaryIn = 0, me_binaryOut = 0, me_parserErrors = 0, me_emitsTotal = 0, me_broadcastsTotal = 0,
     me_acksRegistered = 0, me_acksResolved = 0, me_acksTimedOut = 0, me_clusterRequestsReceived = 0,
     me_clusterRequestsSent = 0, me_clusterRequestsFailed = 0, me_clusterResponsesFailed = 0\<rparr>"

section \<open>Objects\<close>

type_synonym connref = nat

datatype Reason =
    ReasonTransportClose | ReasonTransportError | ReasonPingTimeout | ReasonServerShuttingDown
  | ReasonServerNamespaceDisconnect | ReasonClientNamespaceDisconnect

record engineFrame =
  ef_binary :: bool
  ef_data :: bytes

record pollQueue =
  pq_ready :: bool
  pq_frames :: "engineFrame list"

record pendingBinaryPacket =
  pb_packet :: PacketView
  pb_binary :: "bytes list"

text \<open>A \<^verbatim>\<open>broadcastAckTarget\<close>: a tracker of this server, or a forwarder to the node that broadcast.\<close>

record remoteAckForwarder =
  fw_origin :: bytes
  fw_id :: u64
  fw_nodeID :: bytes
  fw_secret :: bytes

datatype broadcastAckTarget = Tracker nat | Forwarder remoteAckForwarder

record engineConn =
  ec_sid :: bytes
  ec_wsRequest :: bool
  ec_ws :: bool
  ec_poll :: pollQueue
  ec_send :: "engineFrame list"
  ec_socketsByNsp :: "(bytes \<times> sockref) list"
  ec_broadcastAcks :: "(u64 \<times> broadcastAckTarget) list"
  ec_closed :: bool
  ec_pendingBinary :: "pendingBinaryPacket option"

record 'ty serverSocket =
  so_id :: SocketID
  so_pid :: bytes
  so_conn :: connref
  so_namespace :: bytes
  so_connected :: bool
  so_recovered :: bool
  so_recoverySession :: "recoverySession option"
  so_handlers :: "'ty eventHandlers"
  so_acks :: "'ty ackHandler ackStore"
  so_errorHandlers :: callbackStore
  so_disconnectingHandlers :: callbackStore
  so_disconnectHandlers :: callbackStore

record 'ty Namespace =
  ns_adapter :: localAdapter
  ns_middlewares :: "fnptr list"
  ns_connections :: callbackStore
  ns_handlers :: "'ty eventHandlers"

section \<open>Errors and effects\<close>

datatype sio_error =
    EmptyEnginePacket bytes | PollingBase64Failed bytes
  | ParseFailed bytes packet_error | BinaryBeforeComplete bytes | UnexpectedAttachment bytes | NamespaceNotConnected bytes bytes
  | AckWithoutID SocketID | AckFailed SocketID u64 handler_error | HandlerFailed handler_error
  | EmitEncodeFailed SocketID bytes nat | BroadcastEncodeFailed bytes bytes nat | ServerSideEncodeFailed bytes nat
  | InitFailed config_error | PostFailed bytes bytes | PostCreateFailed bytes bytes | PostReadFailed bytes bytes | PostReturned bytes bytes nat
  | FetchDecodeFailed bytes | CSRDecodeFailed bytes cluster_error
  | WebSocketAcceptFailed bytes | WebSocketUpgradeFailed bytes | WebSocketOpenFailed bytes

datatype run_error = ServerClosed | InitError config_error | PingIntervalTooShort | PingTimeoutTooShort

datatype ('ty, 'v) effect =
    Called "('ty, 'v) invocation"
  | CalledConnection fnptr sockref
  | CalledMiddleware fnptr SocketID bytes
  | CalledNewNamespace fnptr bytes
  | CalledDisconnecting fnptr Reason
  | CalledDisconnect fnptr Reason
  | CalledError fnptr sio_error
  | Reported sio_error
  | ClosedWebSocket connref Reason
  | PostedAck remoteAckForwarder bytes
  | Panicked

section \<open>The server\<close>

record ('ty, 'v) Server =
  sv_path :: bytes
  sv_acceptAnyNsp :: bool
  sv_pingInterval :: int
  sv_pingTimeout :: int
  sv_connectTimeout :: int
  sv_onError :: bool
  sv_recoverySkipMiddlewares :: bool
  sv_initErr :: "config_error option"
  sv_node :: bytes
  sv_seq :: u64
  sv_metrics :: metricsRecorder
  sv_recovery :: "recoveryStore option"
  sv_namespaces :: "(bytes \<times> 'ty Namespace) list"
  sv_conns :: "(bytes \<times> connref) list"
  sv_broadcasts :: "'ty broadcastAcks"
  sv_cluster :: "clusterNode option"
  sv_newNspHooks :: callbackStore
  sv_anyConn :: callbackStore
  sv_ran :: bool
  sv_runErr :: "run_error option"
  sv_stopped :: bool
  sv_running :: bool
  sv_connHeap :: "engineConn list"
  sv_socketHeap :: "'ty serverSocket list"
  sv_out :: "('ty, 'v) effect list"

record ('ty, 'v) outside =
  x_unmarshal :: "'ty gotype \<Rightarrow> bytes \<Rightarrow> 'v option"
  x_valid :: "bytes \<Rightarrow> bool"
  x_marshal :: "('ty, 'v) anyarg \<Rightarrow> bytes option"
  x_isprint :: "nat \<Rightarrow> bool"
  x_middleware :: "fnptr \<Rightarrow> SocketID \<Rightarrow> bytes \<Rightarrow> bytes option"
  x_recoveryAuth :: "bytes \<Rightarrow> bytes \<times> bytes"
  x_decodeSnapshots :: "bytes \<Rightarrow> (SocketID \<times> Room list) list option"
  x_encodeSnapshots :: "(SocketID \<times> Room list) list \<Rightarrow> bytes"

abbreviation conn_at :: "('ty, 'v) Server \<Rightarrow> connref \<Rightarrow> engineConn" where
  "conn_at s c \<equiv> sv_connHeap s ! c"

abbreviation socket_at :: "('ty, 'v) Server \<Rightarrow> sockref \<Rightarrow> 'ty serverSocket" where
  "socket_at s k \<equiv> sv_socketHeap s ! k"

definition upd_conn :: "connref \<Rightarrow> (engineConn \<Rightarrow> engineConn) \<Rightarrow> ('ty, 'v) Server \<Rightarrow> ('ty, 'v) Server" where
  "upd_conn c f s = s\<lparr>sv_connHeap := (sv_connHeap s)[c := f (conn_at s c)]\<rparr>"

definition upd_socket :: "sockref \<Rightarrow> ('ty serverSocket \<Rightarrow> 'ty serverSocket) \<Rightarrow> ('ty, 'v) Server \<Rightarrow> ('ty, 'v) Server" where
  "upd_socket k f s = s\<lparr>sv_socketHeap := (sv_socketHeap s)[k := f (socket_at s k)]\<rparr>"

definition upd_nsp :: "bytes \<Rightarrow> ('ty Namespace \<Rightarrow> 'ty Namespace) \<Rightarrow> ('ty, 'v) Server \<Rightarrow> ('ty, 'v) Server" where
  "upd_nsp name f s =
     (case map_of (sv_namespaces s) name of
        None \<Rightarrow> s
      | Some n \<Rightarrow> s\<lparr>sv_namespaces := AList.update name (f n) (sv_namespaces s)\<rparr>)"

definition upd_metrics :: "(metricsRecorder \<Rightarrow> metricsRecorder) \<Rightarrow> ('ty, 'v) Server \<Rightarrow> ('ty, 'v) Server" where
  "upd_metrics f s = s\<lparr>sv_metrics := f (sv_metrics s)\<rparr>"

definition emit_out :: "('ty, 'v) effect list \<Rightarrow> ('ty, 'v) Server \<Rightarrow> ('ty, 'v) Server" where
  "emit_out es s = s\<lparr>sv_out := sv_out s @ es\<rparr>"

definition adapter_of :: "('ty, 'v) Server \<Rightarrow> bytes \<Rightarrow> localAdapter" where
  "adapter_of s name = (case map_of (sv_namespaces s) name of None \<Rightarrow> newLocalAdapter | Some n \<Rightarrow> ns_adapter n)"

definition reportError :: "sio_error \<Rightarrow> ('ty, 'v) Server \<Rightarrow> ('ty, 'v) Server" where
  "reportError err s = (if sv_onError s then emit_out [Reported err] s else s)"

section \<open>Constructors\<close>

definition newPollQueue :: pollQueue where
  "newPollQueue = \<lparr>pq_ready = False, pq_frames = []\<rparr>"

definition newEngineConn :: "bytes \<Rightarrow> bool \<Rightarrow> engineConn" where
  "newEngineConn sid wsRequest = \<lparr>ec_sid = sid, ec_wsRequest = wsRequest, ec_ws = False, ec_poll = newPollQueue, ec_send = [],
     ec_socketsByNsp = [], ec_broadcastAcks = [], ec_closed = False, ec_pendingBinary = None\<rparr>"

definition newServerSocket :: "connref \<Rightarrow> bytes \<Rightarrow> SocketID \<Rightarrow> 'ty serverSocket" where
  "newServerSocket conn namespace sid = \<lparr>so_id = sid, so_pid = [], so_conn = conn, so_namespace = namespace, so_connected = False,
     so_recovered = False, so_recoverySession = None, so_handlers = [], so_acks = newAckStore,
     so_errorHandlers = empty_callbacks, so_disconnectingHandlers = empty_callbacks, so_disconnectHandlers = empty_callbacks\<rparr>"

definition newNamespace :: "'ty Namespace" where
  "newNamespace = \<lparr>ns_adapter = newLocalAdapter, ns_middlewares = [], ns_connections = empty_callbacks, ns_handlers = []\<rparr>"

text \<open>\<^verbatim>\<open>idGenerator.next\<close>, with the encoded random bytes as an argument.\<close>

definition ids_next :: "bytes \<Rightarrow> ('ty, 'v) Server \<Rightarrow> bytes \<times> ('ty, 'v) Server" where
  "ids_next random s =
     (let seq = sv_seq s + 1 in (sv_node s @ ''-'' @ format_uint seq @ ''-'' @ random, s\<lparr>sv_seq := seq\<rparr>))"

end
