(* ===== verification/EngineConn.thy ===== *)
theory EngineConn
  imports ServerState
begin

text \<open>
  Sending on a connection and closing it: the frame queues of \<^verbatim>\<open>engine_conn.go\<close> and \<^verbatim>\<open>frame.go\<close>, \<^verbatim>\<open>serverSocket.onClose\<close> of
  \<^verbatim>\<open>socket.go\<close>, \<^verbatim>\<open>Namespace.remove\<close> of \<^verbatim>\<open>namespace.go\<close> and the connection table of \<^verbatim>\<open>server.go\<close>.
\<close>

section \<open>Frames and the poll queue\<close>

definition newEngineMessageFrame :: "bytes \<Rightarrow> engineFrame" where
  "newEngineMessageFrame packet = \<lparr>ef_binary = False, ef_data = CHR ''4'' # packet\<rparr>"

definition newEngineTextFrame :: "bytes \<Rightarrow> engineFrame" where
  "newEngineTextFrame data = \<lparr>ef_binary = False, ef_data = data\<rparr>"

definition newEngineBinaryFrame :: "bytes \<Rightarrow> engineFrame" where
  "newEngineBinaryFrame data = \<lparr>ef_binary = True, ef_data = data\<rparr>"

text \<open>\<^verbatim>\<open>q.ready\<close> is a channel of capacity one; a full channel is left as it is.\<close>

definition poll_add :: "pollQueue \<Rightarrow> engineFrame \<Rightarrow> pollQueue" where
  "poll_add q f = q\<lparr>pq_frames := pq_frames q @ [f], pq_ready := True\<rparr>"

text \<open>
  \<^verbatim>\<open>take\<close> on an empty queue waits for \<^verbatim>\<open>ready\<close>. The argument \<open>arrives\<close> is the frame that is added while it waits, or
  \<^const>\<open>None\<close> when the timer fires first.
\<close>

definition poll_take :: "engineFrame option \<Rightarrow> pollQueue \<Rightarrow> engineFrame list \<times> pollQueue" where
  "poll_take arrives q =
     (if length (pq_frames q) > 0 then (pq_frames q, q\<lparr>pq_frames := []\<rparr>)
      else if pq_ready q then (pq_frames q, q\<lparr>pq_ready := False, pq_frames := []\<rparr>)
      else (case arrives of
          None \<Rightarrow> (pq_frames q, q\<lparr>pq_frames := []\<rparr>)
        | Some f \<Rightarrow> (let q' = poll_add q f in (pq_frames q', q'\<lparr>pq_ready := False, pq_frames := []\<rparr>))))"

section \<open>The connection table\<close>

definition addConn :: "engineConn \<Rightarrow> ('ty, 'v) Server \<Rightarrow> connref \<times> ('ty, 'v) Server" where
  "addConn c s =
     (let ref = length (sv_connHeap s) in
      (ref, upd_metrics (\<lambda>m. m\<lparr>me_engineConnectionsOpened := me_engineConnectionsOpened m + 1,
                               me_engineConnectionsActive := me_engineConnectionsActive m + 1\<rparr>)
              (s\<lparr>sv_connHeap := sv_connHeap s @ [c], sv_conns := AList.update (ec_sid c) ref (sv_conns s)\<rparr>)))"

definition getConn :: "('ty, 'v) Server \<Rightarrow> bytes \<Rightarrow> connref option" where
  "getConn s sid = map_of (sv_conns s) sid"

definition removeConn :: "bytes \<Rightarrow> ('ty, 'v) Server \<Rightarrow> ('ty, 'v) Server" where
  "removeConn sid s =
     (if map_of (sv_conns s) sid \<noteq> None
      then upd_metrics (\<lambda>m. m\<lparr>me_engineConnectionsClosed := me_engineConnectionsClosed m + 1,
                              me_engineConnectionsActive := me_engineConnectionsActive m - 1\<rparr>)
             (s\<lparr>sv_conns := AList.delete sid (sv_conns s)\<rparr>)
      else s)"

definition conn_addSocket :: "connref \<Rightarrow> sockref \<Rightarrow> ('ty, 'v) Server \<Rightarrow> ('ty, 'v) Server" where
  "conn_addSocket c k s =
     upd_conn c (\<lambda>e. e\<lparr>ec_socketsByNsp := AList.update (so_namespace (socket_at s k)) k (ec_socketsByNsp e)\<rparr>) s"

definition conn_removeSocket :: "connref \<Rightarrow> bytes \<Rightarrow> ('ty, 'v) Server \<Rightarrow> ('ty, 'v) Server" where
  "conn_removeSocket c namespace s = upd_conn c (\<lambda>e. e\<lparr>ec_socketsByNsp := AList.delete namespace (ec_socketsByNsp e)\<rparr>) s"

definition registerBroadcastAck :: "connref \<Rightarrow> u64 \<Rightarrow> broadcastAckTarget \<Rightarrow> ('ty, 'v) Server \<Rightarrow> ('ty, 'v) Server" where
  "registerBroadcastAck c ident target s =
     upd_conn c (\<lambda>e. e\<lparr>ec_broadcastAcks := AList.update ident target (ec_broadcastAcks e)\<rparr>) s"

section \<open>Closing\<close>

definition nsp_remove :: "sockref \<Rightarrow> ('ty, 'v) Server \<Rightarrow> ('ty, 'v) Server" where
  "nsp_remove k s =
     upd_metrics (\<lambda>m. m\<lparr>me_socketsClosed := me_socketsClosed m + 1, me_socketsActive := me_socketsActive m - 1\<rparr>)
       (upd_nsp (so_namespace (socket_at s k)) (\<lambda>n. n\<lparr>ns_adapter := removeSocket (so_id (socket_at s k)) (ns_adapter n)\<rparr>) s)"

definition isRecoverableDisconnect :: "Reason \<Rightarrow> bool" where
  "isRecoverableDisconnect reason \<longleftrightarrow>
     (case reason of
        ReasonTransportClose \<Rightarrow> True | ReasonTransportError \<Rightarrow> True | ReasonPingTimeout \<Rightarrow> True
      | _ \<Rightarrow> False)"

text \<open>\<^verbatim>\<open>forEach\<close> on one of the callback stores of a socket.\<close>

definition run_disconnecting :: "sockref \<Rightarrow> Reason \<Rightarrow> ('ty, 'v) Server \<Rightarrow> ('ty, 'v) Server" where
  "run_disconnecting k reason s =
     (let (fs, store) = callbacks_forEach (so_disconnectingHandlers (socket_at s k)) in
      emit_out (map (\<lambda>f. CalledDisconnecting f reason) fs) (upd_socket k (\<lambda>x. x\<lparr>so_disconnectingHandlers := store\<rparr>) s))"

definition run_disconnect :: "sockref \<Rightarrow> Reason \<Rightarrow> ('ty, 'v) Server \<Rightarrow> ('ty, 'v) Server" where
  "run_disconnect k reason s =
     (let (fs, store) = callbacks_forEach (so_disconnectHandlers (socket_at s k)) in
      emit_out (map (\<lambda>f. CalledDisconnect f reason) fs) (upd_socket k (\<lambda>x. x\<lparr>so_disconnectHandlers := store\<rparr>) s))"

definition save_session :: "sockref \<Rightarrow> Reason \<Rightarrow> time \<Rightarrow> ('ty, 'v) Server \<Rightarrow> ('ty, 'v) Server" where
  "save_session k reason now s =
     (case sv_recovery s of
        None \<Rightarrow> s
      | Some r \<Rightarrow>
          if so_pid (socket_at s k) \<noteq> [] \<and> isRecoverableDisconnect reason
          then s\<lparr>sv_recovery := Some (recovery_save (so_namespace (socket_at s k)) (so_pid (socket_at s k)) (so_id (socket_at s k))
                  (socketRooms (so_id (socket_at s k)) (adapter_of s (so_namespace (socket_at s k)))) now r)\<rparr>
          else s)"

definition socket_onClose :: "Reason \<Rightarrow> time \<Rightarrow> sockref \<Rightarrow> ('ty, 'v) Server \<Rightarrow> ('ty, 'v) Server" where
  "socket_onClose reason now k s =
     (if \<not> so_connected (socket_at s k) then s
      else (let s1 = upd_socket k (\<lambda>x. x\<lparr>so_connected := False\<rparr>) s;
                s2 = run_disconnecting k reason s1;
                s3 = save_session k reason now s2;
                s4 = nsp_remove k s3;
                s5 = conn_removeSocket (so_conn (socket_at s4 k)) (so_namespace (socket_at s4 k)) s4;
                s6 = run_disconnect k reason s5
            in upd_socket k (\<lambda>x. x\<lparr>so_recoverySession := None\<rparr>) s6))"

definition conn_close :: "connref \<Rightarrow> Reason \<Rightarrow> time \<Rightarrow> ('ty, 'v) Server \<Rightarrow> ('ty, 'v) Server" where
  "conn_close c reason now s =
     (if ec_closed (conn_at s c) then s
      else (let s1 = upd_conn c (\<lambda>e. e\<lparr>ec_closed := True\<rparr>) s;
                sockets = map snd (ec_socketsByNsp (conn_at s1 c));
                s2 = foldl (\<lambda>s k. socket_onClose reason now k s) s1 sockets;
                s3 = (if ec_ws (conn_at s2 c) then emit_out [ClosedWebSocket c reason] s2 else s2);
                s4 = upd_conn c (\<lambda>e. e\<lparr>ec_pendingBinary := None\<rparr>) s3
            in removeConn (ec_sid (conn_at s4 c)) s4))"

section \<open>Sending\<close>

text \<open>The capacity of the channel \<^verbatim>\<open>send\<close>.\<close>

definition send_capacity :: nat where
  "send_capacity = 256"

definition enqueueFrame :: "time \<Rightarrow> connref \<Rightarrow> engineFrame \<Rightarrow> ('ty, 'v) Server \<Rightarrow> ('ty, 'v) Server" where
  "enqueueFrame now c f s =
     (if ec_closed (conn_at s c) then s
      else if \<not> ec_ws (conn_at s c) then upd_conn c (\<lambda>e. e\<lparr>ec_poll := poll_add (ec_poll e) f\<rparr>) s
      else if length (ec_send (conn_at s c)) < send_capacity then upd_conn c (\<lambda>e. e\<lparr>ec_send := ec_send e @ [f]\<rparr>) s
      else conn_close c ReasonTransportError now s)"

definition enqueueRaw :: "time \<Rightarrow> connref \<Rightarrow> bytes \<Rightarrow> ('ty, 'v) Server \<Rightarrow> ('ty, 'v) Server" where
  "enqueueRaw now c data s = enqueueFrame now c (newEngineTextFrame data) s"

definition add_at :: "nat \<Rightarrow> u64 list \<Rightarrow> u64 list" where
  "add_at i xs = (if i < length xs then xs[i := xs ! i + 1] else xs)"

definition send_attachments :: "time \<Rightarrow> connref \<Rightarrow> bytes list \<Rightarrow> ('ty, 'v) Server \<Rightarrow> ('ty, 'v) Server" where
  "send_attachments now c attachments s =
     foldl (\<lambda>s a. enqueueFrame now c (newEngineBinaryFrame a) (upd_metrics (\<lambda>m. m\<lparr>me_binaryOut := me_binaryOut m + 1\<rparr>) s)) s attachments"

definition sendSocketPayload :: "time \<Rightarrow> connref \<Rightarrow> bytes \<Rightarrow> bytes list \<Rightarrow> ('ty, 'v) Server \<Rightarrow> ('ty, 'v) Server" where
  "sendSocketPayload now c packet attachments s =
     (let s1 = (if length packet \<noteq> 0 \<and> packet ! 0 \<ge> CHR ''0'' \<and> packet ! 0 \<le> CHR ''6''
                then upd_metrics (\<lambda>m. m\<lparr>me_packetsOut := add_at (bval (packet ! 0) - bval (CHR ''0'')) (me_packetsOut m)\<rparr>) s else s);
          s2 = upd_metrics (\<lambda>m. m\<lparr>me_packetBytesOut := me_packetBytesOut m + of_nat (length packet)\<rparr>) s1;
          s3 = enqueueFrame now c (newEngineMessageFrame packet) s2
      in send_attachments now c attachments s3)"

definition sendSocketPacket :: "time \<Rightarrow> connref \<Rightarrow> bytes \<Rightarrow> ('ty, 'v) Server \<Rightarrow> ('ty, 'v) Server" where
  "sendSocketPacket now c packet s = sendSocketPayload now c packet [] s"

end
