(* ===== verification/Base64.thy ===== *)
theory Base64
  imports Prelude
begin

text \<open>
  \<^verbatim>\<open>base64.StdEncoding\<close> of the standard library as the polling transport uses it: encoding with padding, and decoding, which skips line
  breaks and refuses every other byte outside the alphabet, a wrong length and misplaced padding.
\<close>

definition b64_char :: "nat \<Rightarrow> byte" where
  "b64_char d =
     char_of (if d < 26 then d + 65 else if d < 52 then d + 71 else if d < 62 then d - 4 else if d = 62 then 43 else 47)"

definition b64_val :: "byte \<Rightarrow> nat option" where
  "b64_val c =
     (let x = bval c in
      if 65 \<le> x \<and> x \<le> 90 then Some (x - 65)
      else if 97 \<le> x \<and> x \<le> 122 then Some (x - 71)
      else if 48 \<le> x \<and> x \<le> 57 then Some (x + 4)
      else if x = 43 then Some 62
      else if x = 47 then Some 63
      else None)"

fun b64_encode :: "bytes \<Rightarrow> bytes" where
  "b64_encode [] = []"
| "b64_encode [a] = [b64_char (bval a div 4), b64_char (bval a mod 4 * 16), CHR ''='', CHR ''='']"
| "b64_encode [a, b] =
     [b64_char (bval a div 4), b64_char (bval a mod 4 * 16 + bval b div 16), b64_char (bval b mod 16 * 4), CHR ''='']"
| "b64_encode (a # b # c # rest) =
     [b64_char (bval a div 4), b64_char (bval a mod 4 * 16 + bval b div 16), b64_char (bval b mod 16 * 4 + bval c div 64),
      b64_char (bval c mod 64)] @ b64_encode rest"

fun b64_quanta :: "bytes \<Rightarrow> bytes option" where
  "b64_quanta [] = Some []"
| "b64_quanta (p # q # r # s # rest) =
     (case (b64_val p, b64_val q) of
        (Some x, Some y) \<Rightarrow>
          if r = CHR ''='' then (if s = CHR ''='' \<and> rest = [] then Some [char_of (x * 4 + y div 16)] else None)
          else (case b64_val r of
              None \<Rightarrow> None
            | Some z \<Rightarrow>
                if s = CHR ''='' then (if rest = [] then Some [char_of (x * 4 + y div 16), char_of (y mod 16 * 16 + z div 4)] else None)
                else (case (b64_val s, b64_quanta rest) of
                    (Some w, Some more') \<Rightarrow>
                      Some (char_of (x * 4 + y div 16) # char_of (y mod 16 * 16 + z div 4) # char_of (z mod 4 * 64 + w) # more')
                  | _ \<Rightarrow> None))
      | _ \<Rightarrow> None)"
| "b64_quanta _ = None"

definition b64_decode :: "bytes \<Rightarrow> bytes option" where
  "b64_decode s = b64_quanta (filter (\<lambda>c. c \<noteq> CHR 0x0D \<and> c \<noteq> CHR 0x0A) s)"

lemma bval_less: "bval b < 256"
  by (metis of_char_mod_256 mod_less_divisor zero_less_numeral)

lemma bval_b64_char:
  "d < 64 \<Longrightarrow> bval (b64_char d) = (if d < 26 then d + 65 else if d < 52 then d + 71 else if d < 62 then d - 4 else if d = 62 then 43 else 47)"
  by (simp add: b64_char_def)

lemma b64_val_char: "d < 64 \<Longrightarrow> b64_val (b64_char d) = Some d"
  unfolding b64_val_def Let_def by (cases "d < 26"; cases "d < 52"; cases "d < 62") (auto simp: bval_b64_char)

lemma b64_char_not: "d < 64 \<Longrightarrow> bval c \<notin> {43..57} \<union> {65..122} \<Longrightarrow> b64_char d \<noteq> c"
  using bval_b64_char [of d] by (auto split: if_splits)

lemma b64_char_props:
  assumes "d < 64"
  shows "b64_val (b64_char d) = Some d" "b64_char d \<noteq> CHR ''=''" "b64_char d \<noteq> CHR 0x0D" "b64_char d \<noteq> CHR 0x0A"
    "b64_char d \<noteq> CHR 0x1E"
  by (rule b64_val_char [OF assms], (rule b64_char_not [OF assms], simp)+)

lemma sextets:
  "bval a div 4 < 64" "bval a mod 4 * 16 < 64" "bval a mod 4 * 16 + bval b div 16 < 64" "bval b mod 16 * 4 < 64"
  "bval b mod 16 * 4 + bval c div 64 < 64" "bval c mod 64 < 64"
  using bval_less [of a] bval_less [of b] bval_less [of c] by linarith+

lemma b64_encode_clean: "c \<in> set (b64_encode s) \<Longrightarrow> c \<noteq> CHR 0x0D \<and> c \<noteq> CHR 0x0A \<and> c \<noteq> CHR 0x1E"
  by (induction s rule: b64_encode.induct) (auto simp: b64_char_props sextets)

lemma byte_parts:
  "bval b div 16 div 16 = 0" "bval b div 16 mod 16 = bval b div 16" "bval b div 64 div 4 = 0" "bval b div 64 mod 4 = bval b div 64"
  using bval_less [of b] by (simp_all add: div_mult2_eq [symmetric] less_mult_imp_div_less)

lemma b64_quanta_encode: "b64_quanta (b64_encode s) = Some s"
  by (induction s rule: b64_encode.induct) (simp_all add: b64_char_props sextets byte_parts)

lemma b64_roundtrip [codec_simps]: "b64_decode (b64_encode s) = Some s"
proof -
  have "filter (\<lambda>c. c \<noteq> CHR 0x0D \<and> c \<noteq> CHR 0x0A) (b64_encode s) = b64_encode s"
    by (rule filter_True) (auto dest: b64_encode_clean)
  then show ?thesis by (simp only: b64_decode_def b64_quanta_encode)
qed

end
