(* ===== verification/Sockets.thy ===== *)
theory Sockets
  imports EngineConn Base64
begin

text \<open>
  What arrives on a connection and what a socket does: \<^verbatim>\<open>serverSocket\<close> of \<^verbatim>\<open>socket.go\<close>, \<^verbatim>\<open>Namespace.add\<close> of \<^verbatim>\<open>namespace.go\<close>,
  \<^verbatim>\<open>Server.Of\<close> and \<^verbatim>\<open>getNamespace\<close> of \<^verbatim>\<open>server.go\<close> and the packet handling of \<^verbatim>\<open>engine_conn.go\<close>.

  User code runs as a recorded effect; what it calls is a later operation of its own. A Go panic is the left side of
  a result.
\<close>

section \<open>Errors of a socket\<close>

definition socket_onError :: "sockref \<Rightarrow> sio_error \<Rightarrow> ('ty, 'v) Server \<Rightarrow> ('ty, 'v) Server" where
  "socket_onError k err s =
     (let (fs, store) = callbacks_forEach (so_errorHandlers (socket_at s k));
          s1 = emit_out (map (\<lambda>f. CalledError f err) fs) (upd_socket k (\<lambda>x. x\<lparr>so_errorHandlers := store\<rparr>) s)
      in if sv_onError s1 then emit_out [Reported err] s1 else s1)"

section \<open>Sending from a socket\<close>

fun split_last_func :: "('ty, 'v) anyarg list \<Rightarrow> ('ty fnval \<times> ('ty, 'v) anyarg list) option" where
  "split_last_func v = (if length v > 0 then (case last v of AnyFunc f \<Rightarrow> Some (f, butlast v) | _ \<Rightarrow> None) else None)"

declare split_last_func.simps [simp del]

text \<open>Registering the acknowledgement of an emit: its id.\<close>

definition register_ack :: "time \<Rightarrow> sockref \<Rightarrow> 'ty ackHandler \<Rightarrow> int \<Rightarrow> ('ty, 'v) Server \<Rightarrow> u64 \<times> ('ty, 'v) Server" where
  "register_ack now k h timeout s =
     (let (ident, store) = acks_register (so_acks (socket_at s k)) h timeout now in
      (ident, upd_metrics (\<lambda>m. m\<lparr>me_acksRegistered := me_acksRegistered m + 1\<rparr>) (upd_socket k (\<lambda>x. x\<lparr>so_acks := store\<rparr>) s)))"

definition emit_args ::
    "('ty, 'v) outside \<Rightarrow> time \<Rightarrow> sockref \<Rightarrow> bytes \<Rightarrow> u64 \<Rightarrow> bool \<Rightarrow> ('ty, 'v) anyarg list \<Rightarrow> ('ty, 'v) Server \<Rightarrow> ('ty, 'v) Server" where
  "emit_args x now k eventName ident hasID args s =
     (case encodeAnyArgs (x_valid x) (x_marshal x) args of
        Inl i \<Rightarrow> socket_onError k (EmitEncodeFailed (so_id (socket_at s k)) eventName i) s
      | Inr encoded \<Rightarrow>
          sendSocketPayload now (so_conn (socket_at s k))
            (appendEventEncoded (x_isprint x) [] (so_namespace (socket_at s k)) ident hasID eventName encoded) (BinaryViews encoded)
            (upd_metrics (\<lambda>m. m\<lparr>me_emitsTotal := me_emitsTotal m + 1\<rparr>) s))"

definition emitWithOptions ::
    "('ty, 'v) outside \<Rightarrow> time \<Rightarrow> sockref \<Rightarrow> bytes \<Rightarrow> int \<Rightarrow> ('ty, 'v) anyarg list \<Rightarrow> ('ty, 'v) Server
     \<Rightarrow> (handler_error, ('ty, 'v) Server) result" where
  "emitWithOptions x now k eventName timeout v s =
     (if \<not> so_connected (socket_at s k) then Inr s
      else (case split_last_func v of
          None \<Rightarrow> Inr (emit_args x now k eventName 0 False v s)
        | Some (f, args) \<Rightarrow>
            (case newAckHandler f (timeout > 0) of
               Inl err \<Rightarrow> Inl err
             | Inr h \<Rightarrow>
                 (let (ident, s1) = register_ack now k h timeout s
                  in Inr (emit_args x now k eventName ident True args s1)))))"

definition sendConnect :: "time \<Rightarrow> sockref \<Rightarrow> ('ty, 'v) Server \<Rightarrow> ('ty, 'v) Server" where
  "sendConnect now k s =
     sendSocketPacket now (so_conn (socket_at s k))
       (appendConnectPacketString [] (so_namespace (socket_at s k)) (so_id (socket_at s k)) (so_pid (socket_at s k))) s"

definition sendAckEncoded :: "time \<Rightarrow> sockref \<Rightarrow> u64 \<Rightarrow> encodedArgs \<Rightarrow> ('ty, 'v) Server \<Rightarrow> ('ty, 'v) Server" where
  "sendAckEncoded now k ident encoded s =
     sendSocketPayload now (so_conn (socket_at s k)) (appendAckEncoded [] (so_namespace (socket_at s k)) ident encoded)
       (BinaryViews encoded) s"

section \<open>Rooms and registrations\<close>

definition socket_Join :: "sockref \<Rightarrow> Room list \<Rightarrow> ('ty, 'v) Server \<Rightarrow> ('ty, 'v) Server" where
  "socket_Join k room s =
     upd_nsp (so_namespace (socket_at s k)) (\<lambda>n. n\<lparr>ns_adapter := addAll (so_id (socket_at s k)) k room (ns_adapter n)\<rparr>) s"

definition socket_Leave :: "sockref \<Rightarrow> Room \<Rightarrow> ('ty, 'v) Server \<Rightarrow> ('ty, 'v) Server" where
  "socket_Leave k room s =
     upd_nsp (so_namespace (socket_at s k)) (\<lambda>n. n\<lparr>ns_adapter := adapter_delete (so_id (socket_at s k)) room (ns_adapter n)\<rparr>) s"

definition socket_Rooms :: "sockref \<Rightarrow> ('ty, 'v) Server \<Rightarrow> Room list" where
  "socket_Rooms k s = socketRooms (so_id (socket_at s k)) (adapter_of s (so_namespace (socket_at s k)))"

definition socket_OnEvent ::
    "sockref \<Rightarrow> bytes \<Rightarrow> 'ty fnval \<Rightarrow> bool \<Rightarrow> ('ty, 'v) Server \<Rightarrow> (handler_error, ('ty, 'v) Server) result" where
  "socket_OnEvent k eventName handler once s =
     (case handlers_add (so_handlers (socket_at s k)) eventName handler once of
        Inl err \<Rightarrow> Inl err
      | Inr m \<Rightarrow> Inr (upd_socket k (\<lambda>x. x\<lparr>so_handlers := m\<rparr>) s))"

definition socket_OffEvent :: "sockref \<Rightarrow> bytes \<Rightarrow> 'ty fnval list \<Rightarrow> ('ty, 'v) Server \<Rightarrow> ('ty, 'v) Server" where
  "socket_OffEvent k eventName handler s = upd_socket k (\<lambda>x. x\<lparr>so_handlers := handlers_off (so_handlers x) eventName handler\<rparr>) s"

definition socket_OffAll :: "sockref \<Rightarrow> ('ty, 'v) Server \<Rightarrow> ('ty, 'v) Server" where
  "socket_OffAll k s = upd_socket k (\<lambda>x. x\<lparr>so_handlers := handlers_offAll (so_handlers x)\<rparr>) s"

section \<open>Packets for a socket\<close>

text \<open>An acknowledgement with an id: the handler is taken out of the store and called.\<close>

definition socket_ack :: "('ty, 'v) outside \<Rightarrow> sockref \<Rightarrow> PacketView \<Rightarrow> ('ty, 'v) Server \<Rightarrow> ('ty, 'v) Server" where
  "socket_ack x k p s =
     (case acks_take (so_acks (socket_at s k)) (pv_ID p) of
        (None, _) \<Rightarrow> s
      | (Some h, store) \<Rightarrow>
          (let s1 = upd_metrics (\<lambda>m. m\<lparr>me_acksResolved := me_acksResolved m + 1\<rparr>) (upd_socket k (\<lambda>y. y\<lparr>so_acks := store\<rparr>) s);
               (made, err, _) = ack_call (x_unmarshal x) h (pv_Args p) (pv_Binary p);
               s2 = emit_out (case made of None \<Rightarrow> [] | Some c \<Rightarrow> [Called c]) s1
           in case err of None \<Rightarrow> s2 | Some e \<Rightarrow> socket_onError k (AckFailed (so_id (socket_at s2 k)) (pv_ID p) e) s2))"

definition socket_event :: "('ty, 'v) outside \<Rightarrow> sockref \<Rightarrow> PacketView \<Rightarrow> ('ty, 'v) Server \<Rightarrow> ('ty, 'v) Server" where
  "socket_event x k p s =
     (let (calls, err, m) = dispatch (x_unmarshal x) (so_handlers (socket_at s k)) p;
          s1 = emit_out (map Called calls) (upd_socket k (\<lambda>y. y\<lparr>so_handlers := m\<rparr>) s)
      in case err of None \<Rightarrow> s1 | Some e \<Rightarrow> socket_onError k (HandlerFailed e) s1)"

definition onPacket :: "('ty, 'v) outside \<Rightarrow> time \<Rightarrow> sockref \<Rightarrow> PacketView \<Rightarrow> ('ty, 'v) Server \<Rightarrow> ('ty, 'v) Server" where
  "onPacket x now k p s =
     (case pv_Type p of
        PacketEvent \<Rightarrow> socket_event x k p s
      | PacketBinaryEvent \<Rightarrow> socket_event x k p s
      | PacketAck \<Rightarrow> if \<not> pv_HasID p then socket_onError k (AckWithoutID (so_id (socket_at s k))) s else socket_ack x k p s
      | PacketBinaryAck \<Rightarrow> if \<not> pv_HasID p then socket_onError k (AckWithoutID (so_id (socket_at s k))) s else socket_ack x k p s
      | PacketDisconnect \<Rightarrow> socket_onClose ReasonClientNamespaceDisconnect now k s
      | _ \<Rightarrow> s)"

definition socket_Disconnect :: "time \<Rightarrow> sockref \<Rightarrow> bool \<Rightarrow> ('ty, 'v) Server \<Rightarrow> ('ty, 'v) Server" where
  "socket_Disconnect now k closeConn s =
     (if \<not> so_connected (socket_at s k) then s
      else (let s1 = sendSocketPacket now (so_conn (socket_at s k)) (appendDisconnectPacketString [] (so_namespace (socket_at s k))) s;
                s2 = socket_onClose ReasonServerNamespaceDisconnect now k s1
            in if closeConn then conn_close (so_conn (socket_at s2 k)) ReasonServerNamespaceDisconnect now s2 else s2))"

text \<open>The loop of \<^verbatim>\<open>serverSocket.sweepAcks\<close>.\<close>

definition time_out :: "('ty, 'v) Server \<Rightarrow> 'ty ackHandler \<Rightarrow> ('ty, 'v) Server" where
  "time_out s h =
     emit_out (case fst (ack_timeout h) of None \<Rightarrow> [] | Some c \<Rightarrow> [Called c])
       (upd_metrics (\<lambda>m. m\<lparr>me_acksTimedOut := me_acksTimedOut m + 1\<rparr>) s)"

definition socket_sweepAcks :: "time \<Rightarrow> sockref \<Rightarrow> ('ty, 'v) Server \<Rightarrow> ('ty, 'v) Server" where
  "socket_sweepAcks now k s =
     (let (hs, store) = acks_sweep (so_acks (socket_at s k)) now
      in foldl time_out (upd_socket k (\<lambda>x. x\<lparr>so_acks := store\<rparr>) s) hs)"

section \<open>Namespaces\<close>

definition server_Of :: "bytes \<Rightarrow> ('ty, 'v) Server \<Rightarrow> bytes \<times> ('ty, 'v) Server" where
  "server_Of namespace s =
     (let name = (if namespace = [] \<or> namespace ! 0 \<noteq> CHR ''/'' then ''/'' @ namespace else namespace) in
      case map_of (sv_namespaces s) name of
        Some n \<Rightarrow> (name, s)
      | None \<Rightarrow>
          (let s1 = s\<lparr>sv_namespaces := AList.update name newNamespace (sv_namespaces s)\<rparr> in
           if name \<noteq> ''/'' then
             (let (fs, store) = callbacks_forEach (sv_newNspHooks s1)
              in (name, emit_out (map (\<lambda>f. CalledNewNamespace f name) fs) (s1\<lparr>sv_newNspHooks := store\<rparr>)))
           else (name, s1)))"

definition getNamespace :: "bytes \<Rightarrow> ('ty, 'v) Server \<Rightarrow> bytes option \<times> ('ty, 'v) Server" where
  "getNamespace nspName s =
     (let name = (if nspName = [] then ''/'' else nspName) in
      if map_of (sv_namespaces s) name \<noteq> None then (Some name, s)
      else if sv_acceptAnyNsp s then (case server_Of name s of (n, s') \<Rightarrow> (Some n, s'))
      else (None, s))"

text \<open>The loop over the middlewares: the value of the first one that does not return nil.\<close>

fun run_middlewares ::
    "('ty, 'v) outside \<Rightarrow> SocketID \<Rightarrow> bytes \<Rightarrow> fnptr list \<Rightarrow> ('ty, 'v) Server \<Rightarrow> bytes option \<times> ('ty, 'v) Server" where
  "run_middlewares x sid auth [] s = (None, s)"
| "run_middlewares x sid auth (mw # mws) s =
     (let s1 = emit_out [CalledMiddleware mw sid auth] s in
      case x_middleware x mw sid auth of
        Some v \<Rightarrow> (Some v, s1)
      | None \<Rightarrow> run_middlewares x sid auth mws s1)"

text \<open>
  The first part of \<^verbatim>\<open>Namespace.add\<close>: the session to resume, if there is one, on this node or, through
  \<open>recoverCSR\<close>, on another.
\<close>

type_synonym resumed = "recoverySession \<times> recoveryPacket list"

definition find_session ::
    "(bytes \<Rightarrow> bytes \<Rightarrow> bytes \<Rightarrow> ('ty, 'v) Server \<Rightarrow> resumed option \<times> ('ty, 'v) Server)
     \<Rightarrow> ('ty, 'v) outside \<Rightarrow> bytes \<Rightarrow> bytes \<Rightarrow> time \<Rightarrow> ('ty, 'v) Server \<Rightarrow> resumed option \<times> ('ty, 'v) Server" where
  "find_session recoverCSR x name auth now s =
     (case sv_recovery s of
        None \<Rightarrow> (None, s)
      | Some r \<Rightarrow>
          (let (pid, offset) = (if length auth \<noteq> 0 then x_recoveryAuth x auth else ([], [])) in
           if pid \<noteq> [] \<and> offset \<noteq> [] then
             (let (found, r') = recovery_recover name pid offset now r; s1 = s\<lparr>sv_recovery := Some r'\<rparr> in
              if found = None \<and> sv_cluster s1 \<noteq> None then recoverCSR name pid offset s1 else (found, s1))
           else (None, s)))"

text \<open>The part after the middlewares: the socket is connected and the missed packets are sent.\<close>

definition connect_socket ::
    "time \<Rightarrow> bytes \<Rightarrow> sockref \<Rightarrow> resumed option \<Rightarrow> ('ty, 'v) Server \<Rightarrow> ('ty, 'v) Server" where
  "connect_socket now name k found s =
     (let c = so_conn (socket_at s k);
          s1 = (case found of None \<Rightarrow> s | Some (session, _) \<Rightarrow> upd_socket k (\<lambda>y. y\<lparr>so_recoverySession := Some session\<rparr>) s);
          s2 = upd_nsp name (\<lambda>n. n\<lparr>ns_adapter := addSocket (\<lambda>j. so_id (socket_at s1 j)) k (ns_adapter n)\<rparr>) s1;
          s3 = (case found of None \<Rightarrow> s2 | Some (session, _) \<Rightarrow>
                  upd_metrics (\<lambda>m. m\<lparr>me_socketsRecovered := me_socketsRecovered m + 1\<rparr>)
                    (upd_nsp name (\<lambda>n. n\<lparr>ns_adapter := addAllOwned (so_id (socket_at s2 k)) k (rs_rooms session) (ns_adapter n)\<rparr>) s2));
          s4 = conn_addSocket c k s3;
          s5 = upd_socket k (\<lambda>y. y\<lparr>so_connected := True\<rparr>) s4;
          s6 = upd_metrics (\<lambda>m. m\<lparr>me_socketsConnected := me_socketsConnected m + 1, me_socketsActive := me_socketsActive m + 1\<rparr>) s5;
          s7 = sendConnect now k s6;
          (fs, store) = (case map_of (sv_namespaces s7) name of None \<Rightarrow> ([], empty_callbacks) | Some n \<Rightarrow> callbacks_forEach (ns_connections n));
          s8 = emit_out (map (\<lambda>f. CalledConnection f k) fs) (upd_nsp name (\<lambda>n. n\<lparr>ns_connections := store\<rparr>) s7)
      in case found of None \<Rightarrow> s8
         | Some (_, replay) \<Rightarrow> foldl (\<lambda>s packet. sendSocketPayload now c (rp_packet packet) (rp_attachments packet) s) s8 replay)"

text \<open>\<open>random1\<close> and \<open>random2\<close> are the random parts of the ids it may draw.\<close>

definition nsp_add ::
    "(bytes \<Rightarrow> bytes \<Rightarrow> bytes \<Rightarrow> ('ty, 'v) Server \<Rightarrow> resumed option \<times> ('ty, 'v) Server)
     \<Rightarrow> ('ty, 'v) outside \<Rightarrow> bytes \<Rightarrow> bytes \<Rightarrow> bytes \<Rightarrow> connref \<Rightarrow> bytes \<Rightarrow> time option \<Rightarrow> time \<Rightarrow> ('ty, 'v) Server
     \<Rightarrow> (bytes, sockref) result \<times> ('ty, 'v) Server" where
  "nsp_add recoverCSR x random1 random2 name c auth reqTime clock s =
     (let now = (case reqTime of None \<Rightarrow> clock | Some t \<Rightarrow> t);
          (found, s1) = find_session recoverCSR x name auth now s;
          (pid, s2) = (if sv_recovery s1 \<noteq> None then
                         (case found of Some (session, _) \<Rightarrow> (rs_pid session, s1) | None \<Rightarrow> ids_next random1 s1)
                       else ([], s1));
          (fresh, s3) = ids_next random2 s2;
          sid = (case found of Some (session, _) \<Rightarrow> rs_sid session | None \<Rightarrow> fresh);
          k = length (sv_socketHeap s3);
          s4 = s3\<lparr>sv_socketHeap := sv_socketHeap s3 @ [(newServerSocket c name sid)\<lparr>so_pid := pid, so_recovered := (found \<noteq> None)\<rparr>]\<rparr>;
          mws = (case map_of (sv_namespaces s4) name of None \<Rightarrow> [] | Some n \<Rightarrow> ns_middlewares n);
          (rejected, s5) = (if found = None \<or> \<not> sv_recoverySkipMiddlewares s4 then run_middlewares x sid auth mws s4 else (None, s4))
      in case rejected of
           Some v \<Rightarrow> (Inl v, s5)
         | None \<Rightarrow> (Inr k, connect_socket clock name k found s5))"


section \<open>Packets of a connection\<close>

definition sendConnectError :: "('ty, 'v) outside \<Rightarrow> time \<Rightarrow> connref \<Rightarrow> bytes \<Rightarrow> bytes \<Rightarrow> ('ty, 'v) Server \<Rightarrow> ('ty, 'v) Server" where
  "sendConnectError x now c namespace message s =
     sendSocketPacket now c
       (appendPacketHeaderString [] PacketConnectError 0 namespace 0 False @ [CHR ''{'', CHR 0x22] @ ''message'' @ [CHR 0x22, CHR '':'']
        @ quote (x_isprint x) message @ ''}'') s"

definition invalid_namespace_payload :: bytes where
  "invalid_namespace_payload =
     [CHR ''{'', CHR 0x22] @ ''message'' @ [CHR 0x22, CHR '':'', CHR 0x22] @ ''Invalid namespace'' @ [CHR 0x22, CHR ''}'']"

text \<open>\<^verbatim>\<open>accept\<close> of a \<^verbatim>\<open>broadcastAckTarget\<close>; a forwarder posts the arguments to the node that broadcast.\<close>

definition target_accept ::
    "('ty, 'v) outside \<Rightarrow> broadcastAckTarget \<Rightarrow> JSONArrayView \<Rightarrow> ('ty, 'v) Server \<Rightarrow> ('ty, 'v) Server" where
  "target_accept x target args s =
     (case target of
        Tracker addr \<Rightarrow>
          (let (b, calls) = accept (x_unmarshal x) addr (sv_broadcasts s) in emit_out (map Called calls) (s\<lparr>sv_broadcasts := b\<rparr>))
      | Forwarder f \<Rightarrow> emit_out [PostedAck f (if length (av_data args) = 0 then ''[]'' else av_data args)] s)"

text \<open>What one incoming message is handled with: the outside, recovery from other nodes, randomness and the clock.\<close>

record ('ty, 'v) turn =
  cx_outside :: "('ty, 'v) outside"
  cx_recoverCSR :: "bytes \<Rightarrow> bytes \<Rightarrow> bytes \<Rightarrow> ('ty, 'v) Server \<Rightarrow> resumed option \<times> ('ty, 'v) Server"
  cx_random1 :: bytes
  cx_random2 :: bytes
  cx_now :: time

definition handleConnect :: "('ty, 'v) turn \<Rightarrow> connref \<Rightarrow> bytes \<Rightarrow> PacketView \<Rightarrow> ('ty, 'v) Server \<Rightarrow> ('ty, 'v) Server" where
  "handleConnect cx c nsp p s =
     (case getNamespace nsp s of
        (None, s1) \<Rightarrow>
          sendSocketPacket (cx_now cx) c (appendPacketHeaderString [] PacketConnectError 0 nsp 0 False @ invalid_namespace_payload) s1
      | (Some name, s1) \<Rightarrow>
          (case nsp_add (cx_recoverCSR cx) (cx_outside cx) (cx_random1 cx) (cx_random2 cx) name c (pv_Payload p) (Some (cx_now cx)) (cx_now cx) s1 of
             (Inl message, s2) \<Rightarrow> sendConnectError (cx_outside cx) (cx_now cx) c nsp message s2
           | (Inr _, s2) \<Rightarrow> s2))"

definition handleParsedSocketPacket ::
    "('ty, 'v) turn \<Rightarrow> connref \<Rightarrow> PacketView \<Rightarrow> ('ty, 'v) Server \<Rightarrow> sio_error option \<times> ('ty, 'v) Server" where
  "handleParsedSocketPacket cx c p s =
     (let nsp = (if pv_Namespace p = [] then ''/'' else pv_Namespace p);
          target = (if (pv_Type p = PacketAck \<or> pv_Type p = PacketBinaryAck) \<and> pv_HasID p
                    then map_of (ec_broadcastAcks (conn_at s c)) (pv_ID p) else None)
      in if pv_Type p = PacketConnect then (None, handleConnect cx c nsp p s)
         else (case target of
             Some t \<Rightarrow> (None, target_accept (cx_outside cx) t (pv_Args p) s)
           | None \<Rightarrow>
               (case map_of (ec_socketsByNsp (conn_at s c)) nsp of
                  None \<Rightarrow> (Some (NamespaceNotConnected nsp (ec_sid (conn_at s c))), s)
                | Some k \<Rightarrow> (None, onPacket (cx_outside cx) (cx_now cx) k p s))))"

definition handleSocketPacket ::
    "('ty, 'v) turn \<Rightarrow> connref \<Rightarrow> bytes \<Rightarrow> ('ty, 'v) Server \<Rightarrow> sio_error option \<times> ('ty, 'v) Server" where
  "handleSocketPacket cx c data s =
     (case ParsePacketView data of
        Inl err \<Rightarrow>
          (Some (ParseFailed (ec_sid (conn_at s c)) err), upd_metrics (\<lambda>m. m\<lparr>me_parserErrors := me_parserErrors m + 1\<rparr>) s)
      | Inr p \<Rightarrow>
          (let s1 = upd_metrics (\<lambda>m. m\<lparr>me_packetsIn := add_at (type_code (pv_Type p)) (me_packetsIn m),
                                      me_packetBytesIn := me_packetBytesIn m + of_nat (length data)\<rparr>) s
           in if pv_Attachments p > 0 then
                (if ec_pendingBinary (conn_at s1 c) \<noteq> None then (Some (BinaryBeforeComplete (ec_sid (conn_at s1 c))), s1)
                 else (None, upd_conn c (\<lambda>e. e\<lparr>ec_pendingBinary := Some \<lparr>pb_packet = p, pb_binary = []\<rparr>\<rparr>) s1))
              else handleParsedSocketPacket cx c p s1))"

definition handleBinaryAttachment ::
    "('ty, 'v) turn \<Rightarrow> connref \<Rightarrow> bytes \<Rightarrow> ('ty, 'v) Server \<Rightarrow> sio_error option \<times> ('ty, 'v) Server" where
  "handleBinaryAttachment cx c data s =
     (case ec_pendingBinary (conn_at s c) of
        None \<Rightarrow> (Some (UnexpectedAttachment (ec_sid (conn_at s c))), s)
      | Some pend \<Rightarrow>
          (let binary = pb_binary pend @ [data];
               s1 = upd_metrics (\<lambda>m. m\<lparr>me_binaryIn := me_binaryIn m + 1\<rparr>) s
           in if int (length binary) \<noteq> pv_Attachments (pb_packet pend)
              then (None, upd_conn c (\<lambda>e. e\<lparr>ec_pendingBinary := Some (pend\<lparr>pb_binary := binary\<rparr>)\<rparr>) s1)
              else handleParsedSocketPacket cx c ((pb_packet pend)\<lparr>pv_Binary := binary\<rparr>)
                     (upd_conn c (\<lambda>e. e\<lparr>ec_pendingBinary := None\<rparr>) s1)))"

definition handleEnginePacket ::
    "('ty, 'v) turn \<Rightarrow> connref \<Rightarrow> bytes \<Rightarrow> ('ty, 'v) Server \<Rightarrow> sio_error option \<times> ('ty, 'v) Server" where
  "handleEnginePacket cx c data s =
     (case data of
        [] \<Rightarrow> (Some (EmptyEnginePacket (ec_sid (conn_at s c))), s)
      | b # rest \<Rightarrow>
          if b = CHR ''2'' then (None, enqueueRaw (cx_now cx) c ''3'' s)
          else if b = CHR ''3'' then (None, s)
          else if b = CHR ''4'' then handleSocketPacket cx c rest s
          else if b = CHR ''1'' then (None, conn_close c ReasonTransportClose (cx_now cx) s)
          else (None, s))"

text \<open>One part of a polling payload.\<close>

definition handle_part ::
    "('ty, 'v) turn \<Rightarrow> connref \<Rightarrow> bytes \<Rightarrow> ('ty, 'v) Server \<Rightarrow> sio_error option \<times> ('ty, 'v) Server" where
  "handle_part cx c part s =
     (if length part = 0 then (None, s)
      else if part ! 0 = CHR ''b'' then
        (case b64_decode (drop 1 part) of
           None \<Rightarrow> (Some (PollingBase64Failed (ec_sid (conn_at s c))), s)
         | Some data \<Rightarrow> handleBinaryAttachment cx c data s)
      else handleEnginePacket cx c part s)"

function handlePayload ::
    "('ty, 'v) turn \<Rightarrow> connref \<Rightarrow> bytes \<Rightarrow> ('ty, 'v) Server \<Rightarrow> sio_error option \<times> ('ty, 'v) Server" where
  "handlePayload cx c payload s =
     (if length payload > 0 then
        (let (part, rest) = (case index_byte (CHR 0x1E) payload of
               Some idx \<Rightarrow> (take idx payload, drop (idx + 1) payload) | None \<Rightarrow> (payload, []))
         in case handle_part cx c part s of
              (Some err, s1) \<Rightarrow> (Some err, s1)
            | (None, s1) \<Rightarrow> handlePayload cx c rest s1)
      else (None, s))"
  by pat_completeness auto
termination
  by (relation "measure (\<lambda>(cx, c, payload, s). length payload)") (auto split: option.splits)

declare handlePayload.simps [simp del]

end
