(* ===== verification/ClusterNode.thy ===== *)
theory ClusterNode
  imports Sockets
begin

text \<open>
  What the nodes of a cluster ask of each other (\<^verbatim>\<open>cluster.go\<close>): the requests a node posts to its peers and the handler that
  answers them.

  A request is the record \<open>clusterRequest\<close>; its query is the \<^verbatim>\<open>url.Values\<close> that \<^verbatim>\<open>Encode\<close> writes and \<^verbatim>\<open>Query\<close> reads back. What the HTTP client
  returns for a request is the parameter \<open>net\<close>. The requests of one fan-out are posted in the order of the peers; the
  worker pool may answer them in another, which is the subject of the theory \<open>Fanout\<close>.
\<close>

section \<open>Requests\<close>

type_synonym url_values = "(bytes \<times> bytes list) list"

definition q_all :: "url_values \<Rightarrow> bytes \<Rightarrow> bytes list" where
  "q_all q key = (case map_of q key of None \<Rightarrow> [] | Some vs \<Rightarrow> vs)"

definition q_Get :: "url_values \<Rightarrow> bytes \<Rightarrow> bytes" where
  "q_Get q key = (case q_all q key of [] \<Rightarrow> [] | v # _ \<Rightarrow> v)"

definition q_Set :: "url_values \<Rightarrow> bytes \<Rightarrow> bytes \<Rightarrow> url_values" where
  "q_Set q key v = AList.update key [v] q"

definition q_Add :: "bytes \<Rightarrow> url_values \<Rightarrow> bytes \<Rightarrow> url_values" where
  "q_Add key q v = AList.update key (q_all q key @ [v]) q"

record clusterRequest =
  cq_op :: bytes
  cq_peer :: bytes
  cq_query :: url_values
  cq_origin :: bytes
  cq_secret :: bytes
  cq_body :: bytes

text \<open>A response has a status, the header \<^verbatim>\<open>X-Sio-Expected\<close> (empty when absent) and a body (\<^const>\<open>None\<close> when reading it fails).\<close>

datatype post_result = CreateFails | DoFails | Responds nat bytes "bytes option"

record clusterResponse =
  cp_peer :: bytes
  cp_statusCode :: nat
  cp_expected :: bytes
  cp_body :: bytes

section \<open>Posting\<close>

text \<open>
  The query of one peer: \<^verbatim>\<open>op\<close>, \<^verbatim>\<open>nsp\<close>, the rooms and exceptions, and the extra values of the operation.
\<close>

definition peer_query :: "bytes \<Rightarrow> bytes \<Rightarrow> broadcastOptions \<Rightarrow> url_values \<Rightarrow> url_values" where
  "peer_query op namespace opts extra =
     (let q1 = q_Set (q_Set [] ''op'' op) ''nsp'' namespace;
          q2 = foldl (q_Add ''room'') q1 (bo_Rooms opts);
          q3 = foldl (q_Add ''except'') q2 (bo_Except opts)
      in foldl (\<lambda>q (k, vs). foldl (q_Add k) q vs) q3 extra)"

text \<open>\<^verbatim>\<open>setClusterHeaders\<close> is part of the request: an empty secret sets no header.\<close>

definition cluster_request :: "clusterNode \<Rightarrow> bytes \<Rightarrow> bytes \<Rightarrow> url_values \<Rightarrow> bytes \<Rightarrow> clusterRequest" where
  "cluster_request c op peer q body =
     \<lparr>cq_op = op, cq_peer = peer, cq_query = q, cq_origin = cn_nodeID c, cq_secret = cn_secret c, cq_body = body\<rparr>"

definition doPost ::
    "(clusterRequest \<Rightarrow> post_result) \<Rightarrow> clusterRequest \<Rightarrow> ('ty, 'v) Server \<Rightarrow> clusterResponse option \<times> ('ty, 'v) Server" where
  "doPost net r s =
     (case net r of
        CreateFails \<Rightarrow> (None, reportError (PostCreateFailed (cq_op r) (cq_peer r)) s)
      | DoFails \<Rightarrow>
          (None, reportError (PostFailed (cq_op r) (cq_peer r))
             (upd_metrics (\<lambda>m. m\<lparr>me_clusterRequestsSent := me_clusterRequestsSent m + 1,
                                 me_clusterRequestsFailed := me_clusterRequestsFailed m + 1\<rparr>) s))
      | Responds status expected body \<Rightarrow>
          (let s1 = upd_metrics (\<lambda>m. m\<lparr>me_clusterRequestsSent := me_clusterRequestsSent m + 1\<rparr>) s;
               wanted = (cq_op r = ''fetch'' \<or> cq_op r = ''csr'')
           in if wanted \<and> body = None
              then (None, reportError (PostReadFailed (cq_op r) (cq_peer r))
                     (upd_metrics (\<lambda>m. m\<lparr>me_clusterRequestsFailed := me_clusterRequestsFailed m + 1\<rparr>) s1))
              else (Some \<lparr>cp_peer = cq_peer r, cp_statusCode = status, cp_expected = expected,
                          cp_body = (if wanted then the body else [])\<rparr>,
                    if status \<ge> 300 \<and> (cq_op r \<noteq> ''csr'' \<or> status \<noteq> 404)
                    then reportError (PostReturned (cq_op r) (cq_peer r) status)
                           (upd_metrics (\<lambda>m. m\<lparr>me_clusterResponsesFailed := me_clusterResponsesFailed m + 1\<rparr>) s1)
                    else s1)))"

fun post_each ::
    "(clusterRequest \<Rightarrow> post_result) \<Rightarrow> clusterNode \<Rightarrow> bytes \<Rightarrow> url_values \<Rightarrow> bytes \<Rightarrow> bytes list \<Rightarrow> ('ty, 'v) Server
     \<Rightarrow> clusterResponse list \<times> ('ty, 'v) Server" where
  "post_each net c op q body [] s = ([], s)"
| "post_each net c op q body (peer # peers) s =
     (let (r, s1) = doPost net (cluster_request c op peer q body) s;
          (rs, s2) = post_each net c op q body peers s1
      in (case r of None \<Rightarrow> rs | Some response \<Rightarrow> response # rs, s2))"

text \<open>Once the context of the server is done, a fan-out through the workers gives up.\<close>

definition postToPeers ::
    "(clusterRequest \<Rightarrow> post_result) \<Rightarrow> clusterNode \<Rightarrow> bytes \<Rightarrow> bytes \<Rightarrow> broadcastOptions \<Rightarrow> url_values \<Rightarrow> bytes \<Rightarrow> ('ty, 'v) Server
     \<Rightarrow> clusterResponse list \<times> ('ty, 'v) Server" where
  "postToPeers net c op namespace opts extra body s =
     (if \<not> (cn_jobs c = None \<or> \<not> cn_started c) \<and> sv_stopped s then ([], s)
      else post_each net c op (peer_query op namespace opts extra) body (peerSnapshot c) s)"

definition socketsJoin_peers ::
    "(clusterRequest \<Rightarrow> post_result) \<Rightarrow> clusterNode \<Rightarrow> bytes \<Rightarrow> broadcastOptions \<Rightarrow> Room list \<Rightarrow> ('ty, 'v) Server \<Rightarrow> ('ty, 'v) Server" where
  "socketsJoin_peers net c namespace opts room s =
     snd (postToPeers net c ''join'' namespace opts (foldl (q_Add ''target'') [] room) [] s)"

definition socketsLeave_peers ::
    "(clusterRequest \<Rightarrow> post_result) \<Rightarrow> clusterNode \<Rightarrow> bytes \<Rightarrow> broadcastOptions \<Rightarrow> Room list \<Rightarrow> ('ty, 'v) Server \<Rightarrow> ('ty, 'v) Server" where
  "socketsLeave_peers net c namespace opts room s =
     snd (postToPeers net c ''leave'' namespace opts (foldl (q_Add ''target'') [] room) [] s)"

definition disconnectSockets_peers ::
    "(clusterRequest \<Rightarrow> post_result) \<Rightarrow> clusterNode \<Rightarrow> bytes \<Rightarrow> broadcastOptions \<Rightarrow> bool \<Rightarrow> ('ty, 'v) Server \<Rightarrow> ('ty, 'v) Server" where
  "disconnectSockets_peers net c namespace opts close s =
     snd (postToPeers net c ''disconnect'' namespace opts (if close then q_Set [] ''close'' ''1'' else []) [] s)"

definition broadcast_peers ::
    "(clusterRequest \<Rightarrow> post_result) \<Rightarrow> clusterNode \<Rightarrow> bytes \<Rightarrow> broadcastOptions \<Rightarrow> bytes \<Rightarrow> bytes list \<Rightarrow> ('ty, 'v) Server \<Rightarrow> ('ty, 'v) Server" where
  "broadcast_peers net c namespace opts packet attachments s =
     snd (postToPeers net c ''broadcast'' namespace opts [] (encodeClusterPacket packet attachments) s)"

text \<open>The counts the peers answer with are added to the tracker, if it still waits.\<close>

definition add_expected :: "('ty, 'v) outside \<Rightarrow> nat \<Rightarrow> ('ty, 'v) Server \<Rightarrow> clusterResponse \<Rightarrow> ('ty, 'v) Server" where
  "add_expected x addr s response =
     (if cp_expected response \<noteq> [] then
        (let n = (case atoi (cp_expected response) of Some n \<Rightarrow> n | None \<Rightarrow> 0);
             (b, calls) = addExpected (x_unmarshal x) addr n (sv_broadcasts s)
         in emit_out (map Called calls) (s\<lparr>sv_broadcasts := b\<rparr>))
      else s)"

definition broadcastWithAck_peers ::
    "('ty, 'v) outside \<Rightarrow> (clusterRequest \<Rightarrow> post_result) \<Rightarrow> clusterNode \<Rightarrow> bytes \<Rightarrow> broadcastOptions \<Rightarrow> bytes \<Rightarrow> bytes list \<Rightarrow> u64
     \<Rightarrow> ('ty, 'v) Server \<Rightarrow> ('ty, 'v) Server" where
  "broadcastWithAck_peers x net c namespace opts packet attachments ackID s =
     (let extra = q_Set [] ''ack'' (format_uint ackID);
          extra = (if cn_advertiseURL c \<noteq> [] then q_Set extra ''origin'' (cn_advertiseURL c @ cn_path c @ transport_cluster) else extra);
          (responses, s1) = postToPeers net c ''broadcast'' namespace opts extra (encodeClusterPacket packet attachments) s
      in case getBroadcastAck (sv_broadcasts s1) ackID of
           None \<Rightarrow> s1
         | Some addr \<Rightarrow> foldl (add_expected x addr) s1 responses)"

definition serverSideEmit_peers ::
    "('ty, 'v) outside \<Rightarrow> (clusterRequest \<Rightarrow> post_result) \<Rightarrow> clusterNode \<Rightarrow> bytes \<Rightarrow> bytes \<Rightarrow> ('ty, 'v) anyarg list \<Rightarrow> ('ty, 'v) Server \<Rightarrow> ('ty, 'v) Server" where
  "serverSideEmit_peers x net c namespace eventName v s =
     (case encodeAnyArgs (x_valid x) (x_marshal x) v of
        Inl i \<Rightarrow> reportError (ServerSideEncodeFailed eventName i) s
      | Inr encoded \<Rightarrow>
          snd (postToPeers net c ''sse'' namespace no_options []
                 (encodeClusterPacket (appendEventEncoded (x_isprint x) [] namespace 0 False eventName encoded) (BinaryViews encoded)) s))"

section \<open>Recovery from a peer\<close>

text \<open>The first peer whose response decodes; a peer whose response does not is reported and passed over.\<close>

fun first_session ::
    "nat \<Rightarrow> bytes \<Rightarrow> clusterResponse list \<Rightarrow> ('ty, 'v) Server \<Rightarrow> resumed option \<times> ('ty, 'v) Server" where
  "first_session limit namespace [] s = (None, s)"
| "first_session limit namespace (response # responses) s =
     (if cp_statusCode response \<noteq> 200 \<or> cp_body response = [] then first_session limit namespace responses s
      else (case decodeCSRResponse limit namespace (cp_body response) of
          Inl err \<Rightarrow>
            if err = MakePanics then (None, emit_out [Panicked] s)
            else first_session limit namespace responses (reportError (CSRDecodeFailed (cp_peer response) err) s)
        | Inr found \<Rightarrow> (Some found, s)))"

definition recoverCSR ::
    "nat \<Rightarrow> (clusterRequest \<Rightarrow> post_result) \<Rightarrow> bytes \<Rightarrow> bytes \<Rightarrow> bytes \<Rightarrow> ('ty, 'v) Server \<Rightarrow> resumed option \<times> ('ty, 'v) Server" where
  "recoverCSR limit net namespace pid offset s =
     (case sv_cluster s of
        None \<Rightarrow> (None, s)
      | Some c \<Rightarrow>
          (let (responses, s1) = postToPeers net c ''csr'' namespace no_options (q_Set (q_Set [] ''pid'' pid) ''offset'' offset) [] s
           in first_session limit namespace responses s1))"

end
