(* ===== verification/Broadcast.thy ===== *)
theory Broadcast
  imports ClusterNode
begin

text \<open>
  Broadcasting: \<^verbatim>\<open>BroadcastOperator\<close> of \<^verbatim>\<open>broadcast_operator.go\<close>, the sockets of other nodes (\<^verbatim>\<open>remote_socket.go\<close>) and the handler that serves
  the requests of the peers (\<^verbatim>\<open>clusterNode.serveHTTP\<close> of \<^verbatim>\<open>cluster.go\<close>).
\<close>

section \<open>Applying an operation to the selected sockets\<close>

text \<open>\<^verbatim>\<open>adapter.apply(opts, fn)\<close>: the sockets are selected first, then \<^verbatim>\<open>fn\<close> runs on each. The result is their number.\<close>

definition apply_each ::
    "bytes \<Rightarrow> broadcastOptions \<Rightarrow> (('ty, 'v) Server \<Rightarrow> sockref \<Rightarrow> ('ty, 'v) Server) \<Rightarrow> ('ty, 'v) Server \<Rightarrow> nat \<times> ('ty, 'v) Server" where
  "apply_each name opts fn s =
     (let (matches, a) = adapter_apply opts (adapter_of s name)
      in (length matches, foldl fn (upd_nsp name (\<lambda>n. n\<lparr>ns_adapter := a\<rparr>) s) matches))"

definition send_to :: "time \<Rightarrow> bytes \<Rightarrow> bytes list \<Rightarrow> ('ty, 'v) Server \<Rightarrow> sockref \<Rightarrow> ('ty, 'v) Server" where
  "send_to now packet attachments s k = sendSocketPayload now (so_conn (socket_at s k)) packet attachments s"

definition send_to_with_ack ::
    "time \<Rightarrow> u64 \<Rightarrow> broadcastAckTarget \<Rightarrow> bytes \<Rightarrow> bytes list \<Rightarrow> ('ty, 'v) Server \<Rightarrow> sockref \<Rightarrow> ('ty, 'v) Server" where
  "send_to_with_ack now ident target packet attachments s k =
     send_to now packet attachments (registerBroadcastAck (so_conn (socket_at s k)) ident target s) k"

definition join_each :: "Room list \<Rightarrow> ('ty, 'v) Server \<Rightarrow> sockref \<Rightarrow> ('ty, 'v) Server" where
  "join_each rooms s k = socket_Join k rooms s"

definition leave_each :: "Room list \<Rightarrow> ('ty, 'v) Server \<Rightarrow> sockref \<Rightarrow> ('ty, 'v) Server" where
  "leave_each rooms s k = foldl (\<lambda>s room. socket_Leave k room s) s rooms"

definition disconnect_each :: "time \<Rightarrow> bool \<Rightarrow> ('ty, 'v) Server \<Rightarrow> sockref \<Rightarrow> ('ty, 'v) Server" where
  "disconnect_each now close s k = socket_Disconnect now k close s"

definition matching :: "bytes \<Rightarrow> broadcastOptions \<Rightarrow> ('ty, 'v) Server \<Rightarrow> sockref list \<times> ('ty, 'v) Server" where
  "matching name opts s =
     (let (matches, a) = matchingSockets opts (adapter_of s name) in (matches, upd_nsp name (\<lambda>n. n\<lparr>ns_adapter := a\<rparr>) s))"

section \<open>The operator\<close>

record BroadcastOperator =
  br_namespace :: bytes
  br_opts :: broadcastOptions
  br_timeout :: int

definition newBroadcastOperator :: "bytes \<Rightarrow> BroadcastOperator" where
  "newBroadcastOperator name = \<lparr>br_namespace = name, br_opts = no_options, br_timeout = 0\<rparr>"

definition socket_newBroadcastOperator :: "('ty, 'v) Server \<Rightarrow> sockref \<Rightarrow> BroadcastOperator" where
  "socket_newBroadcastOperator s k =
     \<lparr>br_namespace = so_namespace (socket_at s k), br_opts = no_options\<lparr>bo_Except := [so_id (socket_at s k)]\<rparr>, br_timeout = 0\<rparr>"

definition op_To :: "Room list \<Rightarrow> BroadcastOperator \<Rightarrow> BroadcastOperator" where
  "op_To room b = b\<lparr>br_opts := (br_opts b)\<lparr>bo_Rooms := bo_Rooms (br_opts b) @ room\<rparr>\<rparr>"

definition op_In :: "Room list \<Rightarrow> BroadcastOperator \<Rightarrow> BroadcastOperator" where
  "op_In room b = op_To room b"

definition op_Except :: "Room list \<Rightarrow> BroadcastOperator \<Rightarrow> BroadcastOperator" where
  "op_Except room b = b\<lparr>br_opts := (br_opts b)\<lparr>bo_Except := bo_Except (br_opts b) @ room\<rparr>\<rparr>"

definition op_Local :: "BroadcastOperator \<Rightarrow> BroadcastOperator" where
  "op_Local b = b\<lparr>br_opts := (br_opts b)\<lparr>bo_Local := True\<rparr>\<rparr>"

definition op_Timeout :: "int \<Rightarrow> BroadcastOperator \<Rightarrow> BroadcastOperator" where
  "op_Timeout timeout b = b\<lparr>br_timeout := timeout\<rparr>"

text \<open>\<open>on_peers f\<close> runs \<open>f\<close> on the cluster node unless there is none or the operator is local.\<close>

definition on_peers ::
    "BroadcastOperator \<Rightarrow> (clusterNode \<Rightarrow> ('ty, 'v) Server \<Rightarrow> ('ty, 'v) Server) \<Rightarrow> ('ty, 'v) Server \<Rightarrow> ('ty, 'v) Server" where
  "on_peers b f s =
     (case sv_cluster s of Some c \<Rightarrow> if \<not> bo_Local (br_opts b) then f c s else s | None \<Rightarrow> s)"

definition emitWithAck ::
    "('ty, 'v) outside \<Rightarrow> (clusterRequest \<Rightarrow> post_result) \<Rightarrow> time \<Rightarrow> BroadcastOperator \<Rightarrow> bytes \<Rightarrow> 'ty fnval \<Rightarrow> ('ty, 'v) anyarg list
     \<Rightarrow> ('ty, 'v) Server \<Rightarrow> (handler_error, ('ty, 'v) Server) result" where
  "emitWithAck x net now b eventName ack args s =
     (case newAckHandler ack True of
        Inl err \<Rightarrow> Inl err
      | Inr h \<Rightarrow>
          (case encodeAnyArgs (x_valid x) (x_marshal x) args of
             Inl i \<Rightarrow> Inr (reportError (BroadcastEncodeFailed (br_namespace b) eventName i) s)
           | Inr encoded \<Rightarrow>
               (let (addr, acks) = newBroadcastAck (sv_broadcasts s) h (br_timeout b) now;
                    ident = bt_id (ba_trackers acks ! addr);
                    packet = appendEventEncoded (x_isprint x) [] (br_namespace b) ident True eventName encoded;
                    s1 = upd_metrics (\<lambda>m. m\<lparr>me_broadcastsTotal := me_broadcastsTotal m + 1\<rparr>) (s\<lparr>sv_broadcasts := acks\<rparr>);
                    (local, s2) = apply_each (br_namespace b) (br_opts b)
                                    (send_to_with_ack now ident (Tracker addr) packet (BinaryViews encoded)) s1;
                    (acks', calls) = addExpected (x_unmarshal x) addr (int local) (sv_broadcasts s2);
                    s3 = emit_out (map Called calls) (s2\<lparr>sv_broadcasts := acks'\<rparr>);
                    s4 = on_peers b (\<lambda>c. broadcastWithAck_peers x net c (br_namespace b) (br_opts b) packet (BinaryViews encoded) ident) s3;
                    (acks'', calls') = maybeFinish (x_unmarshal x) addr (sv_broadcasts s4)
                in Inr (emit_out (map Called calls') (s4\<lparr>sv_broadcasts := acks''\<rparr>)))))"

text \<open>\<open>tick\<close> is the nanosecond clock that \<^verbatim>\<open>nextOffset\<close> reads.\<close>

definition op_Emit ::
    "('ty, 'v) outside \<Rightarrow> (clusterRequest \<Rightarrow> post_result) \<Rightarrow> u64 \<Rightarrow> time \<Rightarrow> BroadcastOperator \<Rightarrow> bytes \<Rightarrow> ('ty, 'v) anyarg list
     \<Rightarrow> ('ty, 'v) Server \<Rightarrow> (handler_error, ('ty, 'v) Server) result" where
  "op_Emit x net tick now b eventName v s =
     (case split_last_func v of
        Some (ack, args) \<Rightarrow> emitWithAck x net now b eventName ack args s
      | None \<Rightarrow>
          (let (offset, args, s1) = (case sv_recovery s of
                  None \<Rightarrow> ([], v, s)
                | Some r \<Rightarrow> (let (offset, r') = nextOffset tick r in (offset, v @ [AnyString offset], s\<lparr>sv_recovery := Some r'\<rparr>)))
           in case encodeAnyArgs (x_valid x) (x_marshal x) args of
                Inl i \<Rightarrow> Inr (reportError (BroadcastEncodeFailed (br_namespace b) eventName i) s1)
              | Inr encoded \<Rightarrow>
                  (let packet = appendEventEncoded (x_isprint x) [] (br_namespace b) 0 False eventName encoded;
                       s2 = upd_metrics (\<lambda>m. m\<lparr>me_broadcastsTotal := me_broadcastsTotal m + 1\<rparr>) s1;
                       s3 = (case sv_recovery s2 of
                               Some r \<Rightarrow> if offset \<noteq> []
                                         then s2\<lparr>sv_recovery := Some (recovery_log (br_namespace b) (br_opts b) offset packet (BinaryViews encoded) now r)\<rparr>
                                         else s2
                             | None \<Rightarrow> s2);
                       s4 = snd (apply_each (br_namespace b) (br_opts b) (send_to now packet (BinaryViews encoded)) s3)
                   in Inr (on_peers b (\<lambda>c. broadcast_peers net c (br_namespace b) (br_opts b) packet (BinaryViews encoded)) s4))))"

definition op_SocketsJoin ::
    "(clusterRequest \<Rightarrow> post_result) \<Rightarrow> BroadcastOperator \<Rightarrow> Room list \<Rightarrow> ('ty, 'v) Server \<Rightarrow> ('ty, 'v) Server" where
  "op_SocketsJoin net b room s =
     on_peers b (\<lambda>c. socketsJoin_peers net c (br_namespace b) (br_opts b) room)
       (snd (apply_each (br_namespace b) (br_opts b) (join_each room) s))"

definition op_SocketsLeave ::
    "(clusterRequest \<Rightarrow> post_result) \<Rightarrow> BroadcastOperator \<Rightarrow> Room list \<Rightarrow> ('ty, 'v) Server \<Rightarrow> ('ty, 'v) Server" where
  "op_SocketsLeave net b room s =
     on_peers b (\<lambda>c. socketsLeave_peers net c (br_namespace b) (br_opts b) room)
       (snd (apply_each (br_namespace b) (br_opts b) (leave_each room) s))"

definition op_DisconnectSockets ::
    "(clusterRequest \<Rightarrow> post_result) \<Rightarrow> time \<Rightarrow> BroadcastOperator \<Rightarrow> bool \<Rightarrow> ('ty, 'v) Server \<Rightarrow> ('ty, 'v) Server" where
  "op_DisconnectSockets net now b close s =
     on_peers b (\<lambda>c. disconnectSockets_peers net c (br_namespace b) (br_opts b) close)
       (snd (apply_each (br_namespace b) (br_opts b) (disconnect_each now close) s))"

section \<open>Sockets of all nodes\<close>

definition snapshot_of :: "('ty, 'v) Server \<Rightarrow> sockref \<Rightarrow> SocketID \<times> Room list" where
  "snapshot_of s k = (so_id (socket_at s k), socket_Rooms k s)"

definition fetchLocal :: "bytes \<Rightarrow> broadcastOptions \<Rightarrow> ('ty, 'v) Server \<Rightarrow> (SocketID \<times> Room list) list \<times> ('ty, 'v) Server" where
  "fetchLocal name opts s = (let (matches, s1) = matching name opts s in (map (snapshot_of s1) matches, s1))"

fun remote_snapshots ::
    "('ty, 'v) outside \<Rightarrow> clusterResponse list \<Rightarrow> ('ty, 'v) Server \<Rightarrow> (SocketID \<times> Room list) list \<times> ('ty, 'v) Server" where
  "remote_snapshots x [] s = ([], s)"
| "remote_snapshots x (response # responses) s =
     (if length (cp_body response) = 0 then remote_snapshots x responses s
      else (case x_decodeSnapshots x (cp_body response) of
          None \<Rightarrow> remote_snapshots x responses (reportError (FetchDecodeFailed (cp_peer response)) s)
        | Some remote \<Rightarrow> (case remote_snapshots x responses s of (rest, s1) \<Rightarrow> (remote @ rest, s1))))"

definition fetchSockets ::
    "('ty, 'v) outside \<Rightarrow> (clusterRequest \<Rightarrow> post_result) \<Rightarrow> clusterNode \<Rightarrow> bytes \<Rightarrow> broadcastOptions \<Rightarrow> ('ty, 'v) Server
     \<Rightarrow> (SocketID \<times> Room list) list \<times> ('ty, 'v) Server" where
  "fetchSockets x net c namespace opts s =
     (let (found, s1) = getNamespace namespace s;
          (here, s2) = (case found of None \<Rightarrow> ([], s1) | Some name \<Rightarrow> fetchLocal name opts s1);
          (responses, s3) = postToPeers net c ''fetch'' namespace opts [] [] s2;
          (there, s4) = remote_snapshots x responses s3
      in (here @ there, s4))"

text \<open>A socket as \<^verbatim>\<open>FetchSockets\<close> returns it: one of this node, or the snapshot of one elsewhere.\<close>

record remoteSocket =
  rm_id :: SocketID
  rm_rooms :: "Room list"
  rm_namespace :: bytes

datatype fetched = LocalSocket sockref | RemoteSocket remoteSocket

definition op_FetchSockets ::
    "('ty, 'v) outside \<Rightarrow> (clusterRequest \<Rightarrow> post_result) \<Rightarrow> BroadcastOperator \<Rightarrow> ('ty, 'v) Server \<Rightarrow> fetched list \<times> ('ty, 'v) Server" where
  "op_FetchSockets x net b s =
     (case (sv_cluster s, bo_Local (br_opts b)) of
        (Some c, False) \<Rightarrow>
          (let (snapshots, s1) = fetchSockets x net c (br_namespace b) (br_opts b) s;
               (here, s2) = matching (br_namespace b) (br_opts b) s1;
               byID = foldl (\<lambda>m k. AList.update (so_id (socket_at s2 k)) k m) [] here
           in (map (\<lambda>(sid, rooms). case map_of byID sid of
                 Some k \<Rightarrow> LocalSocket k
               | None \<Rightarrow> RemoteSocket \<lparr>rm_id = sid, rm_rooms = rooms, rm_namespace = br_namespace b\<rparr>) snapshots, s2))
      | _ \<Rightarrow> (case matching (br_namespace b) (br_opts b) s of (here, s1) \<Rightarrow> (map LocalSocket here, s1)))"


section \<open>Serving the peers\<close>

text \<open>
  The last argument of an event packet without an id, when it is a JSON string: the recovery offset the broadcasting
  node appended.
\<close>

function last_arg :: "JSONArrayView \<Rightarrow> bytes \<Rightarrow> bytes option" where
  "last_arg args final =
     (case view_next args of
        (Inl err, _) \<Rightarrow> None
      | (Inr None, _) \<Rightarrow> Some final
      | (Inr (Some raw), args') \<Rightarrow> last_arg args' raw)"
  by pat_completeness auto
termination
  by (relation "measure (\<lambda>(v, _). length (av_data v) - av_pos v)") (auto dest!: view_next_progress [OF sym])

declare last_arg.simps [simp del]


definition packetRecoveryOffset :: "bytes \<Rightarrow> bytes" where
  "packetRecoveryOffset packet =
     (case ParsePacketView packet of
        Inl err \<Rightarrow> []
      | Inr p \<Rightarrow>
          if (pv_Type p \<noteq> PacketEvent \<and> pv_Type p \<noteq> PacketBinaryEvent) \<or> pv_HasID p then []
          else (case last_arg (pv_Args p) [] of
              None \<Rightarrow> []
            | Some final \<Rightarrow>
                if length final = 0 then []
                else (case unquoteJSONStringView final of Inl err \<Rightarrow> [] | Inr offset \<Rightarrow> offset)))"

definition logRemoteRecoveryPacket ::
    "time \<Rightarrow> bytes \<Rightarrow> broadcastOptions \<Rightarrow> bytes \<Rightarrow> bytes list \<Rightarrow> ('ty, 'v) Server \<Rightarrow> ('ty, 'v) Server" where
  "logRemoteRecoveryPacket now namespace opts packet attachments s =
     (case sv_recovery s of
        None \<Rightarrow> s
      | Some r \<Rightarrow>
          (let offset = packetRecoveryOffset packet in
           if offset = [] then s
           else s\<lparr>sv_recovery := Some (recovery_log namespace opts offset packet attachments now r)\<rparr>))"

definition validSecret :: "clusterNode \<Rightarrow> bytes \<Rightarrow> bool" where
  "validSecret c got \<longleftrightarrow> (if cn_secret c = [] then True else got = cn_secret c)"

text \<open>
  An HTTP request as a handler reads it; the body is \<^const>\<open>None\<close> when reading it fails. A response has a status, the header
  \<^verbatim>\<open>X-Sio-Expected\<close> and a body.
\<close>

record httpRequest =
  rq_method :: bytes
  rq_path :: bytes
  rq_query :: url_values
  rq_secret :: bytes
  rq_origin :: bytes
  rq_body :: "bytes option"

record httpResponse =
  hr_status :: nat
  hr_expected :: "bytes option"
  hr_body :: bytes

definition status_only :: "nat \<Rightarrow> httpResponse" where
  "status_only code = \<lparr>hr_status = code, hr_expected = None, hr_body = []\<rparr>"

definition writeEngineError :: "nat \<Rightarrow> bytes \<Rightarrow> httpResponse" where
  "writeEngineError code message =
     \<lparr>hr_status = 400, hr_expected = None,
      hr_body = [CHR ''{'', CHR 0x22] @ ''code'' @ [CHR 0x22, CHR '':''] @ format_nat code @ [CHR '','', CHR 0x22] @ ''message''
        @ [CHR 0x22, CHR '':''] @ quote (\<lambda>_. True) message @ ''}''\<rparr>"

definition bad_request :: httpResponse where
  "bad_request = writeEngineError 3 ''Bad request''"

definition parse_uint_or_0 :: "bytes \<Rightarrow> u64" where
  "parse_uint_or_0 s = (case parse_uint s of Some n \<Rightarrow> n | None \<Rightarrow> 0)"

text \<open>The operations of the handler, one definition for each case of the switch.\<close>

definition serve_broadcast ::
    "nat \<Rightarrow> time \<Rightarrow> clusterNode \<Rightarrow> bytes \<Rightarrow> broadcastOptions \<Rightarrow> httpRequest \<Rightarrow> ('ty, 'v) Server \<Rightarrow> httpResponse \<times> ('ty, 'v) Server" where
  "serve_broadcast limit now c name opts r s =
     (case readClusterPacket limit (rq_body r) of
        Inl err \<Rightarrow> if err = MakePanics then (status_only 0, emit_out [Panicked] s) else (bad_request, s)
      | Inr body \<Rightarrow>
          (let ackID = parse_uint_or_0 (q_Get (rq_query r) ''ack'');
               origin = q_Get (rq_query r) ''origin'';
               packet = cb_packet body;
               attachments = clusterPacketAttachments (Some body);
               s1 = logRemoteRecoveryPacket now name opts packet attachments s;
               forwarder = \<lparr>fw_origin = origin, fw_id = ackID, fw_nodeID = cn_nodeID c, fw_secret = cn_secret c\<rparr>;
               fn = (if ackID \<noteq> 0 \<and> origin \<noteq> [] then send_to_with_ack now ackID (Forwarder forwarder) packet attachments
                     else send_to now packet attachments);
               (count, s2) = apply_each name opts fn s1
           in (\<lparr>hr_status = 204, hr_expected = Some (format_nat count), hr_body = []\<rparr>, s2)))"

definition serve_ack :: "('ty, 'v) outside \<Rightarrow> httpRequest \<Rightarrow> ('ty, 'v) Server \<Rightarrow> httpResponse \<times> ('ty, 'v) Server" where
  "serve_ack x r s =
     (case rq_body r of
        None \<Rightarrow> (bad_request, s)
      | Some body \<Rightarrow>
          (case NewJSONArrayView body of
             Inl err \<Rightarrow> (bad_request, s)
           | Inr args \<Rightarrow>
               (status_only 204,
                case getBroadcastAck (sv_broadcasts s) (parse_uint_or_0 (q_Get (rq_query r) ''id'')) of
                  Some addr \<Rightarrow> target_accept x (Tracker addr) args s
                | None \<Rightarrow> s)))"

text \<open>\<open>written\<close> says whether the response could be written.\<close>

definition serve_csr :: "time \<Rightarrow> bool \<Rightarrow> bytes \<Rightarrow> httpRequest \<Rightarrow> ('ty, 'v) Server \<Rightarrow> httpResponse \<times> ('ty, 'v) Server" where
  "serve_csr now written name r s =
     (case sv_recovery s of
        None \<Rightarrow> (status_only 404, s)
      | Some st \<Rightarrow>
          (let pid = q_Get (rq_query r) ''pid'';
               (found, st1) = recovery_snapshot name pid (q_Get (rq_query r) ''offset'') now st
           in case found of
                None \<Rightarrow> (status_only 404, s\<lparr>sv_recovery := Some st1\<rparr>)
              | Some (session, replay) \<Rightarrow>
                  (\<lparr>hr_status = 200, hr_expected = None, hr_body = encodeCSRResponse session replay\<rparr>,
                   s\<lparr>sv_recovery := Some (if written then deleteSession name pid st1 else st1)\<rparr>)))"

definition serve_sse :: "nat \<Rightarrow> ('ty, 'v) outside \<Rightarrow> bytes \<Rightarrow> httpRequest \<Rightarrow> ('ty, 'v) Server \<Rightarrow> httpResponse \<times> ('ty, 'v) Server" where
  "serve_sse limit x name r s =
     (case readClusterPacket limit (rq_body r) of
        Inl err \<Rightarrow> if err = MakePanics then (status_only 0, emit_out [Panicked] s) else (bad_request, s)
      | Inr body \<Rightarrow>
          (case ParsePacketView (cb_packet body) of
             Inl err \<Rightarrow> (bad_request, s)
           | Inr p \<Rightarrow>
               (let m = (case map_of (sv_namespaces s) name of None \<Rightarrow> [] | Some n \<Rightarrow> ns_handlers n);
                    (calls, err, m') = dispatchServerSide (x_unmarshal x) m (p\<lparr>pv_Binary := clusterPacketAttachments (Some body)\<rparr>);
                    s1 = emit_out (map Called calls) (upd_nsp name (\<lambda>n. n\<lparr>ns_handlers := m'\<rparr>) s)
                in (status_only 204, case err of None \<Rightarrow> s1 | Some e \<Rightarrow> reportError (HandlerFailed e) s1))))"

definition cluster_op ::
    "nat \<Rightarrow> ('ty, 'v) outside \<Rightarrow> time \<Rightarrow> bool \<Rightarrow> clusterNode \<Rightarrow> bytes \<Rightarrow> httpRequest \<Rightarrow> ('ty, 'v) Server \<Rightarrow> httpResponse \<times> ('ty, 'v) Server" where
  "cluster_op limit x now written c name r s =
     (let q = rq_query r;
          op = q_Get q ''op'';
          opts = \<lparr>bo_Rooms = valuesToRooms (q_all q ''room''), bo_Except = valuesToRooms (q_all q ''except''), bo_Local = True\<rparr>;
          rooms = valuesToRooms (q_all q ''target'')
      in if op = ''broadcast'' then serve_broadcast limit now c name opts r s
         else if op = ''ack'' then serve_ack x r s
         else if op = ''join'' then (status_only 204, snd (apply_each name opts (join_each rooms) s))
         else if op = ''leave'' then (status_only 204, snd (apply_each name opts (leave_each rooms) s))
         else if op = ''disconnect'' then (status_only 204, snd (apply_each name opts (disconnect_each now (q_Get q ''close'' = ''1'')) s))
         else if op = ''fetch'' then
           (let (here, s1) = fetchLocal name opts s in (\<lparr>hr_status = 200, hr_expected = None, hr_body = x_encodeSnapshots x here\<rparr>, s1))
         else if op = ''csr'' then serve_csr now written name r s
         else if op = ''sse'' then serve_sse limit x name r s
         else (bad_request, s))"

definition cluster_serveHTTP ::
    "nat \<Rightarrow> ('ty, 'v) outside \<Rightarrow> time \<Rightarrow> bool \<Rightarrow> clusterNode \<Rightarrow> httpRequest \<Rightarrow> ('ty, 'v) Server \<Rightarrow> httpResponse \<times> ('ty, 'v) Server" where
  "cluster_serveHTTP limit x now written c r s =
     (if rq_method r \<noteq> ''POST'' then (status_only 405, s)
      else (let s1 = upd_metrics (\<lambda>m. m\<lparr>me_clusterRequestsReceived := me_clusterRequestsReceived m + 1\<rparr>) s in
        if \<not> validSecret c (rq_secret r) then (status_only 401, s1)
        else if rq_origin r = cn_nodeID c then (status_only 204, s1)
        else (let nspName = (if q_Get (rq_query r) ''nsp'' = [] then ''/'' else q_Get (rq_query r) ''nsp'') in
          case getNamespace nspName s1 of
            (None, s2) \<Rightarrow> (status_only 404, s2)
          | (Some name, s2) \<Rightarrow> cluster_op limit x now written c name r s2)))"

end
