(* ===== verification/HttpServer.thy ===== *)
theory HttpServer
  imports Broadcast
begin

text \<open>
  The server as HTTP sees it: \<^verbatim>\<open>NewServer\<close>, \<^verbatim>\<open>Run\<close>, \<^verbatim>\<open>Close\<close>, \<^verbatim>\<open>ServeHTTP\<close> and the acknowledgement sweep of \<^verbatim>\<open>server.go\<close>, the polling and
  WebSocket transports of \<^verbatim>\<open>engine_conn.go\<close>.

  The WebSocket library is outside: what accepting, reading and writing gave are arguments. The read and write
  loops of a connection are given by one definition for each turn.
\<close>

section \<open>Construction\<close>

record ServerConfig =
  sc_Path :: bytes
  sc_Port :: bytes
  sc_Secret :: bytes
  sc_PingInterval :: int
  sc_PingTimeout :: int
  sc_ConnectTimeout :: int
  sc_AcceptAnyNamespace :: bool
  sc_Cluster :: ClusterConfig
  sc_RecoveryEnabled :: bool
  sc_MaxDisconnectionDuration :: int
  sc_UseMiddlewares :: bool
  sc_OnError :: bool

definition DefaultPath :: bytes where
  "DefaultPath = ''/socket.io/''"

definition DefaultPingInterval :: int where
  "DefaultPingInterval = 25 * second"

definition DefaultPingTimeout :: int where
  "DefaultPingTimeout = 20 * second"

definition DefaultConnectTimeout :: int where
  "DefaultConnectTimeout = 45 * second"

text \<open>\<open>random\<close> is the encoded random name, \<^const>\<open>None\<close> when the random source fails.\<close>

definition newIDGenerator :: "bytes option \<Rightarrow> bytes \<Rightarrow> bytes" where
  "newIDGenerator random node =
     (if node = [] then (case random of Some r \<Rightarrow> r | None \<Rightarrow> ''node'') else node)"

definition NewServer ::
    "environment \<Rightarrow> (bytes \<Rightarrow> parsed_url option) \<Rightarrow> (bytes \<Rightarrow> bytes) \<Rightarrow> (bytes \<Rightarrow> bytes list option) \<Rightarrow> bytes option \<Rightarrow> ServerConfig
     \<Rightarrow> ('ty, 'v) Server" where
  "NewServer env url_parse port_of lookup_host random config =
     (let path = (if sc_Path config = [] then DefaultPath else sc_Path config);
          path = (if \<not> has_suffix path ''/'' then path @ ''/'' else path);
          node = newIDGenerator random (resolveNodeID env (cc_NodeID (sc_Cluster config)));
          cluster = newClusterNode env url_parse port_of lookup_host path node (sc_Port config) (sc_Secret config) (sc_Cluster config)
      in \<lparr>sv_path = path, sv_acceptAnyNsp = sc_AcceptAnyNamespace config,
          sv_pingInterval = cmp_Or (sc_PingInterval config) DefaultPingInterval,
          sv_pingTimeout = cmp_Or (sc_PingTimeout config) DefaultPingTimeout,
          sv_connectTimeout = cmp_Or (sc_ConnectTimeout config) DefaultConnectTimeout,
          sv_onError = sc_OnError config, sv_recoverySkipMiddlewares = (\<not> sc_UseMiddlewares config),
          sv_initErr = (case cluster of Inl err \<Rightarrow> Some err | Inr _ \<Rightarrow> None),
          sv_node = node, sv_seq = 0, sv_metrics = newMetricsRecorder,
          sv_recovery = (if sc_RecoveryEnabled config
             then Some (newRecoveryStore (cmp_Or (sc_MaxDisconnectionDuration config) (2 * 60 * second))) else None),
          sv_namespaces = [(''/'', newNamespace)], sv_conns = [], sv_broadcasts = no_broadcasts,
          sv_cluster = (case cluster of Inl _ \<Rightarrow> None | Inr c \<Rightarrow> Some c),
          sv_newNspHooks = empty_callbacks, sv_anyConn = empty_callbacks, sv_ran = False, sv_runErr = None,
          sv_stopped = False, sv_running = False, sv_connHeap = [], sv_socketHeap = [], sv_out = []\<rparr>)"

section \<open>Lifecycle\<close>

definition server_Run :: "('ty, 'v) Server \<Rightarrow> run_error option \<times> ('ty, 'v) Server" where
  "server_Run s =
     (if sv_ran s then (sv_runErr s, s)
      else (let fail = (\<lambda>err. (Some err, s\<lparr>sv_ran := True, sv_runErr := Some err\<rparr>)) in
        if sv_stopped s then fail ServerClosed
        else (case sv_initErr s of
            Some err \<Rightarrow> fail (InitError err)
          | None \<Rightarrow>
              if sv_pingInterval s < second then fail PingIntervalTooShort
              else if sv_pingTimeout s < second then fail PingTimeoutTooShort
              else (None, s\<lparr>sv_ran := True, sv_cluster := map_option (\<lambda>c. snd (cluster_start c)) (sv_cluster s), sv_running := True\<rparr>))))"

definition server_Close :: "time \<Rightarrow> ('ty, 'v) Server \<Rightarrow> ('ty, 'v) Server" where
  "server_Close now s =
     (let s1 = foldl (\<lambda>s c. conn_close c ReasonServerShuttingDown now s) s (map snd (sv_conns s))
      in s1\<lparr>sv_stopped := True, sv_running := False\<rparr>)"

definition server_sweepAcks :: "time \<Rightarrow> ('ty, 'v) Server \<Rightarrow> ('ty, 'v) Server" where
  "server_sweepAcks now s =
     (let s1 = foldl (\<lambda>s name. snd (apply_each name no_options (\<lambda>s k. socket_sweepAcks now k s) s)) s (map fst (sv_namespaces s));
          (b, calls) = sweep_broadcasts now (sv_broadcasts s1)
      in emit_out (map Called calls) (s1\<lparr>sv_broadcasts := b\<rparr>))"

text \<open>A turn of the recovery sweeper.\<close>

definition recovery_sweep :: "time \<Rightarrow> ('ty, 'v) Server \<Rightarrow> ('ty, 'v) Server" where
  "recovery_sweep now s = s\<lparr>sv_recovery := map_option (pruneLocked now) (sv_recovery s)\<rparr>"

section \<open>Polling\<close>

definition openPacket :: "('ty, 'v) Server \<Rightarrow> engineConn \<Rightarrow> bytes" where
  "openPacket s c =
     (let upgrades = (if ec_wsRequest c then [] else [''websocket'']) in
      appendJSONStringContent (''0'' @ [CHR ''{'', CHR 0x22] @ ''sid'' @ [CHR 0x22, CHR '':'', CHR 0x22]) (ec_sid c)
      @ [CHR 0x22, CHR '','', CHR 0x22] @ ''upgrades'' @ [CHR 0x22, CHR '':'', CHR ''['']
      @ join_args (map (quote (\<lambda>_. True)) upgrades) @ [CHR '']'', CHR '','', CHR 0x22] @ ''pingInterval'' @ [CHR 0x22, CHR '':'']
      @ format_uint (of_int (sv_pingInterval s div 1000000)) @ [CHR '','', CHR 0x22] @ ''pingTimeout'' @ [CHR 0x22, CHR '':'']
      @ format_uint (of_int (sv_pingTimeout s div 1000000)) @ [CHR '','', CHR 0x22] @ ''maxPayload'' @ [CHR 0x22] @ '':1000000}'')"

definition frame_text :: "engineFrame \<Rightarrow> bytes" where
  "frame_text f = (if ef_binary f then ''b'' @ b64_encode (ef_data f) else ef_data f)"

fun writePollingFrames :: "engineFrame list \<Rightarrow> bytes" where
  "writePollingFrames [] = []"
| "writePollingFrames [f] = frame_text f"
| "writePollingFrames (f # g # fs) = frame_text f @ [CHR 0x1E] @ writePollingFrames (g # fs)"

definition writePlain :: "bytes \<Rightarrow> httpResponse" where
  "writePlain data = \<lparr>hr_status = 200, hr_expected = None, hr_body = data\<rparr>"

definition servePolling ::
    "('ty, 'v) turn \<Rightarrow> engineFrame option \<Rightarrow> httpRequest \<Rightarrow> ('ty, 'v) Server \<Rightarrow> httpResponse \<times> ('ty, 'v) Server" where
  "servePolling cx arrives r s =
     (let sid = q_Get (rq_query r) ''sid'' in
      if sid = [] then
        (if rq_method r \<noteq> ''GET'' then (writeEngineError 2 ''Bad handshake method'', s)
         else (let (sid, s1) = ids_next (cx_random1 cx) s;
                   c = newEngineConn sid (q_Get (rq_query r) ''transport'' = ''websocket'');
                   (ref, s2) = addConn c s1
               in (writePlain (openPacket s2 c), s2)))
      else (case getConn s sid of
          None \<Rightarrow> (writeEngineError 1 ''Session ID unknown'', s)
        | Some c \<Rightarrow>
            if rq_method r = ''GET'' then
              (let (frames, q) = poll_take arrives (ec_poll (conn_at s c))
               in (writePlain (writePollingFrames frames), upd_conn c (\<lambda>e. e\<lparr>ec_poll := q\<rparr>) s))
            else if rq_method r = ''POST'' then
              (case rq_body r of
                 None \<Rightarrow> (bad_request, s)
               | Some body \<Rightarrow>
                   (case handlePayload cx c body s of
                      (Some err, s1) \<Rightarrow> (bad_request, reportError err s1)
                    | (None, s1) \<Rightarrow> (writePlain ''ok'', s1)))
            else (bad_request, s)))"

section \<open>WebSocket\<close>

text \<open>A fresh connection: whether the handshake and the write of the open packet succeeded.\<close>

definition acceptFreshWebSocket :: "time \<Rightarrow> bool \<Rightarrow> bool \<Rightarrow> connref \<Rightarrow> ('ty, 'v) Server \<Rightarrow> ('ty, 'v) Server" where
  "acceptFreshWebSocket now accepted written c s =
     (if \<not> accepted then removeConn (ec_sid (conn_at s c)) (reportError (WebSocketAcceptFailed (ec_sid (conn_at s c))) s)
      else (let s1 = upd_conn c (\<lambda>e. e\<lparr>ec_ws := True\<rparr>) s in
        if \<not> written then conn_close c ReasonTransportError now (reportError (WebSocketOpenFailed (ec_sid (conn_at s1 c))) s1)
        else s1))"

text \<open>An upgrade: the two messages read (\<^const>\<open>None\<close> for an error) and whether the reply to the probe was written.\<close>

definition acceptUpgradeWebSocket ::
    "bool \<Rightarrow> bytes option \<Rightarrow> bool \<Rightarrow> bytes option \<Rightarrow> connref \<Rightarrow> ('ty, 'v) Server \<Rightarrow> ('ty, 'v) Server" where
  "acceptUpgradeWebSocket accepted first written next c s =
     (if \<not> accepted then reportError (WebSocketUpgradeFailed (ec_sid (conn_at s c))) s
      else if first \<noteq> Some ''2probe'' then s
      else if \<not> written then s
      else if next \<noteq> Some ''5'' then s
      else upd_conn c (\<lambda>e. e\<lparr>ec_ws := True\<rparr>) s)"

definition serveWebSocket ::
    "bytes \<Rightarrow> time \<Rightarrow> bool \<Rightarrow> bytes option \<Rightarrow> bool \<Rightarrow> bytes option \<Rightarrow> httpRequest \<Rightarrow> ('ty, 'v) Server
     \<Rightarrow> httpResponse option \<times> ('ty, 'v) Server" where
  "serveWebSocket random now accepted first written next r s =
     (let sid = q_Get (rq_query r) ''sid'' in
      if sid = [] then
        (let (sid, s1) = ids_next random s;
             (c, s2) = addConn (newEngineConn sid (q_Get (rq_query r) ''transport'' = ''websocket'')) s1
         in (None, acceptFreshWebSocket now accepted written c s2))
      else (case getConn s sid of
          None \<Rightarrow> (Some (writeEngineError 1 ''Session ID unknown''), s)
        | Some c \<Rightarrow> (None, acceptUpgradeWebSocket accepted first written next c s)))"

text \<open>A turn of the read loop: a message, text or binary, or an error.\<close>

datatype ws_message = WsText bytes | WsBinary bytes | WsReadError

definition readLoop_turn :: "('ty, 'v) turn \<Rightarrow> connref \<Rightarrow> ws_message \<Rightarrow> ('ty, 'v) Server \<Rightarrow> ('ty, 'v) Server" where
  "readLoop_turn cx c msg s =
     (if \<not> ec_ws (conn_at s c) then s
      else (let (err, s1) = (case msg of
                  WsReadError \<Rightarrow> (None, conn_close c ReasonTransportClose (cx_now cx) s)
                | WsBinary data \<Rightarrow> handleBinaryAttachment cx c data s
                | WsText data \<Rightarrow> handleEnginePacket cx c data s)
            in case err of None \<Rightarrow> s1 | Some e \<Rightarrow> conn_close c ReasonTransportError (cx_now cx) (reportError e s1)))"

text \<open>A turn of the write loop on a queued frame: the frame written, if it was.\<close>

definition writeLoop_turn :: "time \<Rightarrow> bool \<Rightarrow> connref \<Rightarrow> ('ty, 'v) Server \<Rightarrow> engineFrame option \<times> ('ty, 'v) Server" where
  "writeLoop_turn now ok c s =
     (case ec_send (conn_at s c) of
        [] \<Rightarrow> (None, s)
      | f # fs \<Rightarrow>
          (let s1 = upd_conn c (\<lambda>e. e\<lparr>ec_send := fs\<rparr>) s in
           if \<not> ec_ws (conn_at s1 c) then (None, upd_conn c (\<lambda>e. e\<lparr>ec_poll := poll_add (ec_poll e) f\<rparr>) s1)
           else if \<not> ok then (None, conn_close c ReasonTransportError now s1)
           else (Some f, s1)))"

definition ping_turn :: "time \<Rightarrow> bool \<Rightarrow> connref \<Rightarrow> ('ty, 'v) Server \<Rightarrow> ('ty, 'v) Server" where
  "ping_turn now ok c s = (if ec_ws (conn_at s c) \<and> \<not> ok then conn_close c ReasonPingTimeout now s else s)"

section \<open>Routing\<close>

text \<open>\<^verbatim>\<open>http.Error\<close> ends the text with a newline.\<close>

definition http_Error :: "nat \<Rightarrow> bytes \<Rightarrow> httpResponse" where
  "http_Error code message = \<lparr>hr_status = code, hr_expected = None, hr_body = message @ [CHR 0x0A]\<rparr>"

datatype route =
    NotRunning | IsClosed | NotFound | ClusterUnavailable | ToCluster | Forbidden | ToWebSocket | ToPolling | UnknownTransport

definition ServeHTTP_route :: "(httpRequest \<Rightarrow> bool) option \<Rightarrow> httpRequest \<Rightarrow> ('ty, 'v) Server \<Rightarrow> route" where
  "ServeHTTP_route authenticator r s =
     (let transport = q_Get (rq_query r) ''transport'' in
      if \<not> sv_running s then (if sv_stopped s then IsClosed else NotRunning)
      else if \<not> has_prefix (rq_path r) (trim_suffix (sv_path s) ''/'') then NotFound
      else if transport = ''cluster'' then (if sv_cluster s = None then ClusterUnavailable else ToCluster)
      else if (case authenticator of Some f \<Rightarrow> \<not> f r | None \<Rightarrow> False) then Forbidden
      else if transport = ''websocket'' then ToWebSocket
      else if transport = ''polling'' then ToPolling
      else UnknownTransport)"

definition forbiddenBodyBytes :: bytes where
  "forbiddenBodyBytes = [CHR ''{'', CHR 0x22] @ ''code'' @ [CHR 0x22] @ '':4,'' @ [CHR 0x22] @ ''message'' @ [CHR 0x22, CHR '':'', CHR 0x22]
     @ ''Forbidden'' @ [CHR 0x22, CHR ''}'']"

text \<open>What the WebSocket library reported for the request, and what a poll that waits is woken by.\<close>

record transport_events =
  te_accepted :: bool
  te_first :: "bytes option"
  te_written :: bool
  te_next :: "bytes option"
  te_arrives :: "engineFrame option"

definition ServeHTTP ::
    "nat \<Rightarrow> (httpRequest \<Rightarrow> bool) option \<Rightarrow> ('ty, 'v) turn \<Rightarrow> transport_events \<Rightarrow> httpRequest \<Rightarrow> ('ty, 'v) Server
     \<Rightarrow> httpResponse option \<times> ('ty, 'v) Server" where
  "ServeHTTP limit authenticator cx te r s =
     (case ServeHTTP_route authenticator r s of
        IsClosed \<Rightarrow> (Some (http_Error 503 ''sio: server is closed''), s)
      | NotRunning \<Rightarrow> (Some (http_Error 503 ''sio: server is not running; call Run before ServeHTTP''), s)
      | NotFound \<Rightarrow> (Some (http_Error 404 ''404 page not found''), s)
      | ClusterUnavailable \<Rightarrow>
          (Some (writeEngineError 3 ''Cluster unavailable''),
           case sv_initErr s of Some err \<Rightarrow> reportError (InitFailed err) s | None \<Rightarrow> s)
      | ToCluster \<Rightarrow>
          (case cluster_serveHTTP limit (cx_outside cx) (cx_now cx) (te_written te) (the (sv_cluster s)) r s of (resp, s1) \<Rightarrow> (Some resp, s1))
      | Forbidden \<Rightarrow> (Some \<lparr>hr_status = 403, hr_expected = None, hr_body = forbiddenBodyBytes\<rparr>, s)
      | ToWebSocket \<Rightarrow>
          serveWebSocket (cx_random1 cx) (cx_now cx) (te_accepted te) (te_first te) (te_written te) (te_next te) r s
      | ToPolling \<Rightarrow> (case servePolling cx (te_arrives te) r s of (resp, s1) \<Rightarrow> (Some resp, s1))
      | UnknownTransport \<Rightarrow> (Some (writeEngineError 0 ''Transport unknown''), s))"

end
