(* ===== verification/Api.thy ===== *)
theory Api
  imports HttpServer
begin

text \<open>
  The rest of the public interface: registrations on a socket (\<^verbatim>\<open>socket.go\<close>), the methods of \<^verbatim>\<open>Namespace\<close> (\<^verbatim>\<open>namespace.go\<close>) and of \<^verbatim>\<open>Server\<close>
  (\<^verbatim>\<open>server.go\<close>) that start from a fresh operator, sockets of other nodes (\<^verbatim>\<open>remote_socket.go\<close>) and emitters with a
  timeout (\<^verbatim>\<open>emitter.go\<close>).

  \<open>once\<close> tells the \<^verbatim>\<open>Once\<close> variant of a registration from the \<^verbatim>\<open>On\<close> variant.
\<close>

section \<open>Registrations on a socket\<close>

definition socket_OnError :: "sockref \<Rightarrow> fnptr \<Rightarrow> bool \<Rightarrow> ('ty, 'v) Server \<Rightarrow> ('ty, 'v) Server" where
  "socket_OnError k f once s = upd_socket k (\<lambda>x. x\<lparr>so_errorHandlers := callbacks_add (so_errorHandlers x) f once\<rparr>) s"

definition socket_OffError :: "sockref \<Rightarrow> fnptr list \<Rightarrow> ('ty, 'v) Server \<Rightarrow> ('ty, 'v) Server" where
  "socket_OffError k fs s = upd_socket k (\<lambda>x. x\<lparr>so_errorHandlers := callbacks_remove (so_errorHandlers x) fs\<rparr>) s"

definition socket_OnDisconnecting :: "sockref \<Rightarrow> fnptr \<Rightarrow> bool \<Rightarrow> ('ty, 'v) Server \<Rightarrow> ('ty, 'v) Server" where
  "socket_OnDisconnecting k f once s =
     upd_socket k (\<lambda>x. x\<lparr>so_disconnectingHandlers := callbacks_add (so_disconnectingHandlers x) f once\<rparr>) s"

definition socket_OffDisconnecting :: "sockref \<Rightarrow> fnptr list \<Rightarrow> ('ty, 'v) Server \<Rightarrow> ('ty, 'v) Server" where
  "socket_OffDisconnecting k fs s =
     upd_socket k (\<lambda>x. x\<lparr>so_disconnectingHandlers := callbacks_remove (so_disconnectingHandlers x) fs\<rparr>) s"

definition socket_OnDisconnect :: "sockref \<Rightarrow> fnptr \<Rightarrow> bool \<Rightarrow> ('ty, 'v) Server \<Rightarrow> ('ty, 'v) Server" where
  "socket_OnDisconnect k f once s =
     upd_socket k (\<lambda>x. x\<lparr>so_disconnectHandlers := callbacks_add (so_disconnectHandlers x) f once\<rparr>) s"

definition socket_OffDisconnect :: "sockref \<Rightarrow> fnptr list \<Rightarrow> ('ty, 'v) Server \<Rightarrow> ('ty, 'v) Server" where
  "socket_OffDisconnect k fs s =
     upd_socket k (\<lambda>x. x\<lparr>so_disconnectHandlers := callbacks_remove (so_disconnectHandlers x) fs\<rparr>) s"

definition socket_To :: "('ty, 'v) Server \<Rightarrow> sockref \<Rightarrow> Room list \<Rightarrow> BroadcastOperator" where
  "socket_To s k room = op_To room (socket_newBroadcastOperator s k)"

definition socket_Except :: "('ty, 'v) Server \<Rightarrow> sockref \<Rightarrow> Room list \<Rightarrow> BroadcastOperator" where
  "socket_Except s k room = op_Except room (socket_newBroadcastOperator s k)"

definition socket_Local :: "('ty, 'v) Server \<Rightarrow> sockref \<Rightarrow> BroadcastOperator" where
  "socket_Local s k = op_Local (socket_newBroadcastOperator s k)"

definition socket_Emit ::
    "('ty, 'v) outside \<Rightarrow> time \<Rightarrow> sockref \<Rightarrow> bytes \<Rightarrow> ('ty, 'v) anyarg list \<Rightarrow> ('ty, 'v) Server
     \<Rightarrow> (handler_error, ('ty, 'v) Server) result" where
  "socket_Emit x now k eventName v s = emitWithOptions x now k eventName 0 v s"

section \<open>Namespaces\<close>

definition nsp_Use :: "bytes \<Rightarrow> fnptr \<Rightarrow> ('ty, 'v) Server \<Rightarrow> ('ty, 'v) Server" where
  "nsp_Use name f s = upd_nsp name (\<lambda>n. n\<lparr>ns_middlewares := ns_middlewares n @ [f]\<rparr>) s"

definition nsp_OnConnection :: "bytes \<Rightarrow> fnptr \<Rightarrow> bool \<Rightarrow> ('ty, 'v) Server \<Rightarrow> ('ty, 'v) Server" where
  "nsp_OnConnection name f once s = upd_nsp name (\<lambda>n. n\<lparr>ns_connections := callbacks_add (ns_connections n) f once\<rparr>) s"

definition nsp_OffConnection :: "bytes \<Rightarrow> fnptr list \<Rightarrow> ('ty, 'v) Server \<Rightarrow> ('ty, 'v) Server" where
  "nsp_OffConnection name fs s = upd_nsp name (\<lambda>n. n\<lparr>ns_connections := callbacks_remove (ns_connections n) fs\<rparr>) s"

definition nsp_OnServerSideEmit ::
    "bytes \<Rightarrow> bytes \<Rightarrow> 'ty fnval \<Rightarrow> ('ty, 'v) Server \<Rightarrow> (handler_error, ('ty, 'v) Server) result" where
  "nsp_OnServerSideEmit name eventName handler s =
     (case map_of (sv_namespaces s) name of
        None \<Rightarrow> Inr s
      | Some n \<Rightarrow>
          (case handlers_add (ns_handlers n) eventName handler False of
             Inl err \<Rightarrow> Inl err
           | Inr m \<Rightarrow> Inr (upd_nsp name (\<lambda>n. n\<lparr>ns_handlers := m\<rparr>) s)))"

definition nsp_To :: "bytes \<Rightarrow> Room list \<Rightarrow> BroadcastOperator" where
  "nsp_To name room = op_To room (newBroadcastOperator name)"

definition nsp_Except :: "bytes \<Rightarrow> Room list \<Rightarrow> BroadcastOperator" where
  "nsp_Except name room = op_Except room (newBroadcastOperator name)"

definition nsp_Local :: "bytes \<Rightarrow> BroadcastOperator" where
  "nsp_Local name = op_Local (newBroadcastOperator name)"

definition nsp_Timeout :: "bytes \<Rightarrow> int \<Rightarrow> BroadcastOperator" where
  "nsp_Timeout name timeout = op_Timeout timeout (newBroadcastOperator name)"

definition nsp_Emit ::
    "('ty, 'v) outside \<Rightarrow> (clusterRequest \<Rightarrow> post_result) \<Rightarrow> u64 \<Rightarrow> time \<Rightarrow> bytes \<Rightarrow> bytes \<Rightarrow> ('ty, 'v) anyarg list \<Rightarrow> ('ty, 'v) Server
     \<Rightarrow> (handler_error, ('ty, 'v) Server) result" where
  "nsp_Emit x net tick now name eventName v s = op_Emit x net tick now (newBroadcastOperator name) eventName v s"

definition nsp_Sockets :: "bytes \<Rightarrow> ('ty, 'v) Server \<Rightarrow> sockref list \<times> ('ty, 'v) Server" where
  "nsp_Sockets name s = matching name no_options s"

definition nsp_FetchSockets ::
    "('ty, 'v) outside \<Rightarrow> (clusterRequest \<Rightarrow> post_result) \<Rightarrow> bytes \<Rightarrow> Room list \<Rightarrow> ('ty, 'v) Server \<Rightarrow> fetched list \<times> ('ty, 'v) Server" where
  "nsp_FetchSockets x net name room s = op_FetchSockets x net (op_To room (newBroadcastOperator name)) s"

definition serverSideEmit ::
    "('ty, 'v) outside \<Rightarrow> (clusterRequest \<Rightarrow> post_result) \<Rightarrow> bytes \<Rightarrow> bytes \<Rightarrow> ('ty, 'v) anyarg list \<Rightarrow> ('ty, 'v) Server \<Rightarrow> ('ty, 'v) Server" where
  "serverSideEmit x net namespace eventName v s =
     (case sv_cluster s of None \<Rightarrow> s | Some c \<Rightarrow> serverSideEmit_peers x net c namespace eventName v s)"

section \<open>The server\<close>

text \<open>The methods of \<^verbatim>\<open>Server\<close> go to the namespace \<^verbatim>\<open>/\<close>.\<close>

definition on_root :: "(bytes \<Rightarrow> ('ty, 'v) Server \<Rightarrow> 'r) \<Rightarrow> ('ty, 'v) Server \<Rightarrow> 'r" where
  "on_root f s = (case server_Of ''/'' s of (name, s1) \<Rightarrow> f name s1)"

definition server_Use :: "fnptr \<Rightarrow> ('ty, 'v) Server \<Rightarrow> ('ty, 'v) Server" where
  "server_Use f s = on_root (\<lambda>name. nsp_Use name f) s"

definition server_OnConnection :: "fnptr \<Rightarrow> bool \<Rightarrow> ('ty, 'v) Server \<Rightarrow> ('ty, 'v) Server" where
  "server_OnConnection f once s = on_root (\<lambda>name. nsp_OnConnection name f once) s"

definition server_OffConnection :: "fnptr list \<Rightarrow> ('ty, 'v) Server \<Rightarrow> ('ty, 'v) Server" where
  "server_OffConnection fs s = on_root (\<lambda>name. nsp_OffConnection name fs) s"

definition server_Emit ::
    "('ty, 'v) outside \<Rightarrow> (clusterRequest \<Rightarrow> post_result) \<Rightarrow> u64 \<Rightarrow> time \<Rightarrow> bytes \<Rightarrow> ('ty, 'v) anyarg list \<Rightarrow> ('ty, 'v) Server
     \<Rightarrow> (handler_error, ('ty, 'v) Server) result" where
  "server_Emit x net tick now eventName v s = on_root (\<lambda>name. nsp_Emit x net tick now name eventName v) s"

definition server_ServerSideEmit ::
    "('ty, 'v) outside \<Rightarrow> (clusterRequest \<Rightarrow> post_result) \<Rightarrow> bytes \<Rightarrow> ('ty, 'v) anyarg list \<Rightarrow> ('ty, 'v) Server \<Rightarrow> ('ty, 'v) Server" where
  "server_ServerSideEmit x net eventName v s = on_root (\<lambda>name. serverSideEmit x net name eventName v) s"

definition server_OnAnyConnection :: "fnptr \<Rightarrow> ('ty, 'v) Server \<Rightarrow> ('ty, 'v) Server" where
  "server_OnAnyConnection f s = s\<lparr>sv_anyConn := callbacks_add (sv_anyConn s) f False\<rparr>"

definition server_OnNewNamespace :: "fnptr \<Rightarrow> ('ty, 'v) Server \<Rightarrow> ('ty, 'v) Server" where
  "server_OnNewNamespace f s = s\<lparr>sv_newNspHooks := callbacks_add (sv_newNspHooks s) f False\<rparr>"

definition PollTimeout :: "('ty, 'v) Server \<Rightarrow> int" where
  "PollTimeout s = sv_pingInterval s + sv_pingTimeout s"

definition HTTPWriteTimeout :: "('ty, 'v) Server \<Rightarrow> int" where
  "HTTPWriteTimeout s = PollTimeout s + 10 * second"

text \<open>A turn of the loop that looks the headless DNS names up again.\<close>

definition server_refreshPeers ::
    "environment \<Rightarrow> (bytes \<Rightarrow> parsed_url option) \<Rightarrow> (bytes \<Rightarrow> bytes) \<Rightarrow> (bytes \<Rightarrow> bytes list option) \<Rightarrow> ('ty, 'v) Server \<Rightarrow> ('ty, 'v) Server" where
  "server_refreshPeers env url_parse port_of lookup_host s =
     s\<lparr>sv_cluster := map_option (refreshDNSPeers env url_parse port_of lookup_host) (sv_cluster s)\<rparr>"

section \<open>Sockets of other nodes\<close>

definition remote_room :: "remoteSocket \<Rightarrow> BroadcastOperator" where
  "remote_room r = nsp_To (rm_namespace r) [rm_id r]"

definition remote_Rooms :: "remoteSocket \<Rightarrow> Room list" where
  "remote_Rooms r = rm_rooms r"

definition remote_Emit ::
    "('ty, 'v) outside \<Rightarrow> (clusterRequest \<Rightarrow> post_result) \<Rightarrow> u64 \<Rightarrow> time \<Rightarrow> remoteSocket \<Rightarrow> bytes \<Rightarrow> ('ty, 'v) anyarg list \<Rightarrow> ('ty, 'v) Server
     \<Rightarrow> (handler_error, ('ty, 'v) Server) result" where
  "remote_Emit x net tick now r eventName v s = op_Emit x net tick now (remote_room r) eventName v s"

definition remote_Join :: "(clusterRequest \<Rightarrow> post_result) \<Rightarrow> remoteSocket \<Rightarrow> Room list \<Rightarrow> ('ty, 'v) Server \<Rightarrow> ('ty, 'v) Server" where
  "remote_Join net r room s = op_SocketsJoin net (remote_room r) room s"

definition remote_Leave :: "(clusterRequest \<Rightarrow> post_result) \<Rightarrow> remoteSocket \<Rightarrow> Room \<Rightarrow> ('ty, 'v) Server \<Rightarrow> ('ty, 'v) Server" where
  "remote_Leave net r room s = op_SocketsLeave net (remote_room r) [room] s"

definition remote_Disconnect ::
    "(clusterRequest \<Rightarrow> post_result) \<Rightarrow> time \<Rightarrow> remoteSocket \<Rightarrow> bool \<Rightarrow> ('ty, 'v) Server \<Rightarrow> ('ty, 'v) Server" where
  "remote_Disconnect net now r close s = op_DisconnectSockets net now (remote_room r) close s"

definition remote_Broadcast :: "remoteSocket \<Rightarrow> BroadcastOperator" where
  "remote_Broadcast r = nsp_Except (rm_namespace r) [rm_id r]"

section \<open>Emitters\<close>

datatype emitTarget = SocketTarget sockref | RemoteTarget remoteSocket int

record Emitter =
  em_target :: emitTarget
  em_timeout :: int

definition socket_Timeout :: "sockref \<Rightarrow> int \<Rightarrow> Emitter" where
  "socket_Timeout k timeout = \<lparr>em_target = SocketTarget k, em_timeout = timeout\<rparr>"

definition remote_Timeout :: "remoteSocket \<Rightarrow> int \<Rightarrow> Emitter" where
  "remote_Timeout r timeout = \<lparr>em_target = RemoteTarget r timeout, em_timeout = timeout\<rparr>"

definition remote_emitWithOptions ::
    "('ty, 'v) outside \<Rightarrow> (clusterRequest \<Rightarrow> post_result) \<Rightarrow> u64 \<Rightarrow> time \<Rightarrow> remoteSocket \<Rightarrow> bytes \<Rightarrow> int \<Rightarrow> ('ty, 'v) anyarg list
     \<Rightarrow> ('ty, 'v) Server \<Rightarrow> (handler_error, ('ty, 'v) Server) result" where
  "remote_emitWithOptions x net tick now r eventName timeout v s =
     op_Emit x net tick now (op_Timeout timeout (remote_room r)) eventName v s"

definition emitter_Emit ::
    "('ty, 'v) outside \<Rightarrow> (clusterRequest \<Rightarrow> post_result) \<Rightarrow> u64 \<Rightarrow> time \<Rightarrow> Emitter \<Rightarrow> bytes \<Rightarrow> ('ty, 'v) anyarg list \<Rightarrow> ('ty, 'v) Server
     \<Rightarrow> (handler_error, ('ty, 'v) Server) result" where
  "emitter_Emit x net tick now e eventName v s =
     (case em_target e of
        SocketTarget k \<Rightarrow> emitWithOptions x now k eventName (em_timeout e) v s
      | RemoteTarget r _ \<Rightarrow> remote_emitWithOptions x net tick now r eventName (em_timeout e) v s)"

definition emitter_Timeout :: "int \<Rightarrow> Emitter \<Rightarrow> Emitter" where
  "emitter_Timeout timeout e = e\<lparr>em_timeout := timeout\<rparr>"

end
