(* ===== verification/ServerInv.thy ===== *)
theory ServerInv
  imports Api
begin

text \<open>
  The invariant of the server, kept by every operation: references between connections, sockets and room
  indexes are valid, the room index of every namespace is consistent, the connection table is a map from session ids to
  the connections that carry them, and the counters agree with the state.
\<close>

section \<open>References in a room index\<close>

definition adapter_good :: "(sockref \<Rightarrow> SocketID) \<Rightarrow> (sockref \<Rightarrow> bool) \<Rightarrow> localAdapter \<Rightarrow> bool" where
  "adapter_good sid_of Q a \<longleftrightarrow> adapter_inv sid_of a \<and> (\<forall>r x k. memb a r x = Some k \<longrightarrow> Q k)
     \<and> (\<forall>x k. map_of (ad_socketByID a) x = Some k \<longrightarrow> Q k)"

lemma foldl_frame: "(\<And>a x. f (g a x) = f a) \<Longrightarrow> f (foldl g a xs) = f a"
  by (induction xs arbitrary: a) simp_all

lemma join_socketByID [simp]: "ad_socketByID (addAllWithRoomOwnership x s rs owned a) = ad_socketByID a"
proof -
  have "ad_socketByID (join_room x s owned a r) = ad_socketByID a" for a r
    by (simp add: join_room_def Let_def split: option.split prod.split)
  then show ?thesis by (simp add: addAllWithRoomOwnership_def foldl_frame [of ad_socketByID])
qed

lemma drop_socketByID [simp]: "ad_socketByID (drop_member x e a) = ad_socketByID a"
  by (simp add: drop_member_def Let_def)

fun op_refs :: "adapter_op \<Rightarrow> sockref set" where
  "op_refs (AddSocket k) = {k}"
| "op_refs (Join k _) = {k}"
| "op_refs (JoinOwned k _) = {k}"
| "op_refs _ = {}"

lemma step_socketByID:
  "map_of (ad_socketByID (adapter_step sid_of a x)) y = Some k \<Longrightarrow> map_of (ad_socketByID a) y = Some k \<or> k \<in> op_refs x"
proof (cases x)
  case (RemoveSocket z)
  have "ad_socketByID (foldl (\<lambda>a (room, e). drop_member z e a) a (sid_entries a z)) = ad_socketByID a"
    by (rule foldl_frame) (auto split: prod.splits)
  moreover assume "map_of (ad_socketByID (adapter_step sid_of a x)) y = Some k"
  ultimately show ?thesis unfolding RemoveSocket by (simp add: removeSocket_def Let_def alist_simps split: if_splits)
next
  case (Leave s r)
  moreover assume "map_of (ad_socketByID (adapter_step sid_of a x)) y = Some k"
  ultimately show ?thesis by (simp add: adapter_delete_def split: option.splits)
next
  case (Apply opts)
  moreover assume "map_of (ad_socketByID (adapter_step sid_of a x)) y = Some k"
  ultimately show ?thesis using adapter_apply_frame [of opts a] by auto
qed (auto simp: addSocket_def addAll_def addAllOwned_def alist_simps split: if_splits)

lemma memb_step_refs: "memb_step sid_of M x r y = Some k \<Longrightarrow> M r y = Some k \<or> k \<in> op_refs x"
  by (cases x) (auto split: if_splits)

lemma adapter_good_step:
  assumes "adapter_good sid_of Q a" "\<forall>k \<in> op_refs x. Q k"
  shows "adapter_good sid_of Q (adapter_step sid_of a x)"
proof -
  have inv: "adapter_inv sid_of a" using assms(1) by (simp add: adapter_good_def)
  then have "adapter_inv sid_of (adapter_step sid_of a x)" by (rule adapter_step_inv)
  moreover have "Q k" if "memb (adapter_step sid_of a x) r y = Some k" for r y k
    using that assms memb_step_refs [of sid_of "memb a" x r y k] by (auto simp: adapter_step_memb [OF inv] adapter_good_def)
  moreover have "Q k" if "map_of (ad_socketByID (adapter_step sid_of a x)) y = Some k" for y k
    using step_socketByID [OF that] assms by (auto simp: adapter_good_def)
  ultimately show ?thesis by (simp add: adapter_good_def)
qed

lemma adapter_good_cong:
  assumes "adapter_good sid_of Q a" "\<And>k. Q k \<Longrightarrow> sid_of' k = sid_of k \<and> Q' k"
  shows "adapter_good sid_of' Q' a"
proof -
  have "memb a r x = Some k" if "map_of (ad_rooms a) r = Some e" "map_of (re_members (ad_heap a ! e)) x = Some k" for r e x k
    using that by (simp add: memb_def)
  then have members: "sid_of' k = sid_of k" if "map_of (ad_rooms a) r = Some e" "map_of (re_members (ad_heap a ! e)) x = Some k" for r e x k
    using that assms unfolding adapter_good_def by blast
  have byID: "sid_of' k = sid_of k" if "map_of (ad_socketByID a) x = Some k" for x k
    using that assms unfolding adapter_good_def by blast
  have "rooms_ok sid_of' a" "links_ok (link a) a" "index_ok sid_of' a"
    using assms(1) members byID by (simp_all add: adapter_good_def adapter_inv_def rooms_ok_def entry_ok_def index_ok_def)
  then show ?thesis using assms by (simp add: adapter_good_def adapter_inv_def)
qed

lemma adapter_good_new: "adapter_good sid_of Q newLocalAdapter"
  by (simp add: adapter_good_def adapter_init_inv) (simp add: newLocalAdapter_def memb_def)

text \<open>The sockets \<open>apply\<close> visits are members, whatever the tokens are.\<close>

lemma match_fold_subset: "set (fst (foldl (match_step t) st ss)) \<subseteq> set (fst st) \<union> set ss"
proof (induction ss arbitrary: st)
  case (Cons s ss)
  have "set (fst (match_step t st s)) \<subseteq> insert s (set (fst st))"
    by (cases st) (auto simp: match_step_def)
  with Cons [of "match_step t st s"] show ?case by auto
qed simp

lemma rooms_fold_subset:
  "set (fst (foldl (\<lambda>(out, a) room. case map_of (ad_rooms a) room of
      None \<Rightarrow> (out, a) | Some e \<Rightarrow> appendMatches t (out, a) e) (out, a) rs)) \<subseteq> set out \<union> {s. \<exists>r. hit a r s}"
proof (induction rs arbitrary: out a)
  case (Cons r rs)
  show ?case
  proof (cases "map_of (ad_rooms a) r")
    case None
    with Cons [of out a] show ?thesis by simp
  next
    case (Some e)
    obtain out' a' where st: "appendMatches t (out, a) e = (out', a')" by fastforce
    obtain f where "a' = a\<lparr>ad_seen := f\<rparr>"
      using match_fold_frame [of t "(out, a)" "map snd (re_members (ad_heap a ! e))"] st by (auto simp: appendMatches_def)
    then have same: "hit a' r' s = hit a r' s" for r' s by (simp add: hit_def)
    have "set out' \<subseteq> set out \<union> snd ` set (re_members (ad_heap a ! e))"
      using match_fold_subset [of t "(out, a)" "map snd (re_members (ad_heap a ! e))"] st by (simp add: appendMatches_def)
    also have "\<dots> \<subseteq> set out \<union> {s. \<exists>r. hit a r s}" using Some by (auto simp: hit_def)
    finally show ?thesis using Cons [of out' a'] Some st same by fastforce
  qed
qed simp

lemma apply_refs:
  assumes "adapter_good sid_of Q a" "k \<in> set (fst (adapter_apply opts a))"
  shows "Q k"
proof -
  let ?t = "ad_epoch a + 1"
  obtain g where a1: "foldl (\<lambda>a room. case map_of (ad_rooms a) room of None \<Rightarrow> a | Some e \<Rightarrow> markExcept ?t a e)
      (a\<lparr>ad_epoch := ?t\<rparr>) (bo_Except opts) = a\<lparr>ad_epoch := ?t, ad_except := g\<rparr>"
    by (rule that) (rule except_fold)
  have hits: "hit (a\<lparr>ad_epoch := ?t, ad_except := g\<rparr>) r s = hit a r s" for r s by (simp add: hit_def)
  have "(\<exists>r. hit a r k) \<or> k \<in> snd ` set (ad_socketByID a)"
    using assms(2) rooms_fold_subset [of ?t "[]" "a\<lparr>ad_epoch := ?t, ad_except := g\<rparr>" "bo_Rooms opts"]
    by (auto simp: adapter_apply_def Let_def a1 hits split: if_splits)
  moreover have "wf_map (ad_socketByID a)" using assms(1) by (simp add: adapter_good_def adapter_inv_def index_ok_def)
  ultimately show ?thesis
    using assms(1) by (auto simp: adapter_good_def hit_memb wf_map_in_iff)
qed


section \<open>The invariant\<close>

abbreviation sids :: "('ty, 'v) Server \<Rightarrow> sockref \<Rightarrow> SocketID" where
  "sids s \<equiv> \<lambda>k. so_id (socket_at s k)"

definition in_nsp :: "('ty, 'v) Server \<Rightarrow> bytes \<Rightarrow> sockref \<Rightarrow> bool" where
  "in_nsp s name = (\<lambda>k. k < length (sv_socketHeap s) \<and> so_namespace (socket_at s k) = name)"

definition table_ok :: "('ty, 'v) Server \<Rightarrow> engineConn \<Rightarrow> bool" where
  "table_ok s = (\<lambda>e. wf_map (ec_socketsByNsp e) \<and> (\<forall>nsp k. map_of (ec_socketsByNsp e) nsp = Some k \<longrightarrow> in_nsp s nsp k))"

definition refs_ok :: "('ty, 'v) Server \<Rightarrow> bool" where
  "refs_ok s \<longleftrightarrow> (\<forall>e \<in> set (sv_connHeap s). table_ok s e)
     \<and> (\<forall>x \<in> set (sv_socketHeap s). so_conn x < length (sv_connHeap s))"

definition rooms_good :: "('ty, 'v) Server \<Rightarrow> bool" where
  "rooms_good s \<longleftrightarrow> wf_map (sv_namespaces s)
     \<and> (\<forall>name n. map_of (sv_namespaces s) name = Some n \<longrightarrow> adapter_good (sids s) (in_nsp s name) (ns_adapter n))"

definition conns_ok :: "('ty, 'v) Server \<Rightarrow> bool" where
  "conns_ok s \<longleftrightarrow> wf_map (sv_conns s)
     \<and> (\<forall>sid c. map_of (sv_conns s) sid = Some c \<longrightarrow> c < length (sv_connHeap s) \<and> ec_sid (conn_at s c) = sid)"

text \<open>
  While a socket is connected or closed there is a moment at which its state has changed and the counters have not: \<open>d\<close> is
  the number of sockets the gauge is ahead of the state by.
\<close>

definition connected_count :: "('ty, 'v) Server \<Rightarrow> nat" where
  "connected_count s = length (filter so_connected (sv_socketHeap s))"

definition counts_ok :: "u64 \<Rightarrow> ('ty, 'v) Server \<Rightarrow> bool" where
  "counts_ok d s \<longleftrightarrow> (let m = sv_metrics s in
     me_socketsActive m = of_nat (connected_count s) + d \<and> me_socketsConnected m = me_socketsClosed m + me_socketsActive m
     \<and> me_engineConnectionsOpened m = me_engineConnectionsClosed m + me_engineConnectionsActive m)"

text \<open>\<open>C\<close> and \<open>K\<close> bound the references an operation holds on to: neither heap ever shrinks.\<close>

definition server_ok :: "u64 \<Rightarrow> nat \<Rightarrow> nat \<Rightarrow> ('ty, 'v) Server \<Rightarrow> bool" where
  "server_ok d C K s \<longleftrightarrow> C \<le> length (sv_connHeap s) \<and> K \<le> length (sv_socketHeap s) \<and> refs_ok s \<and> rooms_good s \<and> conns_ok s \<and> counts_ok d s"

lemmas ok_defs = server_ok_def refs_ok_def table_ok_def rooms_good_def conns_ok_def counts_ok_def connected_count_def in_nsp_def

section \<open>What keeps it\<close>

lemma list_update_field: "(\<And>x. g (f x) = g x) \<Longrightarrow> g ((xs[k := f (xs ! k)]) ! j) = g (xs ! j)"
  by (cases "k < length xs") (auto simp: nth_list_update list_update_beyond)

lemma list_update_filter:
  assumes "\<And>x. p (f x) = p x"
  shows "length (filter p (xs[k := f (xs ! k)])) = length (filter p xs)"
proof -
  have "map p (xs[k := f (xs ! k)]) = map p xs"
    using assms by (intro nth_equalityI) (simp_all add: list_update_field [of p f])
  then have "filter id (map p (xs[k := f (xs ! k)])) = filter id (map p xs)" by simp
  then show ?thesis by (metis filter_map comp_id id_comp length_map comp_def)
qed

lemma Ball_set_update:
  assumes "\<forall>x \<in> set xs. P x" "\<And>x. P x \<Longrightarrow> P' (f x)" "\<And>x. P x \<Longrightarrow> P' x"
  shows "\<forall>x \<in> set (xs[k := f (xs ! k)]). P' x"
proof (cases "k < length xs")
  case True
  with assms show ?thesis by (auto dest!: set_update_subset_insert [THEN subsetD])
next
  case False
  with assms show ?thesis by (simp add: list_update_beyond)
qed

text \<open>Fields that do not matter.\<close>

lemma ok_out [inv_intros]: "server_ok d C K s \<Longrightarrow> server_ok d C K (emit_out es s)"
  by (simp add: ok_defs emit_out_def)

lemma ok_report [inv_intros]: "server_ok d C K s \<Longrightarrow> server_ok d C K (reportError err s)"
  by (simp add: reportError_def ok_out)

lemma ok_fields [inv_intros]:
  "server_ok d C K s \<Longrightarrow> server_ok d C K (s\<lparr>sv_recovery := r\<rparr>)"
  "server_ok d C K s \<Longrightarrow> server_ok d C K (s\<lparr>sv_broadcasts := b\<rparr>)"
  "server_ok d C K s \<Longrightarrow> server_ok d C K (s\<lparr>sv_seq := n\<rparr>)"
  "server_ok d C K s \<Longrightarrow> server_ok d C K (s\<lparr>sv_newNspHooks := h\<rparr>)"
  "server_ok d C K s \<Longrightarrow> server_ok d C K (s\<lparr>sv_cluster := c\<rparr>)"
  "server_ok d C K s \<Longrightarrow> server_ok d C K (s\<lparr>sv_ran := ran'\<rparr>)"
  "server_ok d C K s \<Longrightarrow> server_ok d C K (s\<lparr>sv_runErr := e\<rparr>)"
  "server_ok d C K s \<Longrightarrow> server_ok d C K (s\<lparr>sv_running := b'\<rparr>)"
  "server_ok d C K s \<Longrightarrow> server_ok d C K (s\<lparr>sv_stopped := b''\<rparr>)"
  "server_ok d C K s \<Longrightarrow> server_ok d C K (s\<lparr>sv_anyConn := h'\<rparr>)"
  by (simp_all add: ok_defs)

lemma ok_metrics [inv_intros]:
  assumes "server_ok d C K s"
    and "\<And>m. me_socketsActive (f m) = me_socketsActive m" "\<And>m. me_socketsConnected (f m) = me_socketsConnected m"
      "\<And>m. me_socketsClosed (f m) = me_socketsClosed m" "\<And>m. me_engineConnectionsOpened (f m) = me_engineConnectionsOpened m"
      "\<And>m. me_engineConnectionsClosed (f m) = me_engineConnectionsClosed m"
      "\<And>m. me_engineConnectionsActive (f m) = me_engineConnectionsActive m"
  shows "server_ok d C K (upd_metrics f s)"
  using assms by (simp add: ok_defs upd_metrics_def Let_def)

lemma ok_conn_table:
  assumes "server_ok d C K s" "\<And>e. ec_sid (f e) = ec_sid e"
    and "\<And>e. table_ok s e \<Longrightarrow> table_ok s (f e)"
  shows "server_ok d C K (upd_conn c f s)"
proof -
  have "\<forall>e \<in> set ((sv_connHeap s)[c := f (conn_at s c)]). table_ok s e"
    using assms by (intro Ball_set_update [where P = "table_ok s"]) (simp_all add: server_ok_def refs_ok_def)
  with assms(1,2) show ?thesis
    by (simp add: ok_defs upd_conn_def list_update_field [of ec_sid f])
qed

lemma ok_conn [inv_intros]:
  "server_ok d C K s \<Longrightarrow> (\<And>e. ec_sid (f e) = ec_sid e) \<Longrightarrow> (\<And>e. ec_socketsByNsp (f e) = ec_socketsByNsp e)
   \<Longrightarrow> server_ok d C K (upd_conn c f s)"
  by (rule ok_conn_table) (simp_all add: table_ok_def)

lemma ok_socket [inv_intros]:
  assumes "server_ok d C K s" "\<And>x. so_id (f x) = so_id x" "\<And>x. so_conn (f x) = so_conn x"
    "\<And>x. so_namespace (f x) = so_namespace x" "\<And>x. so_connected (f x) = so_connected x"
  shows "server_ok d C K (upd_socket k f s)"
proof -
  have "\<forall>x \<in> set ((sv_socketHeap s)[k := f (socket_at s k)]). so_conn x < length (sv_connHeap s)"
    using assms by (intro Ball_set_update [where P = "\<lambda>x. so_conn x < length (sv_connHeap s)"]) (simp_all add: ok_defs)
  moreover have "(\<lambda>j. so_id ((sv_socketHeap s)[k := f (socket_at s k)] ! j)) = sids s"
    using assms by (intro ext list_update_field) simp
  ultimately show ?thesis
    using assms by (simp add: ok_defs upd_socket_def list_update_field [of so_namespace f] list_update_filter [of so_connected f])
qed

lemma ok_nsp:
  assumes "server_ok d C K s"
    and "\<And>n. map_of (sv_namespaces s) name = Some n \<Longrightarrow> adapter_good (sids s) (in_nsp s name) (ns_adapter n)
      \<Longrightarrow> adapter_good (sids s) (in_nsp s name) (ns_adapter (f n))"
  shows "server_ok d C K (upd_nsp name f s)"
proof (cases "map_of (sv_namespaces s) name")
  case None
  with assms show ?thesis by (simp add: upd_nsp_def)
next
  case (Some n)
  with assms have "rooms_good (upd_nsp name f s)"
    by (auto simp: server_ok_def rooms_good_def upd_nsp_def in_nsp_def alist_simps)
  with Some assms(1) show ?thesis by (simp add: server_ok_def refs_ok_def table_ok_def conns_ok_def counts_ok_def connected_count_def in_nsp_def upd_nsp_def)
qed

lemma ok_nsp_same [inv_intros]:
  "server_ok d C K s \<Longrightarrow> (\<And>n. ns_adapter (f n) = ns_adapter n) \<Longrightarrow> server_ok d C K (upd_nsp name f s)"
  by (rule ok_nsp) simp_all

lemma ok_adapter:
  assumes "server_ok d C K s" "\<forall>k \<in> op_refs x. in_nsp s name k"
  shows "server_ok d C K (upd_nsp name (\<lambda>n. n\<lparr>ns_adapter := adapter_step (sids s) (ns_adapter n) x\<rparr>) s)"
  using assms by (intro ok_nsp) (auto intro: adapter_good_step)


lemma ok_raise: "server_ok d C K s \<Longrightarrow> server_ok d C (length (sv_socketHeap s)) s"
  by (simp add: server_ok_def)

lemma ok_lower: "server_ok d C K s \<Longrightarrow> K' \<le> K \<Longrightarrow> server_ok d C K' s"
  by (simp add: server_ok_def)

lemma ok_size: "server_ok d C K s \<Longrightarrow> C \<le> length (sv_connHeap s) \<and> K \<le> length (sv_socketHeap s)"
  by (simp add: server_ok_def)

lemma ok_foldl:
  assumes "server_ok d C K s" "\<And>s x. x \<in> set xs \<Longrightarrow> server_ok d C K s \<Longrightarrow> server_ok d C K (f s x)"
  shows "server_ok d C K (foldl f s xs)"
  using assms by (induction xs arbitrary: s) simp_all

text \<open>A reference taken from a table of the state.\<close>

lemma ok_table: "server_ok d C K s \<Longrightarrow> c < C \<Longrightarrow> table_ok s (conn_at s c)"
  by (simp add: server_ok_def refs_ok_def)

lemma ok_conn_ref:
  "server_ok d C K s \<Longrightarrow> c < C \<Longrightarrow> map_of (ec_socketsByNsp (conn_at s c)) nsp = Some k \<Longrightarrow> in_nsp s nsp k"
  using ok_table [of d C K s c] by (simp add: table_ok_def)

lemma ok_apply_ref:
  assumes "server_ok d C K s" "k \<in> set (fst (adapter_apply opts (adapter_of s name)))"
  shows "in_nsp s name k"
proof -
  have "adapter_good (sids s) (in_nsp s name) (adapter_of s name)"
    using assms(1) by (auto simp: server_ok_def rooms_good_def adapter_of_def adapter_good_new split: option.splits)
  then show ?thesis using assms(2) by (rule apply_refs)
qed

section \<open>Closing\<close>

lemma filter_flip:
  assumes "k < length xs" "p (xs ! k) \<noteq> p y"
  shows "length (filter p (xs[k := y])) + (if p y then 0 else 1) = length (filter p xs) + (if p y then 1 else 0)"
proof -
  have "filter p xs = filter p (take k xs) @ filter p [xs ! k] @ filter p (drop (Suc k) xs)"
    using id_take_nth_drop [OF assms(1)] by (metis filter.simps append_Cons append_Nil filter_append)
  moreover have "filter p (xs[k := y]) = filter p (take k xs) @ filter p [y] @ filter p (drop (Suc k) xs)"
    unfolding upd_conv_take_nth_drop [OF assms(1)] by simp
  ultimately show ?thesis using assms(2) by simp
qed

lemma connected_flip:
  assumes "server_ok d C K s" "k < K" "so_connected (socket_at s k) \<noteq> b"
  shows "server_ok (if b then d - 1 else d + 1) C K (upd_socket k (\<lambda>x. x\<lparr>so_connected := b\<rparr>) s)"
proof -
  let ?f = "\<lambda>x. x\<lparr>so_connected := b\<rparr>"
  have k: "k < length (sv_socketHeap s)" using assms(1,2) by (simp add: server_ok_def)
  have "\<forall>x \<in> set ((sv_socketHeap s)[k := ?f (socket_at s k)]). so_conn x < length (sv_connHeap s)"
    using assms(1) by (intro Ball_set_update [where P = "\<lambda>x. so_conn x < length (sv_connHeap s)"]) (simp_all add: ok_defs)
  moreover have "(\<lambda>j. so_id ((sv_socketHeap s)[k := ?f (socket_at s k)] ! j)) = sids s"
    by (intro ext list_update_field) simp
  moreover have "length (filter so_connected ((sv_socketHeap s)[k := ?f (socket_at s k)])) + (if b then 0 else 1)
      = length (filter so_connected (sv_socketHeap s)) + (if b then 1 else 0)"
    using filter_flip [OF k, of so_connected "?f (socket_at s k)"] assms(3) by simp
  from arg_cong [OF this, of "of_nat :: nat \<Rightarrow> u64"]
  have "of_nat (length (filter so_connected ((sv_socketHeap s)[k := ?f (socket_at s k)]))) + (if b then 0 else 1 :: u64)
      = of_nat (length (filter so_connected (sv_socketHeap s))) + (if b then 1 else 0)"
    by (cases b) (simp_all add: add.commute)
  ultimately show ?thesis
    using assms(1) by (auto simp: ok_defs upd_socket_def Let_def list_update_field [of so_namespace ?f] algebra_simps split: if_splits)
qed

lemmas ok_disconnected = connected_flip [where b = False, simplified]
lemmas ok_connected = connected_flip [where b = True, simplified]

lemma ok_counted_closed:
  "server_ok (d + 1) C K s \<Longrightarrow>
   server_ok d C K (upd_metrics (\<lambda>m. m\<lparr>me_socketsClosed := me_socketsClosed m + 1, me_socketsActive := me_socketsActive m - 1\<rparr>) s)"
  by (simp add: ok_defs upd_metrics_def Let_def algebra_simps)

lemma ok_counted_connected:
  "server_ok (d - 1) C K s \<Longrightarrow>
   server_ok d C K (upd_metrics (\<lambda>m. m\<lparr>me_socketsConnected := me_socketsConnected m + 1, me_socketsActive := me_socketsActive m + 1\<rparr>) s)"
  by (simp add: ok_defs upd_metrics_def Let_def algebra_simps)

lemma ok_nsp_remove:
  assumes "server_ok (d + 1) C K s"
  shows "server_ok d C K (nsp_remove k s)"
  unfolding nsp_remove_def
  using ok_adapter [OF assms, of "RemoveSocket (so_id (socket_at s k))" "so_namespace (socket_at s k)"]
  by (intro ok_counted_closed) simp

lemma ok_removeConn [inv_intros]:
  assumes "server_ok d C K s"
  shows "server_ok d C K (removeConn sid s)"
  using assms by (auto simp: removeConn_def ok_defs upd_metrics_def Let_def algebra_simps alist_simps split: if_splits)

lemma ok_conn_removeSocket [inv_intros]: "server_ok d C K s \<Longrightarrow> server_ok d C K (conn_removeSocket c nsp s)"
  unfolding conn_removeSocket_def by (rule ok_conn_table) (auto simp: table_ok_def alist_simps split: if_splits)

lemma ok_conn_addSocket:
  assumes "server_ok d C K s" "k < K"
  shows "server_ok d C K (conn_addSocket c k s)"
  using assms unfolding conn_addSocket_def
  by (intro ok_conn_table) (auto simp: table_ok_def alist_simps in_nsp_def dest: ok_size split: if_splits)

lemma ok_callbacks [inv_intros]:
  assumes "server_ok d C K s"
  shows "server_ok d C K (run_disconnecting k reason s)" "server_ok d C K (run_disconnect k reason s)"
    "server_ok d C K (save_session k reason now s)"
  using assms by (auto simp: run_disconnecting_def run_disconnect_def save_session_def intro!: inv_intros split: prod.splits option.splits)

lemma ok_onClose:
  assumes "server_ok d C K s" "k < K"
  shows "server_ok d C K (socket_onClose reason now k s)"
proof (cases "so_connected (socket_at s k)")
  case True
  have "server_ok (d + 1) C K (upd_socket k (\<lambda>x. x\<lparr>so_connected := False\<rparr>) s)"
    using assms True by (intro ok_disconnected)
  then show ?thesis
    using True by (auto simp: socket_onClose_def Let_def intro!: inv_intros ok_nsp_remove)
qed (use assms in \<open>simp add: socket_onClose_def\<close>)


lemma ok_each:
  assumes "server_ok d C K s" "\<forall>k \<in> set ks. k < length (sv_socketHeap s)"
    and "\<And>s k K'. server_ok d C K' s \<Longrightarrow> k < K' \<Longrightarrow> server_ok d C K' (f s k)"
  shows "server_ok d C K (foldl f s ks)"
proof -
  have "server_ok d C (length (sv_socketHeap s)) (foldl f s ks)"
    using assms by (intro ok_foldl) (auto intro: ok_raise)
  then show ?thesis by (rule ok_lower) (use assms(1) in \<open>simp add: server_ok_def\<close>)
qed

lemma ok_conn_close [inv_intros]:
  assumes "server_ok d C K s" "c < C"
  shows "server_ok d C K (conn_close c reason now s)"
proof (cases "ec_closed (conn_at s c)")
  case False
  define s1 where "s1 = upd_conn c (\<lambda>e. e\<lparr>ec_closed := True\<rparr>) s"
  have s1: "server_ok d C K s1" unfolding s1_def using assms by (intro inv_intros) simp_all
  have "\<forall>k \<in> set (map snd (ec_socketsByNsp (conn_at s1 c))). k < length (sv_socketHeap s1)"
    using ok_table [OF s1 assms(2)] by (auto simp: table_ok_def wf_map_in_iff in_nsp_def)
  then have "server_ok d C K (foldl (\<lambda>s k. socket_onClose reason now k s) s1 (map snd (ec_socketsByNsp (conn_at s1 c))))"
    by (intro ok_each [OF s1]) (auto intro: ok_onClose)
  with False show ?thesis
    unfolding conn_close_def Let_def s1_def [symmetric] by (auto intro!: inv_intros)
qed (use assms in \<open>simp add: conn_close_def\<close>)

section \<open>Sending\<close>

lemma ok_enqueueFrame [inv_intros]:
  "server_ok d C K s \<Longrightarrow> c < C \<Longrightarrow> server_ok d C K (enqueueFrame now c f s)"
  by (auto simp: enqueueFrame_def intro!: inv_intros)

lemma ok_send_attachments [inv_intros]:
  "server_ok d C K s \<Longrightarrow> c < C \<Longrightarrow> server_ok d C K (send_attachments now c attachments s)"
  unfolding send_attachments_def by (intro ok_foldl inv_intros) simp_all

lemma ok_sendSocketPayload [inv_intros]:
  "server_ok d C K s \<Longrightarrow> c < C \<Longrightarrow> server_ok d C K (sendSocketPayload now c packet attachments s)"
  unfolding sendSocketPayload_def Let_def by (auto intro!: inv_intros)

lemma ok_sendSocketPacket [inv_intros]:
  "server_ok d C K s \<Longrightarrow> c < C \<Longrightarrow> server_ok d C K (sendSocketPacket now c packet s)"
  unfolding sendSocketPacket_def by (rule ok_sendSocketPayload)

text \<open>The connection of a socket is a reference too; \<open>holds\<close> keeps all connections of the moment in bounds.\<close>

lemma ok_socket_conn:
  assumes "server_ok d C K s" "k < K"
  shows "server_ok d (length (sv_connHeap s)) K s \<and> so_conn (socket_at s k) < length (sv_connHeap s)"
  using assms by (auto simp: server_ok_def refs_ok_def)

lemma ok_lower_conns: "server_ok d C' K s \<Longrightarrow> C \<le> C' \<Longrightarrow> server_ok d C K s"
  by (simp add: server_ok_def)

lemma ok_on_socket_conn:
  assumes "server_ok d C K s" "k < K"
    and "\<And>C'. server_ok d C' K s \<Longrightarrow> so_conn (socket_at s k) < C' \<Longrightarrow> server_ok d C' K s'"
  shows "server_ok d C K s'"
proof -
  have "server_ok d (length (sv_connHeap s)) K s'" using ok_socket_conn [OF assms(1,2)] assms(3) by blast
  then show ?thesis by (rule ok_lower_conns) (use assms(1) in \<open>simp add: server_ok_def\<close>)
qed

section \<open>Sockets and namespaces\<close>

lemma ok_onError [inv_intros]: "server_ok d C K s \<Longrightarrow> server_ok d C K (socket_onError k err s)"
  by (auto simp: socket_onError_def Let_def intro!: inv_intros split: prod.splits)

lemma ok_register_ack [inv_intros]: "server_ok d C K s \<Longrightarrow> server_ok d C K (snd (register_ack now k h timeout s))"
  by (auto simp: register_ack_def intro!: inv_intros split: prod.splits)

lemma ok_emit_args [inv_intros]:
  assumes "server_ok d C K s" "k < K"
  shows "server_ok d C K (emit_args x now k ev ident hasID args s)"
  using assms
  by (auto simp: emit_args_def intro!: inv_intros ok_on_socket_conn [OF assms] split: sum.splits)

lemma ok_emitWithOptions:
  assumes "server_ok d C K s" "k < K" "emitWithOptions x now k ev timeout v s = Inr s'"
  shows "server_ok d C K s'"
proof -
  have "server_ok d C K (snd (register_ack now k h timeout s))" for h using assms(1) by (rule ok_register_ack)
  with assms show ?thesis
    by (auto simp: emitWithOptions_def intro!: inv_intros split: if_splits option.splits prod.splits sum.splits) (metis snd_conv ok_emit_args)
qed

lemma ok_sendConnect [inv_intros]: "server_ok d C K s \<Longrightarrow> k < K \<Longrightarrow> server_ok d C K (sendConnect now k s)"
  unfolding sendConnect_def by (erule (1) ok_on_socket_conn) (auto intro: inv_intros)

lemma ok_sendAckEncoded [inv_intros]: "server_ok d C K s \<Longrightarrow> k < K \<Longrightarrow> server_ok d C K (sendAckEncoded now k ident e s)"
  unfolding sendAckEncoded_def by (erule (1) ok_on_socket_conn) (auto intro: inv_intros)

lemma ok_Join [inv_intros]:
  assumes "server_ok d C K s" "k < K"
  shows "server_ok d C K (socket_Join k room s)"
  using ok_adapter [OF assms(1), of "Join k room" "so_namespace (socket_at s k)"] assms(2) ok_size [OF assms(1)]
  by (simp add: socket_Join_def in_nsp_def)

lemma ok_Leave [inv_intros]: "server_ok d C K s \<Longrightarrow> server_ok d C K (socket_Leave k room s)"
  using ok_adapter [of d C K s "Leave k room" "so_namespace (socket_at s k)"] by (simp add: socket_Leave_def)

lemma ok_socket_ack [inv_intros]: "server_ok d C K s \<Longrightarrow> server_ok d C K (socket_ack x k p s)"
  by (auto simp: socket_ack_def Let_def intro!: inv_intros split: prod.splits option.splits)

lemma ok_socket_event [inv_intros]: "server_ok d C K s \<Longrightarrow> server_ok d C K (socket_event x k p s)"
  by (auto simp: socket_event_def Let_def intro!: inv_intros split: prod.splits option.splits)

lemma ok_onPacket [inv_intros]: "server_ok d C K s \<Longrightarrow> k < K \<Longrightarrow> server_ok d C K (onPacket x now k p s)"
  by (auto simp: onPacket_def intro!: inv_intros ok_onClose split: PacketType.splits)

lemma ok_Disconnect [inv_intros]:
  assumes "server_ok d C K s" "k < K"
  shows "server_ok d C K (socket_Disconnect now k closeConn s)"
proof -
  define s1 where "s1 = sendSocketPacket now (so_conn (socket_at s k)) (appendDisconnectPacketString [] (so_namespace (socket_at s k))) s"
  have "server_ok d C K s1"
    unfolding s1_def using assms by (rule ok_on_socket_conn) (auto intro: inv_intros)
  then have s2: "server_ok d C K (socket_onClose ReasonServerNamespaceDisconnect now k s1)" using assms(2) by (rule ok_onClose)
  then have "server_ok d C K (conn_close (so_conn (socket_at (socket_onClose ReasonServerNamespaceDisconnect now k s1) k))
      ReasonServerNamespaceDisconnect now (socket_onClose ReasonServerNamespaceDisconnect now k s1))"
    using assms(2) by (rule ok_on_socket_conn) (auto intro: inv_intros)
  with s2 assms show ?thesis unfolding socket_Disconnect_def Let_def s1_def [symmetric] by simp
qed

lemma ok_sweepAcks [inv_intros]: "server_ok d C K s \<Longrightarrow> server_ok d C K (socket_sweepAcks now k s)"
  by (auto simp: socket_sweepAcks_def time_out_def intro!: ok_foldl inv_intros split: prod.splits)


lemma heap_frame [simp]:
  "sv_socketHeap (emit_out es s) = sv_socketHeap s" "sv_socketHeap (upd_metrics f s) = sv_socketHeap s"
  "sv_socketHeap (upd_nsp name g s) = sv_socketHeap s" "sv_socketHeap (upd_conn c h s) = sv_socketHeap s"
  "sv_socketHeap (conn_addSocket c k s) = sv_socketHeap s" "sv_socketHeap (reportError err s) = sv_socketHeap s"
  by (simp_all add: emit_out_def upd_metrics_def upd_nsp_def upd_conn_def conn_addSocket_def reportError_def split: option.split)

lemma conn_heap_frame [simp]:
  "sv_connHeap (emit_out es s) = sv_connHeap s" "sv_connHeap (upd_metrics f s) = sv_connHeap s"
  "sv_connHeap (upd_nsp name g s) = sv_connHeap s" "sv_connHeap (upd_socket k h s) = sv_connHeap s"
  "sv_connHeap (reportError err s) = sv_connHeap s"
  by (simp_all add: emit_out_def upd_metrics_def upd_nsp_def upd_socket_def reportError_def split: option.split)

lemma ok_new_namespace:
  assumes "server_ok d C K s" "map_of (sv_namespaces s) name = None"
  shows "server_ok d C K (s\<lparr>sv_namespaces := AList.update name newNamespace (sv_namespaces s)\<rparr>)"
  using assms by (auto simp: ok_defs alist_simps newNamespace_def adapter_good_new)

lemma ok_Of [inv_intros]: "server_ok d C K s \<Longrightarrow> server_ok d C K (snd (server_Of name s))"
  by (auto simp: server_Of_def Let_def intro!: inv_intros ok_new_namespace split: option.splits prod.splits)

lemma ok_getNamespace [inv_intros]: "server_ok d C K s \<Longrightarrow> server_ok d C K (snd (getNamespace name s))"
  using ok_Of [of d C K s] by (auto simp: getNamespace_def Let_def split: prod.splits) (metis snd_conv)+

lemma ok_middlewares [inv_intros]: "server_ok d C K s \<Longrightarrow> server_ok d C K (snd (run_middlewares x sid auth mws s))"
  by (induction mws arbitrary: s) (auto simp: Let_def intro!: inv_intros split: option.splits)

lemma middlewares_frame: "sv_socketHeap (snd (run_middlewares x sid auth mws s)) = sv_socketHeap s
  \<and> sv_connHeap (snd (run_middlewares x sid auth mws s)) = sv_connHeap s"
  by (induction mws arbitrary: s) (auto simp: Let_def split: option.splits)

text \<open>Asking other nodes for a session keeps the invariant of this one.\<close>

definition csr_ok :: "(bytes \<Rightarrow> bytes \<Rightarrow> bytes \<Rightarrow> ('ty, 'v) Server \<Rightarrow> resumed option \<times> ('ty, 'v) Server) \<Rightarrow> bool" where
  "csr_ok csr \<longleftrightarrow> (\<forall>name pid offset d C K s. server_ok d C K s \<longrightarrow> server_ok d C K (snd (csr name pid offset s)))"

lemma ok_find_session:
  assumes "csr_ok csr" "server_ok d C K s"
  shows "server_ok d C K (snd (find_session csr x name auth now s))"
proof -
  have "server_ok d C K (snd (csr name pid offset (s\<lparr>sv_recovery := r\<rparr>)))" for pid offset r
    using assms ok_fields(1) [OF assms(2)] by (simp add: csr_ok_def)
  then show ?thesis
    using assms(2) by (auto simp: find_session_def Let_def intro!: inv_intros split: option.splits prod.splits)
qed

lemma ok_ids_next [inv_intros]: "server_ok d C K s \<Longrightarrow> server_ok d C K (snd (ids_next random s))"
  by (simp add: ids_next_def Let_def ok_fields)

lemma ok_new_socket:
  assumes "server_ok d C K s" "c < C" "\<not> so_connected y" "so_conn y = c" "so_namespace y = name"
  shows "server_ok d C (Suc (length (sv_socketHeap s))) (s\<lparr>sv_socketHeap := sv_socketHeap s @ [y]\<rparr>)"
proof -
  let ?s = "s\<lparr>sv_socketHeap := sv_socketHeap s @ [y]\<rparr>"
  have keep: "in_nsp s n k \<Longrightarrow> sids ?s k = sids s k \<and> in_nsp ?s n k" for n k
    by (simp add: in_nsp_def nth_append)
  have "adapter_good (sids ?s) (in_nsp ?s n) a" if "adapter_good (sids s) (in_nsp s n) a" for n a
    using that keep by (rule adapter_good_cong)
  then have "rooms_good ?s"
    using assms(1) by (simp add: server_ok_def rooms_good_def)
  moreover have "refs_ok ?s"
    using assms keep by (auto simp: server_ok_def refs_ok_def table_ok_def)
  ultimately show ?thesis
    using assms by (simp add: server_ok_def conns_ok_def counts_ok_def connected_count_def)
qed

lemma ok_connect_socket:
  assumes "server_ok d C K s" "k < K" "so_namespace (socket_at s k) = name" "\<not> so_connected (socket_at s k)"
  shows "server_ok d C K (connect_socket now name k found s)"
proof -
  let ?c = "so_conn (socket_at s k)"
  obtain C' where C': "C \<le> C'" "?c < C'" "server_ok d C' K s"
    using ok_socket_conn [OF assms(1,2)] ok_size [OF assms(1)] by blast
  have k: "k < length (sv_socketHeap s)" using ok_size [OF assms(1)] assms(2) by simp
  define s1 where "s1 = (case found of None \<Rightarrow> s | Some (session, _) \<Rightarrow> upd_socket k (\<lambda>y. y\<lparr>so_recoverySession := Some session\<rparr>) s)"
  have s1: "server_ok d C' K s1" "so_namespace (socket_at s1 k) = name" "\<not> so_connected (socket_at s1 k)" "length (sv_socketHeap s1) = length (sv_socketHeap s)"
    using C'(3) assms(3,4) k by (auto simp: s1_def upd_socket_def [of k _ s] intro!: inv_intros [unfolded upd_socket_def] split: option.splits)
  define s2 where "s2 = upd_nsp name (\<lambda>n. n\<lparr>ns_adapter := addSocket (sids s1) k (ns_adapter n)\<rparr>) s1"
  have s2: "server_ok d C' K s2" "sv_socketHeap s2 = sv_socketHeap s1"
    using ok_adapter [OF s1(1), of "AddSocket k" name] s1(2,4) k by (simp_all add: s2_def in_nsp_def)
  define s3 where "s3 = (case found of None \<Rightarrow> s2 | Some (session, _) \<Rightarrow>
      upd_metrics (\<lambda>m. m\<lparr>me_socketsRecovered := me_socketsRecovered m + 1\<rparr>)
        (upd_nsp name (\<lambda>n. n\<lparr>ns_adapter := addAllOwned (so_id (socket_at s2 k)) k (rs_rooms session) (ns_adapter n)\<rparr>) s2))"
  have s3: "server_ok d C' K s3" "sv_socketHeap s3 = sv_socketHeap s1"
    using s2 ok_adapter [OF s2(1), of "JoinOwned k _" name] s1(2,4) k
    by (auto simp: s3_def in_nsp_def intro!: ok_metrics split: option.splits)
  define s5 where "s5 = upd_socket k (\<lambda>y. y\<lparr>so_connected := True\<rparr>) (conn_addSocket ?c k s3)"
  have "server_ok (d - 1) C' K s5"
    unfolding s5_def using ok_conn_addSocket [OF s3(1) assms(2)] assms(2) s1(3) s3(2) by (intro ok_connected) simp_all
  then have s6: "server_ok d C' K (upd_metrics (\<lambda>m. m\<lparr>me_socketsConnected := me_socketsConnected m + 1, me_socketsActive := me_socketsActive m + 1\<rparr>) s5)"
    by (rule ok_counted_connected)
  have "server_ok d C' K (connect_socket now name k found s)"
    using s6 C'(2) assms(2)
    unfolding connect_socket_def Let_def s1_def [symmetric] s2_def [symmetric] s3_def [symmetric] s5_def [symmetric]
    by (auto intro!: inv_intros ok_foldl split: option.splits prod.splits)
  then show ?thesis using C'(1) by (rule ok_lower_conns)
qed


lemma ok_nsp_add:
  assumes "csr_ok csr" "server_ok d C K s" "c < C"
  shows "server_ok d C K (snd (nsp_add csr x r1 r2 name c auth reqTime clock s))"
proof -
  define now where "now = (case reqTime of None \<Rightarrow> clock | Some t \<Rightarrow> t)"
  obtain found s1 where f: "find_session csr x name auth now s = (found, s1)" by fastforce
  have s1: "server_ok d C K s1" using ok_find_session [OF assms(1,2), of x name auth now] f by simp
  obtain pid s2 where p: "(if sv_recovery s1 \<noteq> None then
      (case found of Some (session, _) \<Rightarrow> (rs_pid session, s1) | None \<Rightarrow> ids_next r1 s1) else ([], s1)) = (pid, s2)" by fastforce
  have s2: "server_ok d C K s2"
    using p s1 ok_ids_next [OF s1, of r1] by (auto split: if_splits option.splits prod.splits)
  obtain fresh s3 where i: "ids_next r2 s2 = (fresh, s3)" by fastforce
  have s3: "server_ok d C K s3" using ok_ids_next [OF s2, of r2] i by simp
  define sid where "sid = (case found of Some (session, _) \<Rightarrow> rs_sid session | None \<Rightarrow> fresh)"
  define y where "y = (newServerSocket c name sid :: 'a serverSocket)\<lparr>so_pid := pid, so_recovered := (found \<noteq> None)\<rparr>"
  define s4 where "s4 = s3\<lparr>sv_socketHeap := sv_socketHeap s3 @ [y]\<rparr>"
  let ?k = "length (sv_socketHeap s3)"
  have s4: "server_ok d C (Suc ?k) s4"
    unfolding s4_def by (rule ok_new_socket [OF s3 assms(3)]) (simp_all add: y_def newServerSocket_def)
  define mws where "mws = (case map_of (sv_namespaces s4) name of None \<Rightarrow> [] | Some n \<Rightarrow> ns_middlewares n)"
  obtain rejected s5 where m: "(if found = None \<or> \<not> sv_recoverySkipMiddlewares s4 then run_middlewares x sid auth mws s4 else (None, s4))
      = (rejected, s5)" by fastforce
  have s5: "server_ok d C (Suc ?k) s5" "sv_socketHeap s5 = sv_socketHeap s4"
    using m s4 ok_middlewares [OF s4, of x sid auth mws] middlewares_frame [of x sid auth mws s4] by (auto split: if_splits)
  have "server_ok d C (Suc ?k) (connect_socket clock name ?k found s5)"
    by (rule ok_connect_socket [OF s5(1)]) (simp_all add: s5(2) s4_def y_def newServerSocket_def)
  moreover have "snd (nsp_add csr x r1 r2 name c auth reqTime clock s) = (case rejected of Some v \<Rightarrow> s5 | None \<Rightarrow> connect_socket clock name ?k found s5)"
    unfolding nsp_add_def now_def [symmetric] Let_def f prod.case p i sid_def [symmetric] y_def [symmetric] s4_def [symmetric] mws_def [symmetric] m
    by (simp split: option.split)
  ultimately have "server_ok d C (Suc ?k) (snd (nsp_add csr x r1 r2 name c auth reqTime clock s))"
    using s5(1) by (simp split: option.split)
  then show ?thesis by (rule ok_lower) (use ok_size [OF s3] in simp)
qed

section \<open>Packets\<close>

lemma ok_target_accept [inv_intros]: "server_ok d C K s \<Longrightarrow> server_ok d C K (target_accept x t args s)"
  by (auto simp: target_accept_def intro!: inv_intros split: broadcastAckTarget.splits prod.splits)

lemma ok_sendConnectError [inv_intros]: "server_ok d C K s \<Longrightarrow> c < C \<Longrightarrow> server_ok d C K (sendConnectError x now c nsp message s)"
  unfolding sendConnectError_def by (rule ok_sendSocketPacket)

lemma ok_handleConnect:
  assumes "csr_ok (cx_recoverCSR cx)" "server_ok d C K s" "c < C"
  shows "server_ok d C K (handleConnect cx c nsp p s)"
proof -
  obtain found s1 where g: "getNamespace nsp s = (found, s1)" by fastforce
  have s1: "server_ok d C K s1" using ok_getNamespace [OF assms(2), of nsp] g by simp
  show ?thesis
  proof (cases found)
    case None
    with g s1 assms(3) show ?thesis by (auto simp: handleConnect_def intro!: inv_intros)
  next
    case (Some name)
    obtain res s2 where a: "nsp_add (cx_recoverCSR cx) (cx_outside cx) (cx_random1 cx) (cx_random2 cx) name c (pv_Payload p)
        (Some (cx_now cx)) (cx_now cx) s1 = (res, s2)" by fastforce
    then have "server_ok d C K s2"
      using ok_nsp_add [OF assms(1) s1 assms(3)] by (metis snd_conv)
    with g Some a assms(3) show ?thesis by (auto simp: handleConnect_def intro!: inv_intros split: sum.splits)
  qed
qed

lemma ok_handleParsed:
  assumes "csr_ok (cx_recoverCSR cx)" "server_ok d C K s" "c < C"
  shows "server_ok d C K (snd (handleParsedSocketPacket cx c p s))"
proof -
  have "server_ok d C K (onPacket (cx_outside cx) (cx_now cx) k p s)"
    if "map_of (ec_socketsByNsp (conn_at s c)) nsp = Some k" for nsp k
  proof -
    have "k < length (sv_socketHeap s)" using ok_conn_ref [OF assms(2,3) that] by (simp add: in_nsp_def)
    then have "server_ok d C (length (sv_socketHeap s)) (onPacket (cx_outside cx) (cx_now cx) k p s)"
      by (rule ok_onPacket [OF ok_raise [OF assms(2)]])
    then show ?thesis by (rule ok_lower) (use ok_size [OF assms(2)] in simp)
  qed
  then show ?thesis
    using ok_handleConnect [OF assms] assms(2)
    by (auto simp: handleParsedSocketPacket_def Let_def intro!: inv_intros split: option.splits)
qed

lemma ok_handleSocketPacket:
  assumes "csr_ok (cx_recoverCSR cx)" "server_ok d C K s" "c < C"
  shows "server_ok d C K (snd (handleSocketPacket cx c data s))"
  using assms by (auto simp: handleSocketPacket_def Let_def intro!: inv_intros ok_handleParsed split: sum.splits)

lemma ok_handleBinaryAttachment:
  assumes "csr_ok (cx_recoverCSR cx)" "server_ok d C K s" "c < C"
  shows "server_ok d C K (snd (handleBinaryAttachment cx c data s))"
  using assms by (auto simp: handleBinaryAttachment_def Let_def intro!: inv_intros ok_handleParsed split: option.splits)

lemma ok_handleEnginePacket:
  assumes "csr_ok (cx_recoverCSR cx)" "server_ok d C K s" "c < C"
  shows "server_ok d C K (snd (handleEnginePacket cx c data s))"
  using assms
  by (auto simp: handleEnginePacket_def enqueueRaw_def intro!: inv_intros ok_handleSocketPacket split: list.splits)

lemma ok_handle_part:
  assumes "csr_ok (cx_recoverCSR cx)" "server_ok d C K s" "c < C"
  shows "server_ok d C K (snd (handle_part cx c part s))"
  using assms by (auto simp: handle_part_def intro!: ok_handleEnginePacket ok_handleBinaryAttachment split: option.splits)

lemma ok_handlePayload:
  assumes "csr_ok (cx_recoverCSR cx)" "server_ok d C K s" "c < C"
  shows "server_ok d C K (snd (handlePayload cx c payload s))"
  using assms
proof (induction cx c payload s rule: handlePayload.induct)
  case (1 cx c payload s)
  obtain part rest where pr: "(case index_byte (CHR 0x1E) payload of
      Some idx \<Rightarrow> (take idx payload, drop (idx + 1) payload) | None \<Rightarrow> (payload, [])) = (part, rest)" by fastforce
  obtain err s1 where h: "handle_part cx c part s = (err, s1)" by fastforce
  have "server_ok d C K s1" using ok_handle_part [OF 1(2-4), of part] h by simp
  with 1 pr h show ?case
    by (subst handlePayload.simps) (auto split: option.splits)
qed


section \<open>Other nodes\<close>

lemma ok_doPost [inv_intros]: "server_ok d C K s \<Longrightarrow> server_ok d C K (snd (doPost net r s))"
  by (auto simp: doPost_def Let_def intro!: inv_intros split: post_result.splits)

lemma ok_post_each: "server_ok d C K s \<Longrightarrow> server_ok d C K (snd (post_each net c op q body peers s))"
proof (induction peers arbitrary: s)
  case (Cons peer peers)
  have "server_ok d C K (snd (doPost net (cluster_request c op peer q body) s))" using Cons.prems by (rule ok_doPost)
  from Cons.IH [OF this] show ?case by (simp add: Let_def case_prod_unfold)
qed simp

lemma ok_postToPeers [inv_intros]: "server_ok d C K s \<Longrightarrow> server_ok d C K (snd (postToPeers net c op ns opts extra body s))"
  by (simp add: postToPeers_def ok_post_each)

lemma ok_peers [inv_intros]:
  assumes "server_ok d C K s"
  shows "server_ok d C K (socketsJoin_peers net c ns opts room s)" "server_ok d C K (socketsLeave_peers net c ns opts room s)"
    "server_ok d C K (disconnectSockets_peers net c ns opts close s)" "server_ok d C K (broadcast_peers net c ns opts packet atts s)"
    "server_ok d C K (serverSideEmit_peers x net c ns ev v s)"
  using assms
  by (auto simp: socketsJoin_peers_def socketsLeave_peers_def disconnectSockets_peers_def broadcast_peers_def serverSideEmit_peers_def
      intro!: inv_intros split: sum.splits)

lemma ok_add_expected [inv_intros]: "server_ok d C K s \<Longrightarrow> server_ok d C K (add_expected x addr s r)"
  by (auto simp: add_expected_def Let_def intro!: inv_intros split: prod.splits)

lemma ok_broadcastWithAck [inv_intros]:
  assumes "server_ok d C K s"
  shows "server_ok d C K (broadcastWithAck_peers x net c ns opts packet atts ident s)"
proof -
  have "server_ok d C K s1" if "postToPeers net c op ns opts extra body s = (rs, s1)" for op extra body rs s1
    using ok_postToPeers [OF assms, of net c op ns opts extra body] that by simp
  then show ?thesis
    by (auto simp: broadcastWithAck_peers_def Let_def intro!: ok_foldl inv_intros split: prod.splits option.splits)
qed

lemma ok_first_session: "server_ok d C K s \<Longrightarrow> server_ok d C K (snd (first_session limit ns rs s))"
  by (induction limit ns rs s rule: first_session.induct) (auto intro!: inv_intros split: sum.splits)

lemma csr_ok_recoverCSR: "csr_ok (recoverCSR limit net)"
  unfolding csr_ok_def
proof (intro allI impI)
  fix name pid offset :: bytes and d :: u64 and C K and s :: "('a, 'b) Server"
  assume ok: "server_ok d C K s"
  show "server_ok d C K (snd (recoverCSR limit net name pid offset s))"
  proof (cases "sv_cluster s")
    case (Some c)
    have "server_ok d C K (snd (postToPeers net c ''csr'' name no_options (q_Set (q_Set [] ''pid'' pid) ''offset'' offset) [] s))"
      using ok by (rule ok_postToPeers)
    then show ?thesis
      using Some ok_first_session by (simp add: recoverCSR_def Let_def case_prod_unfold)
  qed (use ok in \<open>simp add: recoverCSR_def\<close>)
qed

section \<open>Broadcasts\<close>

lemma ok_apply_each:
  assumes "server_ok d C K s" "\<And>s k K'. server_ok d C K' s \<Longrightarrow> k < K' \<Longrightarrow> server_ok d C K' (f s k)"
  shows "server_ok d C K (snd (apply_each name opts f s))"
proof -
  obtain matches a where m: "adapter_apply opts (adapter_of s name) = (matches, a)" by fastforce
  define s1 where "s1 = upd_nsp name (\<lambda>n. n\<lparr>ns_adapter := a\<rparr>) s"
  have "s1 = upd_nsp name (\<lambda>n. n\<lparr>ns_adapter := adapter_step (sids s) (ns_adapter n) (Apply opts)\<rparr>) s"
    using m by (simp add: s1_def upd_nsp_def adapter_of_def split: option.splits)
  then have s1: "server_ok d C K s1" using ok_adapter [OF assms(1), of "Apply opts" name] by simp
  have "\<forall>k \<in> set matches. k < length (sv_socketHeap s1)"
    using ok_apply_ref [OF assms(1), of _ opts name] m by (auto simp: in_nsp_def s1_def)
  then have "server_ok d C K (foldl f s1 matches)" using assms(2) by (intro ok_each [OF s1])
  then show ?thesis by (simp add: apply_each_def m s1_def)
qed

lemma ok_matching [inv_intros]: "server_ok d C K s \<Longrightarrow> server_ok d C K (snd (matching name opts s))"
  using ok_apply_each [of d C K s "\<lambda>s _. s" name opts]
  by (simp add: apply_each_def matching_def matchingSockets_def foldl_frame [of "\<lambda>s. s"] split: prod.splits)

lemma ok_send_to: "server_ok d C K s \<Longrightarrow> k < K \<Longrightarrow> server_ok d C K (send_to now packet atts s k)"
  unfolding send_to_def by (erule (1) ok_on_socket_conn) (auto intro: inv_intros)

lemma ok_send_to_with_ack: "server_ok d C K s \<Longrightarrow> k < K \<Longrightarrow> server_ok d C K (send_to_with_ack now ident t packet atts s k)"
  unfolding send_to_with_ack_def registerBroadcastAck_def by (intro ok_send_to inv_intros) simp_all

lemma ok_room_each:
  "server_ok d C K s \<Longrightarrow> k < K \<Longrightarrow> server_ok d C K (join_each rooms s k)"
  "server_ok d C K s \<Longrightarrow> k < K \<Longrightarrow> server_ok d C K (leave_each rooms s k)"
  "server_ok d C K s \<Longrightarrow> k < K \<Longrightarrow> server_ok d C K (disconnect_each now close s k)"
  by (auto simp: join_each_def leave_each_def disconnect_each_def intro!: ok_foldl inv_intros)

lemmas ok_applied [inv_intros] =
  ok_apply_each [OF _ ok_send_to] ok_apply_each [OF _ ok_send_to_with_ack] ok_apply_each [OF _ ok_room_each(1)]
  ok_apply_each [OF _ ok_room_each(2)] ok_apply_each [OF _ ok_room_each(3)]

lemma ok_on_peers [inv_intros]:
  "server_ok d C K s \<Longrightarrow> (\<And>c s. server_ok d C K s \<Longrightarrow> server_ok d C K (f c s)) \<Longrightarrow> server_ok d C K (on_peers b f s)"
  by (simp add: on_peers_def split: option.splits)

lemma ok_emitWithAck:
  assumes "server_ok d C K s" "emitWithAck x net now b ev ack args s = Inr s'"
  shows "server_ok d C K s'"
proof -
  have applied: "server_ok d C K s2"
    if "apply_each name opts (send_to_with_ack now ident t packet atts) s1 = (n, s2)" "server_ok d C K s1" for name opts ident t packet atts s1 n s2
    using ok_apply_each [OF that(2), of "send_to_with_ack now ident t packet atts" name opts, OF ok_send_to_with_ack] that(1) by simp
  from assms show ?thesis
    by (auto simp: emitWithAck_def Let_def intro!: inv_intros split: sum.splits prod.splits dest!: applied)
qed

lemma ok_op_Emit:
  assumes "server_ok d C K s" "op_Emit x net tick now b ev v s = Inr s'"
  shows "server_ok d C K s'"
  using assms
  by (auto simp: op_Emit_def Let_def intro!: inv_intros split: option.splits sum.splits prod.splits if_splits dest: ok_emitWithAck)

lemma ok_broadcast_ops [inv_intros]:
  assumes "server_ok d C K s"
  shows "server_ok d C K (op_SocketsJoin net b room s)" "server_ok d C K (op_SocketsLeave net b room s)"
    "server_ok d C K (op_DisconnectSockets net now b close s)"
  using assms by (auto simp: op_SocketsJoin_def op_SocketsLeave_def op_DisconnectSockets_def intro!: inv_intros)


lemma ok_fetchLocal [inv_intros]: "server_ok d C K s \<Longrightarrow> server_ok d C K (snd (fetchLocal name opts s))"
  using ok_matching [of d C K s name opts] by (simp add: fetchLocal_def Let_def case_prod_unfold)

lemma ok_remote_snapshots: "server_ok d C K s \<Longrightarrow> server_ok d C K (snd (remote_snapshots x rs s))"
  by (induction x rs s rule: remote_snapshots.induct) (auto simp: case_prod_unfold intro!: inv_intros split: option.splits)

lemma ok_fetchSockets:
  assumes "server_ok d C K s"
  shows "server_ok d C K (snd (fetchSockets x net c ns opts s))"
proof -
  obtain found s1 where g: "getNamespace ns s = (found, s1)" by fastforce
  have s1: "server_ok d C K s1" using ok_getNamespace [OF assms, of ns] g by simp
  obtain here s2 where h: "(case found of None \<Rightarrow> ([], s1) | Some name \<Rightarrow> fetchLocal name opts s1) = (here, s2)" by fastforce
  have s2: "server_ok d C K s2"
    using h s1 ok_fetchLocal [OF s1] by (auto split: option.splits) (metis snd_conv)
  have "server_ok d C K (snd (postToPeers net c ''fetch'' ns opts [] [] s2))" using s2 by (rule ok_postToPeers)
  then show ?thesis
    unfolding fetchSockets_def g prod.case Let_def h by (simp add: case_prod_unfold ok_remote_snapshots)
qed

lemma ok_FetchSockets [inv_intros]:
  assumes "server_ok d C K s"
  shows "server_ok d C K (snd (op_FetchSockets x net b s))"
proof -
  have "server_ok d C K (snd (matching (br_namespace b) (br_opts b) (snd (fetchSockets x net c (br_namespace b) (br_opts b) s))))" for c
    by (intro ok_matching ok_fetchSockets assms)
  moreover have "server_ok d C K (snd (matching (br_namespace b) (br_opts b) s))" using assms by (rule ok_matching)
  ultimately show ?thesis
    by (auto simp: op_FetchSockets_def Let_def case_prod_unfold split: option.splits bool.splits)
qed

section \<open>Serving\<close>

lemma ok_logRemote [inv_intros]: "server_ok d C K s \<Longrightarrow> server_ok d C K (logRemoteRecoveryPacket now name opts packet atts s)"
  by (auto simp: logRemoteRecoveryPacket_def Let_def intro!: inv_intros split: option.splits)

lemma ok_serve_broadcast [inv_intros]:
  assumes "server_ok d C K s"
  shows "server_ok d C K (snd (serve_broadcast limit now c name opts r s))"
  using assms by (auto simp: serve_broadcast_def Let_def case_prod_unfold intro!: inv_intros split: sum.splits)

lemma ok_serve [inv_intros]:
  assumes "server_ok d C K s"
  shows "server_ok d C K (snd (serve_ack x r s))" "server_ok d C K (snd (serve_csr now written name r s))"
    "server_ok d C K (snd (serve_sse limit x name r s))"
  using assms
  by (auto simp: serve_ack_def serve_csr_def serve_sse_def Let_def case_prod_unfold intro!: inv_intros split: sum.splits option.splits)

lemma ok_cluster_op [inv_intros]: "server_ok d C K s \<Longrightarrow> server_ok d C K (snd (cluster_op limit x now written c name r s))"
  unfolding cluster_op_def Let_def by (auto simp: case_prod_unfold intro!: inv_intros)

lemma ok_cluster_serveHTTP [inv_intros]:
  assumes "server_ok d C K s"
  shows "server_ok d C K (snd (cluster_serveHTTP limit x now written c r s))"
proof -
  define s1 where "s1 = upd_metrics (\<lambda>m. m\<lparr>me_clusterRequestsReceived := me_clusterRequestsReceived m + 1\<rparr>) s"
  have s1: "server_ok d C K s1" unfolding s1_def using assms by (intro inv_intros) simp_all
  have "server_ok d C K s2" if "getNamespace nsp s1 = (found, s2)" for nsp found s2
    using ok_getNamespace [OF s1, of nsp] that by simp
  with s1 assms show ?thesis
    unfolding cluster_serveHTTP_def Let_def s1_def [symmetric] by (auto intro!: inv_intros split: prod.splits option.splits)
qed

lemma ok_addConn:
  assumes "server_ok d C K s" "ec_socketsByNsp e = []"
  shows "server_ok d C K (snd (addConn e s)) \<and> server_ok d (Suc (fst (addConn e s))) K (snd (addConn e s))"
  using assms by (auto simp: addConn_def Let_def ok_defs upd_metrics_def algebra_simps alist_simps nth_append less_SucI split: if_splits)

lemma newEngineConn_table [simp]: "ec_socketsByNsp (newEngineConn sid ws) = []"
  by (simp add: newEngineConn_def)

lemma ok_getConn: "server_ok d C K s \<Longrightarrow> getConn s sid = Some c \<Longrightarrow> c < length (sv_connHeap s)"
  by (auto simp: getConn_def server_ok_def conns_ok_def)

lemma ok_raise_conns: "server_ok d C K s \<Longrightarrow> server_ok d (length (sv_connHeap s)) K s"
  by (simp add: server_ok_def)

text \<open>An operation on a connection of the table.\<close>

lemma ok_on_conn:
  assumes "server_ok d C K s" "c < length (sv_connHeap s)"
    and "\<And>C'. server_ok d C' K s \<Longrightarrow> c < C' \<Longrightarrow> server_ok d C' K s'"
  shows "server_ok d C K s'"
proof -
  have "server_ok d (length (sv_connHeap s)) K s'" using assms ok_raise_conns by blast
  then show ?thesis by (rule ok_lower_conns) (use ok_size [OF assms(1)] in simp)
qed

lemma ok_servePolling:
  assumes "csr_ok (cx_recoverCSR cx)" "server_ok d C K s"
  shows "server_ok d C K (snd (servePolling cx arrives r s))"
proof -
  have post: "server_ok d C K (snd (handlePayload cx c body s))" if "getConn s sid = Some c" for sid c body
    using assms(2) ok_getConn [OF assms(2) that] by (rule ok_on_conn) (rule ok_handlePayload [OF assms(1)])
  have "server_ok d C K (snd (addConn (newEngineConn (fst (ids_next rnd s)) ws) (snd (ids_next rnd s))))" for rnd ws
    using ok_addConn [OF ok_ids_next [OF assms(2)]] by simp
  with assms(2) show ?thesis
    unfolding servePolling_def Let_def
    by (auto simp: case_prod_unfold intro!: inv_intros split: option.splits intro: post)
qed


lemma ok_serveWebSocket:
  assumes "server_ok d C K s"
  shows "server_ok d C K (snd (serveWebSocket random now accepted first written next r s))"
proof -
  define e where "e = newEngineConn (fst (ids_next random s)) (q_Get (rq_query r) ''transport'' = ''websocket'')"
  define a where "a = addConn e (snd (ids_next random s))"
  have a: "server_ok d C K (snd a)" "server_ok d (Suc (fst a)) K (snd a)"
    using ok_addConn [OF ok_ids_next [OF assms], of e random] by (simp_all add: a_def e_def)
  then have "server_ok d C K (acceptFreshWebSocket now accepted written (fst a) (snd a))"
    using a(1) ok_size [OF a(2)]
    by (intro ok_on_conn [OF a(1), of "fst a"]) (auto simp: acceptFreshWebSocket_def Let_def intro!: inv_intros)
  moreover have "server_ok d C K (acceptUpgradeWebSocket accepted first written next c s)" for c
    using assms by (auto simp: acceptUpgradeWebSocket_def intro!: inv_intros)
  ultimately show ?thesis
    using assms by (simp add: serveWebSocket_def Let_def case_prod_unfold a_def e_def split: option.split)
qed

lemma ok_ServeHTTP:
  assumes "csr_ok (cx_recoverCSR cx)" "server_ok d C K s"
  shows "server_ok d C K (snd (ServeHTTP limit authenticator cx te r s))"
  using ok_servePolling [OF assms] ok_serveWebSocket [OF assms(2)] ok_cluster_serveHTTP [OF assms(2)] assms(2)
  by (auto simp: ServeHTTP_def case_prod_unfold intro!: inv_intros split: route.splits option.splits)

lemma ok_readLoop_turn:
  assumes "csr_ok (cx_recoverCSR cx)" "server_ok d C K s" "c < C"
  shows "server_ok d C K (readLoop_turn cx c msg s)"
proof -
  define res where "res = (case msg of WsReadError \<Rightarrow> (None, conn_close c ReasonTransportClose (cx_now cx) s)
      | WsBinary data \<Rightarrow> handleBinaryAttachment cx c data s | WsText data \<Rightarrow> handleEnginePacket cx c data s)"
  have "server_ok d C K (snd res)"
    using ok_handleBinaryAttachment [OF assms] ok_handleEnginePacket [OF assms] ok_conn_close [OF assms(2,3)]
    by (auto simp: res_def split: ws_message.splits)
  with assms(2,3) show ?thesis
    unfolding readLoop_turn_def res_def [symmetric] Let_def by (auto simp: case_prod_unfold intro!: inv_intros split: option.splits)
qed

lemma ok_writeLoop_turn: "server_ok d C K s \<Longrightarrow> c < C \<Longrightarrow> server_ok d C K (snd (writeLoop_turn now ok c s))"
  by (auto simp: writeLoop_turn_def Let_def intro!: inv_intros split: list.splits)

lemma ok_ping_turn: "server_ok d C K s \<Longrightarrow> c < C \<Longrightarrow> server_ok d C K (ping_turn now ok c s)"
  by (auto simp: ping_turn_def intro!: inv_intros)

lemma ok_Run: "server_ok d C K s \<Longrightarrow> server_ok d C K (snd (server_Run s))"
  by (auto simp: server_Run_def Let_def intro!: inv_intros split: option.splits)

lemma ok_Close:
  assumes "server_ok d C K s"
  shows "server_ok d C K (server_Close now s)"
proof -
  have "\<forall>c \<in> set (map snd (sv_conns s)). c < length (sv_connHeap s)"
    using assms by (auto simp: server_ok_def conns_ok_def wf_map_in_iff)
  then have "server_ok d (length (sv_connHeap s)) K (foldl (\<lambda>s c. conn_close c ReasonServerShuttingDown now s) s (map snd (sv_conns s)))"
    using ok_raise_conns [OF assms] by (intro ok_foldl) (auto intro!: inv_intros)
  then have "server_ok d C K (foldl (\<lambda>s c. conn_close c ReasonServerShuttingDown now s) s (map snd (sv_conns s)))"
    by (rule ok_lower_conns) (use ok_size [OF assms] in simp)
  then show ?thesis by (auto simp: server_Close_def Let_def intro!: inv_intros)
qed

lemma ok_server_sweepAcks:
  assumes "server_ok d C K s"
  shows "server_ok d C K (server_sweepAcks now s)"
  using assms by (auto simp: server_sweepAcks_def Let_def case_prod_unfold intro!: inv_intros ok_foldl ok_apply_each)

lemma ok_recovery_sweep: "server_ok d C K s \<Longrightarrow> server_ok d C K (recovery_sweep now s)"
  unfolding recovery_sweep_def by (rule ok_fields)


section \<open>Reachable states\<close>

text \<open>
  What can happen to a server: a request, a turn of a loop of a connection, a call of the API by user code, a sweep.
  An operation on a socket or connection names one that exists; a panic leaves no state, so the
  model stays where it was.
\<close>

record ('ty, 'v) world =
  w_outside :: "('ty, 'v) outside"
  w_net :: "clusterRequest \<Rightarrow> post_result"
  w_limit :: nat
  w_random1 :: bytes
  w_random2 :: bytes
  w_now :: time
  w_tick :: u64
  w_authenticator :: "(httpRequest \<Rightarrow> bool) option"

definition turn_of :: "('ty, 'v) world \<Rightarrow> ('ty, 'v) turn" where
  "turn_of w = \<lparr>cx_outside = w_outside w, cx_recoverCSR = recoverCSR (w_limit w) (w_net w), cx_random1 = w_random1 w,
     cx_random2 = w_random2 w, cx_now = w_now w\<rparr>"

datatype ('ty, 'v) server_op =
    Request transport_events httpRequest
  | WsRead connref ws_message | WsWrite connref bool | WsPing connref bool
  | SocketEmit sockref bytes int "('ty, 'v) anyarg list" | AckReply sockref u64 encodedArgs
  | SocketJoin sockref "Room list" | SocketLeave sockref Room | SocketDisconnect sockref bool
  | SocketOnEvent sockref bytes "'ty fnval" bool | SocketOffEvent sockref bytes "'ty fnval list" | SocketOffAll sockref
  | Emit BroadcastOperator bytes "('ty, 'v) anyarg list"
  | SocketsJoin BroadcastOperator "Room list" | SocketsLeave BroadcastOperator "Room list" | DisconnectSockets BroadcastOperator bool
  | FetchSockets BroadcastOperator | Of bytes | ServerSideEmit bytes bytes "('ty, 'v) anyarg list"
  | SocketOnError sockref fnptr bool | SocketOffError sockref "fnptr list"
  | SocketOnDisconnecting sockref fnptr bool | SocketOffDisconnecting sockref "fnptr list"
  | SocketOnDisconnect sockref fnptr bool | SocketOffDisconnect sockref "fnptr list"
  | NspUse bytes fnptr | NspOnConnection bytes fnptr bool | NspOffConnection bytes "fnptr list"
  | NspOnServerSideEmit bytes bytes "'ty fnval" | NspSockets bytes | OnAnyConnection fnptr | OnNewNamespace fnptr
  | RefreshPeers environment "bytes \<Rightarrow> parsed_url option" "bytes \<Rightarrow> bytes" "bytes \<Rightarrow> bytes list option"
  | RunServer | CloseServer | SweepAcks | SweepRecovery

definition or_stay :: "('ty, 'v) Server \<Rightarrow> (handler_error, ('ty, 'v) Server) result \<Rightarrow> ('ty, 'v) Server" where
  "or_stay s r = (case r of Inl _ \<Rightarrow> s | Inr s' \<Rightarrow> s')"

fun server_do :: "('ty, 'v) world \<Rightarrow> ('ty, 'v) Server \<Rightarrow> ('ty, 'v) server_op \<Rightarrow> ('ty, 'v) Server" where
  "server_do w s (Request te r) = snd (ServeHTTP (w_limit w) (w_authenticator w) (turn_of w) te r s)"
| "server_do w s (WsRead c msg) = (if c < length (sv_connHeap s) then readLoop_turn (turn_of w) c msg s else s)"
| "server_do w s (WsWrite c ok) = (if c < length (sv_connHeap s) then snd (writeLoop_turn (w_now w) ok c s) else s)"
| "server_do w s (WsPing c ok) = (if c < length (sv_connHeap s) then ping_turn (w_now w) ok c s else s)"
| "server_do w s (SocketEmit k ev timeout v) =
     (if k < length (sv_socketHeap s) then or_stay s (emitWithOptions (w_outside w) (w_now w) k ev timeout v s) else s)"
| "server_do w s (AckReply k ident e) = (if k < length (sv_socketHeap s) then sendAckEncoded (w_now w) k ident e s else s)"
| "server_do w s (SocketJoin k rooms) = (if k < length (sv_socketHeap s) then socket_Join k rooms s else s)"
| "server_do w s (SocketLeave k room) = (if k < length (sv_socketHeap s) then socket_Leave k room s else s)"
| "server_do w s (SocketDisconnect k close) = (if k < length (sv_socketHeap s) then socket_Disconnect (w_now w) k close s else s)"
| "server_do w s (SocketOnEvent k ev f once) = (if k < length (sv_socketHeap s) then or_stay s (socket_OnEvent k ev f once s) else s)"
| "server_do w s (SocketOffEvent k ev fs) = (if k < length (sv_socketHeap s) then socket_OffEvent k ev fs s else s)"
| "server_do w s (SocketOffAll k) = (if k < length (sv_socketHeap s) then socket_OffAll k s else s)"
| "server_do w s (Emit b ev v) = or_stay s (op_Emit (w_outside w) (w_net w) (w_tick w) (w_now w) b ev v s)"
| "server_do w s (SocketsJoin b rooms) = op_SocketsJoin (w_net w) b rooms s"
| "server_do w s (SocketsLeave b rooms) = op_SocketsLeave (w_net w) b rooms s"
| "server_do w s (DisconnectSockets b close) = op_DisconnectSockets (w_net w) (w_now w) b close s"
| "server_do w s (FetchSockets b) = snd (op_FetchSockets (w_outside w) (w_net w) b s)"
| "server_do w s (Of name) = snd (server_Of name s)"
| "server_do w s (ServerSideEmit name ev v) = serverSideEmit (w_outside w) (w_net w) name ev v s"
| "server_do w s (SocketOnError k f once) = socket_OnError k f once s"
| "server_do w s (SocketOffError k fs) = socket_OffError k fs s"
| "server_do w s (SocketOnDisconnecting k f once) = socket_OnDisconnecting k f once s"
| "server_do w s (SocketOffDisconnecting k fs) = socket_OffDisconnecting k fs s"
| "server_do w s (SocketOnDisconnect k f once) = socket_OnDisconnect k f once s"
| "server_do w s (SocketOffDisconnect k fs) = socket_OffDisconnect k fs s"
| "server_do w s (NspUse name f) = nsp_Use name f s"
| "server_do w s (NspOnConnection name f once) = nsp_OnConnection name f once s"
| "server_do w s (NspOffConnection name fs) = nsp_OffConnection name fs s"
| "server_do w s (NspOnServerSideEmit name ev f) = or_stay s (nsp_OnServerSideEmit name ev f s)"
| "server_do w s (NspSockets name) = snd (nsp_Sockets name s)"
| "server_do w s (OnAnyConnection f) = server_OnAnyConnection f s"
| "server_do w s (OnNewNamespace f) = server_OnNewNamespace f s"
| "server_do w s (RefreshPeers env url_parse port_of lookup_host) = server_refreshPeers env url_parse port_of lookup_host s"
| "server_do w s RunServer = snd (server_Run s)"
| "server_do w s CloseServer = server_Close (w_now w) s"
| "server_do w s SweepAcks = server_sweepAcks (w_now w) s"
| "server_do w s SweepRecovery = recovery_sweep (w_now w) s"

fun server_step :: "('ty, 'v) Server \<Rightarrow> ('ty, 'v) world \<times> ('ty, 'v) server_op \<Rightarrow> ('ty, 'v) Server" where
  "server_step s (w, op) = server_do w s op"

definition consistent :: "('ty, 'v) Server \<Rightarrow> bool" where
  "consistent s \<longleftrightarrow> server_ok 0 0 0 s"

lemma consistent_new: "consistent (NewServer env url_parse port_of lookup_host random config)"
proof -
  have "adapter_good sid_of Q (ns_adapter newNamespace)" for sid_of Q by (simp add: newNamespace_def adapter_good_new)
  then show ?thesis
    by (simp add: consistent_def ok_defs NewServer_def Let_def newMetricsRecorder_def wf_map_def)
qed

lemma ok_on_socket:
  assumes "server_ok d C K s" "k < length (sv_socketHeap s)"
    and "\<And>K'. server_ok d C K' s \<Longrightarrow> k < K' \<Longrightarrow> server_ok d C K' s'"
  shows "server_ok d C K s'"
proof -
  have "server_ok d C (length (sv_socketHeap s)) s'" using assms ok_raise by blast
  then show ?thesis by (rule ok_lower) (use ok_size [OF assms(1)] in simp)
qed

lemma ok_or_stay: "server_ok d C K s \<Longrightarrow> (\<And>s'. r = Inr s' \<Longrightarrow> server_ok d C K s') \<Longrightarrow> server_ok d C K (or_stay s r)"
  by (auto simp: or_stay_def split: sum.splits)

lemma ok_registrations:
  assumes "server_ok d C K s"
  shows "socket_OnEvent k ev f once s = Inr s' \<Longrightarrow> server_ok d C K s'"
    "server_ok d C K (socket_OffEvent k ev fs s)" "server_ok d C K (socket_OffAll k s)"
  using assms by (auto simp: socket_OnEvent_def socket_OffEvent_def socket_OffAll_def intro!: inv_intros split: sum.splits)

lemma ok_api:
  assumes "server_ok d C K s"
  shows "server_ok d C K (socket_OnError k f once s)" "server_ok d C K (socket_OffError k fs s)"
    "server_ok d C K (socket_OnDisconnecting k f once s)" "server_ok d C K (socket_OffDisconnecting k fs s)"
    "server_ok d C K (socket_OnDisconnect k f once s)" "server_ok d C K (socket_OffDisconnect k fs s)"
    "server_ok d C K (nsp_Use name f s)" "server_ok d C K (nsp_OnConnection name f once s)" "server_ok d C K (nsp_OffConnection name fs s)"
    "server_ok d C K (snd (nsp_Sockets name s))"
    "server_ok d C K (server_OnAnyConnection f s)" "server_ok d C K (server_OnNewNamespace f s)"
    "server_ok d C K (server_refreshPeers env url_parse port_of lookup_host s)"
    "server_ok d C K (serverSideEmit x net name ev v s)"
  using assms
  by (auto simp: socket_OnError_def socket_OffError_def socket_OnDisconnecting_def socket_OffDisconnecting_def socket_OnDisconnect_def
      socket_OffDisconnect_def nsp_Use_def nsp_OnConnection_def nsp_OffConnection_def nsp_Sockets_def server_OnAnyConnection_def
      server_OnNewNamespace_def server_refreshPeers_def serverSideEmit_def intro!: inv_intros split: option.split)

lemma ok_OnServerSideEmit: "server_ok d C K s \<Longrightarrow> nsp_OnServerSideEmit name ev f s = Inr s' \<Longrightarrow> server_ok d C K s'"
  by (auto simp: nsp_OnServerSideEmit_def intro!: inv_intros split: option.splits sum.splits)

lemma turn_csr: "csr_ok (cx_recoverCSR (turn_of w))"
  by (simp add: turn_of_def csr_ok_recoverCSR)

lemma server_do_ok:
  assumes "server_ok d C K s"
  shows "server_ok d C K (server_do w s op)"
proof (cases op)
  case (SocketEmit k ev timeout v)
  then show ?thesis
    using assms by (auto intro!: ok_on_socket [OF assms, of k] ok_or_stay dest: ok_emitWithOptions)
next
  case (WsRead c msg)
  then show ?thesis using assms by (auto intro!: ok_on_conn [OF assms, of c] ok_readLoop_turn turn_csr)
next
  case (WsWrite c x)
  moreover have "server_ok d C K (snd (writeLoop_turn (w_now w) x c s))" if "c < length (sv_connHeap s)"
    using assms that by (rule ok_on_conn) (rule ok_writeLoop_turn)
  ultimately show ?thesis using assms by simp
next
  case (WsPing c x)
  moreover have "server_ok d C K (ping_turn (w_now w) x c s)" if "c < length (sv_connHeap s)"
    using assms that by (rule ok_on_conn) (rule ok_ping_turn)
  ultimately show ?thesis using assms by simp
next
  case (AckReply k i e)
  moreover have "server_ok d C K (sendAckEncoded (w_now w) k i e s)" if "k < length (sv_socketHeap s)"
    using assms that by (rule ok_on_socket) (rule ok_sendAckEncoded)
  ultimately show ?thesis using assms by simp
next
  case (SocketJoin k rooms)
  moreover have "server_ok d C K (socket_Join k rooms s)" if "k < length (sv_socketHeap s)"
    using assms that by (rule ok_on_socket) (rule ok_Join)
  ultimately show ?thesis using assms by simp
next
  case (SocketDisconnect k close)
  moreover have "server_ok d C K (socket_Disconnect (w_now w) k close s)" if "k < length (sv_socketHeap s)"
    using assms that by (rule ok_on_socket) (rule ok_Disconnect)
  ultimately show ?thesis using assms by simp
next
  case (Request te r)
  then show ?thesis using assms turn_csr by (auto intro!: ok_ServeHTTP)
next
  case (Emit b ev v)
  then show ?thesis using assms by (simp add: ok_or_stay ok_op_Emit [OF assms])
next
  case (SocketOnEvent k ev f once)
  then show ?thesis using assms by (simp add: ok_or_stay ok_registrations(1) [OF assms])
next
  case (NspOnServerSideEmit name ev f)
  then show ?thesis using assms by (simp add: ok_or_stay ok_OnServerSideEmit [OF assms])
qed (simp_all add: assms ok_api [OF assms] ok_registrations(2,3) [OF assms] ok_Leave [OF assms] ok_broadcast_ops [OF assms] ok_FetchSockets [OF assms]
    ok_Of [OF assms] ok_Run [OF assms] ok_Close [OF assms] ok_server_sweepAcks [OF assms]
    ok_recovery_sweep [OF assms])

interpretation server: component "NewServer env url_parse port_of lookup_host random config" server_step consistent
  for env url_parse port_of lookup_host random config
proof
  show "consistent (NewServer env url_parse port_of lookup_host random config)" by (rule consistent_new)
next
  fix s :: "('a, 'b) Server" and x
  assume "consistent s"
  then show "consistent (server_step s x)" unfolding consistent_def by (cases x) (simp add: server_do_ok)
qed

end
