(* ===== verification/Delivery.thy ===== *)
theory Delivery
  imports ServerInv
begin

text \<open>
  What is sent reaches the outgoing queues: the frames that sending a packet appends to a connection with room for
  them, and the connections a broadcast appends them to.
\<close>

section \<open>The outgoing frames of a connection\<close>

definition outbox :: "engineConn \<Rightarrow> engineFrame list" where
  "outbox e = (if ec_ws e then ec_send e else pq_frames (ec_poll e))"

definition payload_frames :: "bytes \<Rightarrow> bytes list \<Rightarrow> engineFrame list" where
  "payload_frames packet atts = newEngineMessageFrame packet # map newEngineBinaryFrame atts"

definition has_room :: "nat \<Rightarrow> engineConn \<Rightarrow> bool" where
  "has_room n e \<longleftrightarrow> \<not> ec_closed e \<and> (ec_ws e \<longrightarrow> length (ec_send e) + n \<le> send_capacity)"

definition push :: "engineConn \<Rightarrow> engineFrame \<Rightarrow> engineConn" where
  "push e f = (if ec_ws e then e\<lparr>ec_send := ec_send e @ [f]\<rparr> else e\<lparr>ec_poll := poll_add (ec_poll e) f\<rparr>)"

lemma push_fields [simp]:
  "ec_ws (push e f) = ec_ws e" "ec_closed (push e f) = ec_closed e" "ec_sid (push e f) = ec_sid e"
  "ec_socketsByNsp (push e f) = ec_socketsByNsp e" "ec_pendingBinary (push e f) = ec_pendingBinary e"
  "ec_broadcastAcks (push e f) = ec_broadcastAcks e"
  by (simp_all add: push_def)

lemma outbox_push [simp]: "outbox (push e f) = outbox e @ [f]"
  by (simp add: outbox_def push_def poll_add_def)

lemma outbox_pushes [simp]: "outbox (foldl push e fs) = outbox e @ fs"
  by (induction fs arbitrary: e) simp_all

lemma pushes_fields [simp]:
  "ec_ws (foldl push e fs) = ec_ws e" "ec_closed (foldl push e fs) = ec_closed e" "ec_sid (foldl push e fs) = ec_sid e"
  "ec_socketsByNsp (foldl push e fs) = ec_socketsByNsp e" "ec_pendingBinary (foldl push e fs) = ec_pendingBinary e"
  "ec_broadcastAcks (foldl push e fs) = ec_broadcastAcks e"
  by (induction fs arbitrary: e) simp_all

lemma has_room_push: "has_room (Suc n) e \<Longrightarrow> has_room n (push e f)"
  by (simp add: has_room_def push_def)

text \<open>Sending changes nothing of the server but its connections and counters.\<close>

definition with_conns :: "engineConn list \<Rightarrow> metricsRecorder \<Rightarrow> ('ty, 'v) Server \<Rightarrow> ('ty, 'v) Server" where
  "with_conns h m s = s\<lparr>sv_connHeap := h, sv_metrics := m\<rparr>"

lemma with_conns_sel [simp]:
  "sv_connHeap (with_conns h m s) = h" "sv_metrics (with_conns h m s) = m" "sv_socketHeap (with_conns h m s) = sv_socketHeap s"
  "sv_namespaces (with_conns h m s) = sv_namespaces s" "sv_recovery (with_conns h m s) = sv_recovery s"
  "sv_cluster (with_conns h m s) = sv_cluster s" "sv_out (with_conns h m s) = sv_out s" "sv_conns (with_conns h m s) = sv_conns s"
  "with_conns h m (with_conns h' m' s) = with_conns h m s" "upd_metrics f (with_conns h m s) = with_conns h (f m) s"
  "adapter_of (with_conns h m s) = adapter_of s"
  by (simp_all add: with_conns_def upd_metrics_def adapter_of_def fun_eq_iff)

lemma with_conns_same: "s = with_conns (sv_connHeap s) (sv_metrics s) s"
  by (simp add: with_conns_def)

lemma enqueue_room:
  assumes "has_room (Suc n) (h ! c)"
  shows "enqueueFrame now c f (with_conns h m s) = with_conns (h[c := push (h ! c) f]) m s"
  using assms by (auto simp: enqueueFrame_def has_room_def push_def upd_conn_def with_conns_def)

lemma attachments_room:
  assumes "has_room (length atts) (h ! c)" "c < length h"
  shows "\<exists>m'. send_attachments now c atts (with_conns h m s)
    = with_conns (h[c := foldl push (h ! c) (map newEngineBinaryFrame atts)]) m' s"
  using assms
proof (induction atts arbitrary: h m)
  case Nil
  then show ?case by (auto simp: send_attachments_def)
next
  case (Cons a atts)
  let ?h = "h[c := push (h ! c) (newEngineBinaryFrame a)]" and ?m = "m\<lparr>me_binaryOut := me_binaryOut m + 1\<rparr>"
  have room: "has_room (Suc (length atts)) (h ! c)" using Cons.prems by simp
  have "send_attachments now c (a # atts) (with_conns h m s) = send_attachments now c atts (with_conns ?h ?m s)"
    by (simp add: send_attachments_def enqueue_room [OF room])
  moreover have "has_room (length atts) (?h ! c)" using has_room_push [OF room] Cons.prems(2) by simp
  ultimately show ?case using Cons.IH [of ?h ?m] Cons.prems(2) by auto
qed

lemma send_room:
  assumes "c < length h" "has_room (Suc (length atts)) (h ! c)"
  shows "\<exists>m'. sendSocketPayload now c packet atts (with_conns h m s)
    = with_conns (h[c := foldl push (h ! c) (payload_frames packet atts)]) m' s"
proof -
  let ?h = "h[c := push (h ! c) (newEngineMessageFrame packet)]"
  obtain m1 where m1: "sendSocketPayload now c packet atts (with_conns h m s) =
      send_attachments now c atts (enqueueFrame now c (newEngineMessageFrame packet) (with_conns h m1 s))"
    unfolding sendSocketPayload_def Let_def by (cases "length packet \<noteq> 0 \<and> packet ! 0 \<ge> CHR ''0'' \<and> packet ! 0 \<le> CHR ''6''") auto
  moreover have "has_room (length atts) (?h ! c)" using has_room_push [OF assms(2)] assms(1) by simp
  then obtain m2 where "send_attachments now c atts (with_conns ?h m1 s)
      = with_conns (?h[c := foldl push (?h ! c) (map newEngineBinaryFrame atts)]) m2 s"
    using attachments_room [of atts ?h c now m1 s] assms(1) by auto
  ultimately show ?thesis
    using assms(1) by (simp add: enqueue_room [OF assms(2)] payload_frames_def) blast
qed

section \<open>Sending to several sockets\<close>

lemma send_each:
  assumes "distinct ks" "inj_on g (set ks)" "\<And>k. so_conn (socket_at s k) = g k" "\<forall>k \<in> set ks. g k < length h \<and> has_room (Suc (length atts)) (h ! g k)"
  shows "\<exists>h' m'. foldl (send_to now packet atts) (with_conns h m s) ks = with_conns h' m' s \<and> length h' = length h
    \<and> (\<forall>c. h' ! c = (if c \<in> g ` set ks then foldl push (h ! c) (payload_frames packet atts) else h ! c))"
  using assms(1,2,4)
proof (induction ks arbitrary: h m)
  case Nil
  show ?case by (rule exI [of _ h], rule exI [of _ m]) simp
next
  case (Cons k ks)
  let ?h = "h[g k := foldl push (h ! g k) (payload_frames packet atts)]"
  obtain m1 where step: "send_to now packet atts (with_conns h m s) k = with_conns ?h m1 s"
    using send_room [of "g k" h atts now packet m s] Cons.prems(3) assms(3) by (auto simp: send_to_def)
  have other: "g j \<noteq> g k" if "j \<in> set ks" for j using Cons.prems(1,2) that by (auto simp: inj_on_def)
  obtain h' m' where ih: "foldl (send_to now packet atts) (with_conns ?h m1 s) ks = with_conns h' m' s" "length h' = length ?h"
    "\<forall>c. h' ! c = (if c \<in> g ` set ks then foldl push (?h ! c) (payload_frames packet atts) else ?h ! c)"
    using Cons.IH [of ?h m1] Cons.prems other by (fastforce simp: inj_on_def)
  have "h' ! c = (if c \<in> g ` set (k # ks) then foldl push (h ! c) (payload_frames packet atts) else h ! c)" for c
    using ih(3) other Cons.prems(3) by (cases "c = g k") (simp_all add: image_iff, metis)
  then show ?case using ih step by auto
qed

lemma posts_keep [simp]:
  "sv_connHeap (snd (doPost net r s)) = sv_connHeap s"
  "sv_connHeap (snd (post_each net c op q body peers s)) = sv_connHeap s"
  "sv_connHeap (snd (postToPeers net c op ns opts extra body s)) = sv_connHeap s"
proof -
  show post: "sv_connHeap (snd (doPost net r s)) = sv_connHeap s" for r and s :: "('ty, 'v) Server"
    by (auto simp: doPost_def Let_def split: post_result.split)
  show each: "sv_connHeap (snd (post_each net c op q body peers s)) = sv_connHeap s" for q peers and s :: "('ty, 'v) Server"
  proof (induction peers arbitrary: s)
    case (Cons p peers)
    then show ?case using post by (simp add: Let_def case_prod_unfold)
  qed simp
  show "sv_connHeap (snd (postToPeers net c op ns opts extra body s)) = sv_connHeap s"
    by (simp add: postToPeers_def each)
qed


lemma memb_sid: "adapter_inv sid_of a \<Longrightarrow> memb a r x = Some k \<Longrightarrow> sid_of k = x"
  by (auto simp: memb_def adapter_inv_def rooms_ok_def entry_ok_def split: option.splits)

section \<open>A broadcast reaches the selected sockets\<close>

lemma in_namespace:
  assumes "refs_ok s" "rooms_good s" "selected opts (adapter_of s name) k"
  shows "so_conn (socket_at s k) < length (sv_connHeap s)"
proof (cases "map_of (sv_namespaces s) name")
  case None
  then show ?thesis using assms(3) by (auto simp: adapter_of_def selected_def hit_def newLocalAdapter_def split: if_splits)
next
  case (Some n)
  then have good: "adapter_good (sids s) (in_nsp s name) (ns_adapter n)" using assms(2) by (simp add: rooms_good_def)
  then have inv: "adapter_inv (sids s) (ns_adapter n)" by (simp add: adapter_good_def)
  then have "wf_map (ad_socketByID (ns_adapter n))" by (simp add: adapter_inv_def index_ok_def)
  then have "in_nsp s name k"
    using assms(3) good Some
    by (auto simp: adapter_of_def selected_def adapter_good_def hit_memb [OF inv] wf_map_in_iff split: if_splits)
  then show ?thesis using assms(1) by (simp add: in_nsp_def refs_ok_def)
qed

text \<open>Sending to all selected sockets appends the frames to their connections and to no other.\<close>

definition apart :: "('ty, 'v) Server \<Rightarrow> bytes \<Rightarrow> broadcastOptions \<Rightarrow> nat \<Rightarrow> bool" where
  "apart s name opts n \<longleftrightarrow>
     inj_on (\<lambda>k. so_conn (socket_at s k)) {k. selected opts (adapter_of s name) k}
     \<and> (\<forall>k. selected opts (adapter_of s name) k \<longrightarrow> has_room n (conn_at s (so_conn (socket_at s k))))"

lemma apply_sends:
  fixes now packet
  assumes "refs_ok s" "rooms_good s" "tokens_ok (adapter_of s name)" "ad_epoch (adapter_of s name) + 1 \<noteq> 0" "apart s name opts (Suc (length atts))"
  defines "s' \<equiv> snd (apply_each name opts (send_to now packet atts) s)"
  shows "length (sv_connHeap s') = length (sv_connHeap s) \<and> sv_socketHeap s' = sv_socketHeap s
    \<and> (\<forall>c. conn_at s' c = (if \<exists>k. selected opts (adapter_of s name) k \<and> so_conn (socket_at s k) = c
         then foldl push (conn_at s c) (payload_frames packet atts) else conn_at s c))"
proof -
  let ?a = "adapter_of s name" and ?g = "\<lambda>k. so_conn (socket_at s k)"
  obtain out a where visited: "adapter_apply opts ?a = (out, a)" by fastforce
  have inv: "adapter_inv (sids s) ?a"
    using assms(2) adapter_init_inv by (auto simp: adapter_of_def rooms_good_def adapter_good_def split: option.split)
  have out: "distinct out" "set out = {k. selected opts ?a k}"
    using adapter_apply_exact [OF inv assms(3,4) visited] by auto
  let ?s = "upd_nsp name (\<lambda>n. n\<lparr>ns_adapter := a\<rparr>) s"
  have "?g k < length (sv_connHeap s) \<and> has_room (Suc (length atts)) (sv_connHeap s ! ?g k)" if "k \<in> set out" for k
    using that out(2) assms(5) in_namespace [OF assms(1,2)] by (auto simp: apart_def)
  moreover have "inj_on ?g (set out)" using assms(5) out(2) by (simp add: apart_def)
  ultimately obtain h m where h: "foldl (send_to now packet atts) (with_conns (sv_connHeap s) (sv_metrics s) ?s) out = with_conns h m ?s"
      "length h = length (sv_connHeap s)"
      "\<forall>c. h ! c = (if c \<in> ?g ` set out then foldl push (conn_at s c) (payload_frames packet atts) else conn_at s c)"
    using send_each [of out ?g ?s "sv_connHeap s" atts now packet "sv_metrics s"] out(1) by auto
  have "with_conns (sv_connHeap s) (sv_metrics s) ?s = ?s"
    by (simp add: with_conns_def upd_nsp_def split: option.split)
  then have "s' = with_conns h m ?s" unfolding s'_def apply_each_def using visited h(1) by simp
  then show ?thesis using h(2,3) out(2) by (auto simp: image_iff)
qed

lemma on_peers_keep [simp]:
  "sv_connHeap (on_peers b (\<lambda>c. broadcast_peers net c name opts packet atts) s) = sv_connHeap s"
  by (simp add: on_peers_def broadcast_peers_def split: option.split)

lemma emit_shape:
  assumes "split_last_func v = None"
    and "encodeAnyArgs (x_valid x) (x_marshal x)
      (v @ (case sv_recovery s of None \<Rightarrow> [] | Some r \<Rightarrow> [AnyString (fst (nextOffset tick r))])) = Inr encoded"
  shows "\<exists>t s'. op_Emit x net tick now b ev v s = Inr s'
    \<and> sv_connHeap s' = sv_connHeap (snd (apply_each (br_namespace b) (br_opts b)
        (send_to now (appendEventEncoded (x_isprint x) [] (br_namespace b) 0 False ev encoded) (BinaryViews encoded)) t))
    \<and> (\<exists>r m. t = s\<lparr>sv_recovery := r, sv_metrics := m\<rparr>)"
proof (cases "sv_recovery s")
  case None
  define t where "t = upd_metrics (\<lambda>m. m\<lparr>me_broadcastsTotal := me_broadcastsTotal m + 1\<rparr>) s"
  have "t = s\<lparr>sv_recovery := sv_recovery s, sv_metrics := sv_metrics t\<rparr>" by (simp add: t_def upd_metrics_def)
  moreover have "sv_recovery t = None" using None by (simp add: t_def upd_metrics_def)
  ultimately show ?thesis using assms None unfolding op_Emit_def Let_def by (auto simp: t_def [symmetric])
next
  case (Some r)
  obtain off r' where off: "nextOffset tick r = (off, r')" by fastforce
  define t where "t = upd_metrics (\<lambda>m. m\<lparr>me_broadcastsTotal := me_broadcastsTotal m + 1\<rparr>) (s\<lparr>sv_recovery := Some r'\<rparr>)"
  have "t\<lparr>sv_recovery := r2\<rparr> = s\<lparr>sv_recovery := r2, sv_metrics := sv_metrics t\<rparr>" for r2 by (simp add: t_def upd_metrics_def)
  moreover have "t = s\<lparr>sv_recovery := Some r', sv_metrics := sv_metrics t\<rparr>" by (simp add: t_def upd_metrics_def)
  moreover have "sv_recovery t = Some r'" by (simp add: t_def upd_metrics_def)
  ultimately show ?thesis using assms Some off unfolding op_Emit_def Let_def by (auto simp: t_def [symmetric])
qed

end
