(* ===== verification/Scenarios.thy ===== *)
theory Scenarios
  imports Delivery
begin

text \<open>
  A small server for the witnesses: what surrounds it, its configuration, and the state in which two clients are connected
  over polling.
\<close>

definition sample_outside :: "(unit, bytes) outside" where
  "sample_outside = \<lparr>x_unmarshal = (\<lambda>_ b. Some b), x_valid = (\<lambda>_. False),
     x_marshal = (\<lambda>a. case a of AnyOther v \<Rightarrow> Some v | AnyString v \<Rightarrow> Some ([CHR 0x22] @ v @ [CHR 0x22]) | _ \<Rightarrow> None), x_isprint = (\<lambda>_. True), x_middleware = (\<lambda>_ _ _. None),
     x_recoveryAuth = (\<lambda>_. ([], [])), x_decodeSnapshots = (\<lambda>_. None), x_encodeSnapshots = (\<lambda>_. [])\<rparr>"

definition sample_world :: "(unit, bytes) world" where
  "sample_world = \<lparr>w_outside = sample_outside, w_net = (\<lambda>_. DoFails), w_limit = 1000, w_random1 = ''a'', w_random2 = ''b'', w_now = 5,
     w_tick = 7, w_authenticator = None\<rparr>"

definition sample_config :: ServerConfig where
  "sample_config = \<lparr>sc_Path = [], sc_Port = [], sc_Secret = ''s'', sc_PingInterval = 0, sc_PingTimeout = 0, sc_ConnectTimeout = 0,
     sc_AcceptAnyNamespace = False, sc_Cluster = plain_config, sc_RecoveryEnabled = False, sc_MaxDisconnectionDuration = 0,
     sc_UseMiddlewares = False, sc_OnError = True\<rparr>"

definition sample_server :: "ServerConfig \<Rightarrow> (unit, bytes) Server" where
  "sample_server config = NewServer plain_env (\<lambda>_. Some plain_url) (\<lambda>_. ''80'') (\<lambda>_. None) (Some ''n'') config"

definition sample_conn :: "bytes \<Rightarrow> sockref \<Rightarrow> engineConn" where
  "sample_conn sid k = (newEngineConn sid False)\<lparr>ec_socketsByNsp := [(''/'', k)]\<rparr>"

definition sample_socket :: "connref \<Rightarrow> SocketID \<Rightarrow> unit serverSocket" where
  "sample_socket c sid = (newServerSocket c ''/'' sid)\<lparr>so_connected := True\<rparr>"

text \<open>Socket 0 has the id \<^verbatim>\<open>a\<close>, socket 1 has the id \<^verbatim>\<open>b\<close> and is in the room \<^verbatim>\<open>r\<close>.\<close>

definition sample_adapter :: localAdapter where
  "sample_adapter = reached sample_ids [AddSocket 0, AddSocket 1, Join 1 [''r'']]"

definition two_clients :: "(unit, bytes) Server" where
  "two_clients = (sample_server sample_config)
     \<lparr>sv_connHeap := [sample_conn ''c0'' 0, sample_conn ''c1'' 1], sv_socketHeap := [sample_socket 0 ''a'', sample_socket 1 ''b''],
      sv_conns := [(''c0'', 0), (''c1'', 1)], sv_namespaces := [(''/'', newNamespace\<lparr>ns_adapter := sample_adapter\<rparr>)],
      sv_metrics := newMetricsRecorder\<lparr>me_socketsConnected := 2, me_socketsActive := 2\<rparr>\<rparr>"

lemma sample_adapter_good: "adapter_good sample_ids (\<lambda>k. k < 2) sample_adapter"
  unfolding sample_adapter_def proof -
  have "\<forall>x \<in> set ops. \<forall>k \<in> op_refs x. k < 2 \<Longrightarrow> adapter_good sample_ids (\<lambda>k. k < 2) (reached sample_ids ops)" for ops
    by (induction ops rule: rev_induct) (auto simp: run_ops_append intro!: adapter_good_step adapter_good_new)
  from this [of "[AddSocket 0, AddSocket 1, Join 1 [''r'']]"]
  show "adapter_good sample_ids (\<lambda>k. k < 2) (reached sample_ids [AddSocket 0, AddSocket 1, Join 1 [''r'']])" by auto
qed

lemma two_clients_sel [simp]:
  "sv_connHeap two_clients = [sample_conn ''c0'' 0, sample_conn ''c1'' 1]"
  "sv_socketHeap two_clients = [sample_socket 0 ''a'', sample_socket 1 ''b'']"
  "sv_recovery two_clients = None" "adapter_of two_clients ''/'' = sample_adapter"
  by (simp_all add: two_clients_def sample_server_def NewServer_def Let_def sample_config_def adapter_of_def)

lemma sample_outbox [simp]: "outbox (sample_conn sid k) = []"
  by (simp add: outbox_def sample_conn_def newEngineConn_def newPollQueue_def)

lemma two_clients_consistent: "consistent two_clients"
proof -
  have ids: "sids two_clients k = sample_ids k \<and> in_nsp two_clients ''/'' k" if "k < 2" for k
    using that by (cases k) (auto simp: in_nsp_def sample_socket_def newServerSocket_def sample_ids_def less_Suc_eq numeral_2_eq_2)
  have "adapter_good (sids two_clients) (in_nsp two_clients ''/'') sample_adapter"
    by (rule adapter_good_cong [OF sample_adapter_good]) (use ids in simp)
  then have "rooms_good two_clients" by (simp add: rooms_good_def two_clients_def wf_map_def)
  moreover have "refs_ok two_clients"
    using ids [of 0] ids [of 1] by (auto simp: refs_ok_def table_ok_def wf_map_def sample_conn_def newEngineConn_def sample_socket_def newServerSocket_def)
  moreover have "conns_ok two_clients"
    by (auto simp: conns_ok_def two_clients_def wf_map_def sample_conn_def newEngineConn_def split: if_splits)
  moreover have "counts_ok 0 two_clients"
    by (simp add: counts_ok_def connected_count_def two_clients_def sample_socket_def newMetricsRecorder_def)
  ultimately show ?thesis by (simp add: consistent_def server_ok_def)
qed

lemma sample_tokens [simp]: "tokens_ok sample_adapter" "ad_epoch sample_adapter = 0"
proof -
  have "same_tokens newLocalAdapter sample_adapter"
    using step_tokens by (auto simp: sample_adapter_def same_tokens_def addAll_def)
  then show "tokens_ok sample_adapter" "ad_epoch sample_adapter = 0"
    by (simp_all add: same_tokens_def tokens_ok_def newLocalAdapter_def)
qed

lemma sample_selected [simp]: "selected \<lparr>bo_Rooms = [''r''], bo_Except = [], bo_Local = True\<rparr> sample_adapter k \<longleftrightarrow> k = 1"
proof -
  have inv: "adapter_inv sample_ids sample_adapter" using sample_adapter_good by (simp add: adapter_good_def)
  have "memb sample_adapter = spec_members sample_ids [AddSocket 0, AddSocket 1, Join 1 [''r'']]"
    by (simp only: sample_adapter_def reached_memb)
  then show ?thesis by (auto simp: selected_def hit_memb [OF inv] sample_ids_def split: if_splits)
qed


text \<open>A recovery store with one saved session.\<close>

definition sample_store :: recoveryStore where
  "sample_store = recovery_save ''/'' ''p'' ''s'' [''s'', ''r''] 5 (newRecoveryStore 100)"

lemmas sample_recovery_defs = recovery_snapshot_def recovery_recover_def recoverWithConsume_def sample_store_def recovery_save_def
  newRecoveryStore_def pruneLocked_def newRecoverySession_def session_clone_def Let_def sample_parse

lemma sample_snapshot:
  "recovery_snapshot ''/'' ''p'' ''10'' 6 sample_store = (Some (newRecoverySession ''/'' ''p'' ''s'' [''s'', ''r''] 105, []), sample_store)"
  by (simp add: sample_recovery_defs)

lemma sample_recover:
  "recovery_recover ''/'' ''p'' ''10'' 6 sample_store
    = (Some (newRecoverySession ''/'' ''p'' ''s'' [''s'', ''r''] 105, []), sample_store\<lparr>st_sessions := []\<rparr>)"
  by (simp add: sample_recovery_defs)

end
