(* ===== verification/ServerProps.thy ===== *)
theory ServerProps
  imports Scenarios
begin

text \<open>
  What the server as a whole guarantees, in every state that requests, turns of the loops, calls of the interface and
  sweeps can reach: its tables agree, its gauges are exact, and what is sent arrives in the right queues.
\<close>

section \<open>Reachable states\<close>



section \<open>Broadcasts\<close>

text \<open>
  (C1) A broadcast without acknowledgement appends its packet and its attachments, in this order, to the outgoing
  queue of the connection of every selected socket of the namespace and to no other queue. The selected sockets have
  connections of their own that are open and have room in their queues, and the match token of the room index has not wrapped around.
\<close>

theorem broadcast_delivers:
  fixes s :: "('ty, 'v) Server" and b :: BroadcastOperator and encoded :: encodedArgs and x :: "('ty, 'v) outside" and ev :: bytes
  defines "a \<equiv> adapter_of s (br_namespace b)" and "conn \<equiv> (\<lambda>k. so_conn (socket_at s k))"
  defines "frames \<equiv> payload_frames (appendEventEncoded (x_isprint x) [] (br_namespace b) 0 False ev encoded) (BinaryViews encoded)"
  assumes "consistent s" "split_last_func v = None"
    and "encodeAnyArgs (x_valid x) (x_marshal x)
      (v @ (case sv_recovery s of None \<Rightarrow> [] | Some r \<Rightarrow> [AnyString (fst (nextOffset tick r))])) = Inr encoded"
    and "tokens_ok a" "ad_epoch a + 1 \<noteq> 0"
    and "inj_on conn {k. selected (br_opts b) a k}"
    and "\<And>k. selected (br_opts b) a k \<Longrightarrow> has_room (length frames) (conn_at s (conn k))"
  shows "\<exists>s'. op_Emit x net tick now b ev v s = Inr s'
    \<and> (\<forall>c. outbox (conn_at s' c) = outbox (conn_at s c) @ (if \<exists>k. selected (br_opts b) a k \<and> conn k = c then frames else []))"
proof -
  obtain t s' where s': "op_Emit x net tick now b ev v s = Inr s'"
    "sv_connHeap s' = sv_connHeap (snd (apply_each (br_namespace b) (br_opts b)
        (send_to now (appendEventEncoded (x_isprint x) [] (br_namespace b) 0 False ev encoded) (BinaryViews encoded)) t))"
    "\<exists>r m. t = s\<lparr>sv_recovery := r, sv_metrics := m\<rparr>"
    using emit_shape [OF assms(5,6)] by blast
  then have same: "adapter_of t (br_namespace b) = a" "sv_socketHeap t = sv_socketHeap s" "sv_connHeap t = sv_connHeap s"
    by (auto simp: a_def adapter_of_def)
  have room: "apart t (br_namespace b) (br_opts b) (Suc (length (BinaryViews encoded)))"
    using assms(9,10) by (simp add: apart_def same conn_def frames_def payload_frames_def)
  have "refs_ok t" "rooms_good t"
    using s'(3) assms(4) by (auto simp: consistent_def server_ok_def refs_ok_def rooms_good_def table_ok_def in_nsp_def)
  then show ?thesis
    using s'(1,2) apply_sends [of t "br_namespace b" "br_opts b"] assms(7,8) room
    by (auto simp: same frames_def conn_def)
qed

theorem broadcast_delivers_witness:
  "\<exists>s'. op_Emit sample_outside (\<lambda>_. DoFails) 7 5 (op_Local (nsp_To ''/'' [''r''])) ''hi'' [AnyOther ''1''] two_clients = Inr s'
    \<and> outbox (conn_at s' 0) = [] \<and> outbox (conn_at s' 1) = [newEngineMessageFrame ([CHR ''2'', CHR ''['', CHR 0x22] @ ''hi'' @ [CHR 0x22] @ '',1]'')]"
proof -
  let ?b = "op_Local (nsp_To ''/'' [''r''])" and ?e = "\<lparr>ea_json = Some [''1''], ea_binary = None\<rparr>"
  have b: "br_namespace ?b = ''/''" "br_opts ?b = \<lparr>bo_Rooms = [''r''], bo_Except = [], bo_Local = True\<rparr>"
    by (simp_all add: op_Local_def nsp_To_def op_To_def newBroadcastOperator_def no_options_def)
  have packet: "appendEventEncoded (x_isprint sample_outside) [] ''/'' 0 False ''hi'' ?e
      = [CHR ''2'', CHR ''['', CHR 0x22] @ ''hi'' @ [CHR 0x22] @ '',1]''" by code_simp
  have enc: "encodeAnyArgs (x_valid sample_outside) (x_marshal sample_outside) [AnyOther ''1''] = Inr ?e" by code_simp
  have room: "has_room n (conn_at two_clients (so_conn (socket_at two_clients 1)))" for n
    by (simp add: has_room_def sample_conn_def newEngineConn_def sample_socket_def newServerSocket_def)
  have "\<exists>s'. op_Emit sample_outside (\<lambda>_. DoFails) 7 5 ?b ''hi'' [AnyOther ''1''] two_clients = Inr s'
    \<and> (\<forall>c. outbox (conn_at s' c) = outbox (conn_at two_clients c) @ (if \<exists>k. k = 1 \<and> so_conn (socket_at two_clients k) = c
         then payload_frames (appendEventEncoded (x_isprint sample_outside) [] ''/'' 0 False ''hi'' ?e) (BinaryViews ?e) else []))"
    using broadcast_delivers [of two_clients "[AnyOther ''1'']" sample_outside 7 ?e ?b "''hi''" "\<lambda>_. DoFails" 5,
        unfolded b two_clients_sel sample_selected] enc room
    by (simp add: two_clients_consistent split_last_func.simps)
  then obtain s' where s': "op_Emit sample_outside (\<lambda>_. DoFails) 7 5 ?b ''hi'' [AnyOther ''1''] two_clients = Inr s'"
    "\<And>c. outbox (conn_at s' c) = outbox (conn_at two_clients c) @ (if \<exists>k. k = 1 \<and> so_conn (socket_at two_clients k) = c
       then payload_frames (appendEventEncoded (x_isprint sample_outside) [] ''/'' 0 False ''hi'' ?e) (BinaryViews ?e) else [])" by blast
  show ?thesis
    using s'(1) s'(2) [of 0] s'(2) [of 1] by (simp add: packet payload_frames_def BinaryViews_def sample_socket_def newServerSocket_def)
qed

end
