(* ===== verification/Incoming.thy ===== *)
theory Incoming
  imports Scenarios
begin

text \<open>
  What arrives on a connection: the frames of one message handed to the handlers one after the other, whichever transport
  carries them.
\<close>

section \<open>Frames\<close>

text \<open>The case distinction of \<^verbatim>\<open>readLoop\<close>: a binary message is an attachment, a text message an Engine.IO packet.\<close>

definition handle_frame ::
    "('ty, 'v) turn \<Rightarrow> connref \<Rightarrow> engineFrame \<Rightarrow> ('ty, 'v) Server \<Rightarrow> sio_error option \<times> ('ty, 'v) Server" where
  "handle_frame cx c f s =
     (if ef_binary f then handleBinaryAttachment cx c (ef_data f) s else handleEnginePacket cx c (ef_data f) s)"

fun handle_frames ::
    "('ty, 'v) turn \<Rightarrow> connref \<Rightarrow> engineFrame list \<Rightarrow> ('ty, 'v) Server \<Rightarrow> sio_error option \<times> ('ty, 'v) Server" where
  "handle_frames cx c [] s = (None, s)"
| "handle_frames cx c (f # fs) s =
     (case handle_frame cx c f s of (Some err, s1) \<Rightarrow> (Some err, s1) | (None, s1) \<Rightarrow> handle_frames cx c fs s1)"

lemma handle_frames_single: "handle_frames cx c [f] s = handle_frame cx c f s"
  by (simp split: prod.split option.split)

definition pollable :: "engineFrame \<Rightarrow> bool" where
  "pollable f \<longleftrightarrow> ef_binary f \<or> (ef_data f \<noteq> [] \<and> CHR 0x1E \<notin> set (ef_data f) \<and> hd (ef_data f) \<noteq> CHR ''b'')"

lemma pollable_text: "pollable f \<Longrightarrow> CHR 0x1E \<notin> set (frame_text f) \<and> frame_text f \<noteq> []"
  by (auto simp: pollable_def frame_text_def dest: b64_encode_clean)

lemma handle_part_frame: "pollable f \<Longrightarrow> handle_part cx c (frame_text f) s = handle_frame cx c f s"
  by (auto simp: handle_part_def frame_text_def handle_frame_def pollable_def b64_roundtrip hd_conv_nth)

lemma handlePayload_frames:
  "\<forall>f \<in> set fs. pollable f \<Longrightarrow> handlePayload cx c (writePollingFrames fs) s = handle_frames cx c fs s"
proof (induction fs arbitrary: s rule: writePollingFrames.induct)
  case 1
  show ?case by (simp add: handlePayload.simps)
next
  case (2 f)
  then have "index_byte (CHR 0x1E) (frame_text f) = None" "frame_text f \<noteq> []" using pollable_text by (auto simp: index_byte_None)
  then show ?case
    using 2 by (subst handlePayload.simps) (auto simp: handle_part_frame handlePayload.simps [of _ _ "[]"] split: prod.split option.split)
next
  case (3 f g fs)
  have "index_byte (CHR 0x1E) (frame_text f @ [CHR 0x1E] @ writePollingFrames (g # fs)) = Some (length (frame_text f))"
    using "3.prems" pollable_text [of f] by (simp add: index_byte_split)
  then show ?case
    using 3 by (subst handlePayload.simps) (auto simp: handle_part_frame split: prod.split option.split)
qed

section \<open>Binary packets\<close>

definition waiting :: "connref \<Rightarrow> PacketView \<Rightarrow> bytes list \<Rightarrow> metricsRecorder \<Rightarrow> ('ty, 'v) Server \<Rightarrow> ('ty, 'v) Server" where
  "waiting c p got m s =
     s\<lparr>sv_metrics := m, sv_connHeap := (sv_connHeap s)[c := (conn_at s c)\<lparr>ec_pendingBinary := Some \<lparr>pb_packet = p, pb_binary = got\<rparr>\<rparr>]\<rparr>"

lemma attachments_collected:
  assumes "c < length (sv_connHeap s)" "ec_pendingBinary (conn_at s c) = None" "pv_Attachments p = int (length got + length atts)" "atts \<noteq> []"
  shows "\<exists>m'. handle_frames cx c (map newEngineBinaryFrame atts) (waiting c p got m s)
    = handleParsedSocketPacket cx c (p\<lparr>pv_Binary := got @ atts\<rparr>) (s\<lparr>sv_metrics := m'\<rparr>)"
  using assms
proof (induction atts arbitrary: got m)
  case (Cons a atts)
  have old: "(conn_at s c)\<lparr>ec_pendingBinary := None\<rparr> = conn_at s c" using Cons.prems(2) by simp
  show ?case
  proof (cases "atts = []")
    case True
    have "handleBinaryAttachment cx c a (waiting c p got m s)
        = handleParsedSocketPacket cx c (p\<lparr>pv_Binary := got @ [a]\<rparr>) (s\<lparr>sv_metrics := m\<lparr>me_binaryIn := me_binaryIn m + 1\<rparr>\<rparr>)"
      using Cons.prems True by (simp add: handleBinaryAttachment_def waiting_def upd_conn_def upd_metrics_def old)
    then show ?thesis using True
      by (simp add: handle_frames_single handle_frame_def newEngineBinaryFrame_def del: handle_frames.simps) blast
  next
    case False
    have "handleBinaryAttachment cx c a (waiting c p got m s)
        = (None, waiting c p (got @ [a]) (m\<lparr>me_binaryIn := me_binaryIn m + 1\<rparr>) s)"
      using Cons.prems False by (simp add: handleBinaryAttachment_def waiting_def upd_conn_def upd_metrics_def)
    then show ?thesis
      using Cons.IH [of "got @ [a]"] Cons.prems False by (simp add: handle_frame_def newEngineBinaryFrame_def)
  qed
qed simp

lemma packet_collected:
  assumes "c < length (sv_connHeap s)" "ec_pendingBinary (conn_at s c) = None"
    and "ParsePacketView data = Inr p" "pv_Attachments p = int (length atts)"
  shows "\<exists>m. handle_frames cx c (payload_frames data atts) s
    = handleParsedSocketPacket cx c (if atts = [] then p else p\<lparr>pv_Binary := atts\<rparr>) (s\<lparr>sv_metrics := m\<rparr>)"
proof -
  let ?m = "(sv_metrics s)\<lparr>me_packetsIn := add_at (type_code (pv_Type p)) (me_packetsIn (sv_metrics s)),
      me_packetBytesIn := me_packetBytesIn (sv_metrics s) + of_nat (length data)\<rparr>"
  show ?thesis
  proof (cases "atts = []")
    case True
    have "handleSocketPacket cx c data s = handleParsedSocketPacket cx c p (s\<lparr>sv_metrics := ?m\<rparr>)"
      using assms(3,4) True by (simp add: handleSocketPacket_def Let_def upd_metrics_def)
    then show ?thesis
      using True
      by (simp add: payload_frames_def handle_frames_single handle_frame_def newEngineMessageFrame_def handleEnginePacket_def del: handle_frames.simps) blast
  next
    case False
    have "handleSocketPacket cx c data s = (None, waiting c p [] ?m s)"
      using assms False by (simp add: handleSocketPacket_def Let_def upd_metrics_def upd_conn_def waiting_def)
    then show ?thesis
      using attachments_collected [OF assms(1,2), of p "[]" atts cx ?m] assms(4) False
      by (simp add: payload_frames_def handle_frame_def newEngineMessageFrame_def handleEnginePacket_def)
  qed
qed

section \<open>Properties\<close>

text \<open>
  (C37) The frames of a polling response, sent back as one payload, are handled one after the other as if each had arrived
  as a message of its own, up to the first error: joining frames with separators and base64 loses nothing. Text frames must
  not be empty, begin with the letter that marks binary ones, or contain the separator.
\<close>

theorem polling_framing_roundtrip:
  assumes "\<forall>f \<in> set fs. ef_binary f \<or> (ef_data f \<noteq> [] \<and> CHR 0x1E \<notin> set (ef_data f) \<and> hd (ef_data f) \<noteq> CHR ''b'')"
  shows "handlePayload cx c (writePollingFrames fs) s = handle_frames cx c fs s"
  using assms handlePayload_frames [of fs cx c s] by (simp add: pollable_def)

theorem polling_framing_roundtrip_witness:
  "handlePayload (turn_of sample_world) 0 (writePollingFrames [newEngineTextFrame ''3'', newEngineBinaryFrame [CHR 0x1E, CHR ''b'']]) two_clients
     = (Some (UnexpectedAttachment ''c0''), two_clients)"
proof -
  let ?fs = "[newEngineTextFrame ''3'', newEngineBinaryFrame [CHR 0x1E, CHR ''b'']]"
  have "handlePayload (turn_of sample_world) 0 (writePollingFrames ?fs) two_clients = handle_frames (turn_of sample_world) 0 ?fs two_clients"
    by (rule polling_framing_roundtrip) (simp add: newEngineTextFrame_def newEngineBinaryFrame_def)
  then show ?thesis
    by (simp add: handle_frame_def newEngineTextFrame_def newEngineBinaryFrame_def handleEnginePacket_def handleBinaryAttachment_def
        sample_conn_def newEngineConn_def)
qed

text \<open>
  (C11) A packet that announces attachments is handled once its last attachment has arrived, with exactly the attachments
  that came after it, in order; nothing but counters has changed until then. A packet without attachments is handled at once.
\<close>

theorem binary_packet_reassembled:
  assumes "c < length (sv_connHeap s)" "ec_pendingBinary (conn_at s c) = None"
    and "ParsePacketView data = Inr p" "pv_Attachments p = int (length atts)"
  shows "\<exists>m. handle_frames cx c (newEngineMessageFrame data # map newEngineBinaryFrame atts) s
    = handleParsedSocketPacket cx c (if atts = [] then p else p\<lparr>pv_Binary := atts\<rparr>) (s\<lparr>sv_metrics := m\<rparr>)"
  using packet_collected [OF assms] by (simp add: payload_frames_def)

definition sample_binary :: bytes where
  "sample_binary = ''51-/x,['' @ [CHR 0x22, CHR ''e'', CHR 0x22] @ '']''"

theorem binary_packet_reassembled_witness:
  "\<exists>m. handle_frames (turn_of sample_world) 0 [newEngineMessageFrame sample_binary, newEngineBinaryFrame ''z''] two_clients
     = (Some (NamespaceNotConnected ''/x'' ''c0''), two_clients\<lparr>sv_metrics := m\<rparr>)"
proof -
  obtain p where p: "ParsePacketView sample_binary = Inr p" "pv_Attachments p = 1" "pv_Namespace p = ''/x''" "pv_Type p = PacketBinaryEvent"
  proof -
    have "\<exists>p. ParsePacketView sample_binary = Inr p \<and> pv_Attachments p = 1 \<and> pv_Namespace p = ''/x'' \<and> pv_Type p = PacketBinaryEvent"
    proof -
      have "(case ParsePacketView sample_binary of Inr p \<Rightarrow> pv_Attachments p = 1 \<and> pv_Namespace p = ''/x'' \<and> pv_Type p = PacketBinaryEvent
         | Inl _ \<Rightarrow> False)" by code_simp
      then show ?thesis by (auto split: sum.splits)
    qed
    then show ?thesis using that by blast
  qed
  obtain m where "handle_frames (turn_of sample_world) 0 (newEngineMessageFrame sample_binary # map newEngineBinaryFrame [''z'']) two_clients
      = handleParsedSocketPacket (turn_of sample_world) 0 (p\<lparr>pv_Binary := [''z'']\<rparr>) (two_clients\<lparr>sv_metrics := m\<rparr>)"
    using binary_packet_reassembled [of 0 two_clients sample_binary p "[''z'']" "turn_of sample_world"] p(1,2)
    by (auto simp: sample_conn_def newEngineConn_def)
  moreover have "handleParsedSocketPacket (turn_of sample_world) 0 (p\<lparr>pv_Binary := [''z'']\<rparr>) (two_clients\<lparr>sv_metrics := m\<rparr>)
      = (Some (NamespaceNotConnected ''/x'' ''c0''), two_clients\<lparr>sv_metrics := m\<rparr>)"
    using p(3,4) by (simp add: handleParsedSocketPacket_def sample_conn_def newEngineConn_def)
  ultimately show ?thesis by auto
qed

end
