(* ===== verification/Peers.thy ===== *)
theory Peers
  imports Scenarios
begin

text \<open>
  What one node asks for is what another node does: the requests that \<^verbatim>\<open>postToPeers\<close> posts, served by
  \<^verbatim>\<open>clusterNode.serveHTTP\<close> of another node.
\<close>

section \<open>Requests as the peer reads them\<close>

definition http_of :: "bytes \<Rightarrow> clusterRequest \<Rightarrow> httpRequest" where
  "http_of path r = \<lparr>rq_method = ''POST'', rq_path = path, rq_query = cq_query r, rq_secret = cq_secret r, rq_origin = cq_origin r,
     rq_body = Some (cq_body r)\<rparr>"

lemma q_all_Add: "q_all (q_Add k q v) k' = q_all q k' @ (if k' = k then [v] else [])"
  by (simp add: q_all_def q_Add_def AList.update_conv')

lemma q_all_Adds: "q_all (foldl (q_Add k) q vs) k' = q_all q k' @ (if k' = k then vs else [])"
  by (induction vs arbitrary: q) (simp_all add: q_all_Add)

lemma q_all_extras:
  "distinct (map fst extra) \<Longrightarrow> q_all (foldl (\<lambda>q (k, vs). foldl (q_Add k) q vs) q extra) k' = q_all q k' @ q_all extra k'"
proof (induction extra arbitrary: q)
  case (Cons e extra)
  obtain k vs where e: "e = (k, vs)" by fastforce
  then have "k' = k \<Longrightarrow> q_all extra k' = []" using Cons.prems by (auto simp: q_all_def rev_image_eqI split: option.split dest!: map_of_SomeD)
  then show ?case using Cons e by (simp add: q_all_Adds) (simp add: q_all_def)
qed (simp add: q_all_def)

lemma q_all_Set: "q_all (q_Set q k v) k' = (if k' = k then [v] else q_all q k')"
  by (simp add: q_all_def q_Set_def AList.update_conv')

lemma q_all_peer_query:
  assumes "distinct (map fst extra)"
  shows "q_all (peer_query op name opts extra) k =
    (if k = ''op'' then [op] else if k = ''nsp'' then [name] else if k = ''room'' then bo_Rooms opts
     else if k = ''except'' then bo_Except opts else []) @ q_all extra k"
proof -
  have "q_all [] k = []" by (simp add: q_all_def)
  then show ?thesis using assms unfolding peer_query_def Let_def by (simp add: q_all_extras q_all_Adds q_all_Set)
qed

lemma valuesToRooms_id: "valuesToRooms vs = vs"
proof -
  have "foldl (\<lambda>rooms v. rooms @ [v]) acc vs = acc @ vs" for acc by (induction vs arbitrary: acc) simp_all
  then show ?thesis by (simp add: valuesToRooms_def)
qed


section \<open>Serving a peer\<close>

definition trusts :: "clusterNode \<Rightarrow> clusterNode \<Rightarrow> bool" where
  "trusts b a \<longleftrightarrow> (cn_secret b = [] \<or> cn_secret a = cn_secret b) \<and> cn_nodeID a \<noteq> cn_nodeID b"

definition counted :: "('ty, 'v) Server \<Rightarrow> ('ty, 'v) Server" where
  "counted s = upd_metrics (\<lambda>m. m\<lparr>me_clusterRequestsReceived := me_clusterRequestsReceived m + 1\<rparr>) s"

lemma counted_namespaces [simp]: "sv_namespaces (counted s) = sv_namespaces s"
  by (simp add: counted_def upd_metrics_def)

text \<open>A request of a trusted node for a namespace that exists reaches the operation it names, with the rooms it was given.\<close>

lemma serve_trusted:
  fixes body opts peer op path
  assumes "trusts b a" "map_of (sv_namespaces s) name \<noteq> None" "name \<noteq> []" "distinct (map fst extra)" "q_all extra ''op'' = []" "q_all extra ''nsp'' = []"
  defines "r \<equiv> http_of path (cluster_request a op peer (peer_query op name opts extra) body)"
  shows "cluster_serveHTTP limit x now written b r s = cluster_op limit x now written b name r (counted s)"
    and "q_Get (rq_query r) ''op'' = op" "q_all (rq_query r) ''room'' = bo_Rooms opts @ q_all extra ''room''"
    and "q_all (rq_query r) ''except'' = bo_Except opts @ q_all extra ''except''"
proof -
  have query: "q_all (rq_query r) k = q_all (peer_query op name opts extra) k" for k by (simp add: r_def http_of_def cluster_request_def)
  have nsp: "q_Get (rq_query r) ''nsp'' = name" using assms(4,6) by (simp add: q_Get_def query q_all_peer_query)
  have "getNamespace name (counted s) = (Some name, counted s)" using assms(2,3) by (simp add: getNamespace_def)
  moreover have "validSecret b (rq_secret r)" "rq_origin r \<noteq> cn_nodeID b" "rq_method r = ''POST''"
    using assms(1) by (auto simp: trusts_def validSecret_def r_def http_of_def cluster_request_def)
  ultimately show "cluster_serveHTTP limit x now written b r s = cluster_op limit x now written b name r (counted s)"
    using assms(3) by (simp add: cluster_serveHTTP_def nsp counted_def [symmetric])
  show "q_Get (rq_query r) ''op'' = op" using assms(4,5) by (simp add: q_Get_def query q_all_peer_query)
  show "q_all (rq_query r) ''room'' = bo_Rooms opts @ q_all extra ''room''"
    "q_all (rq_query r) ''except'' = bo_Except opts @ q_all extra ''except''"
    using assms(4) by (simp_all add: query q_all_peer_query)
qed


lemma http_body [simp]: "rq_body (http_of path (cluster_request a op peer q body)) = Some body"
  by (simp add: http_of_def cluster_request_def)

lemma targets:
  "distinct (map fst (foldl (q_Add ''target'') [] rooms))" "q_all (foldl (q_Add ''target'') [] rooms) k = (if k = ''target'' then rooms else [])"
proof -
  have "distinct (map fst q) \<Longrightarrow> distinct (map fst (foldl (q_Add ''target'') q rooms))" for q
    by (induction rooms arbitrary: q) (simp_all add: q_Add_def AList.distinct_update)
  then show "distinct (map fst (foldl (q_Add ''target'') [] rooms))" by simp
  have "q_all [] k = []" by (simp add: q_all_def)
  then show "q_all (foldl (q_Add ''target'') [] rooms) k = (if k = ''target'' then rooms else [])"
    by (simp add: q_all_Adds)
qed

lemma serve_target_op:
  fixes opts peer op path rooms
  assumes "trusts b a" "map_of (sv_namespaces s) name \<noteq> None" "name \<noteq> []" "op = ''join'' \<or> op = ''leave''"
  defines "r \<equiv> http_of path (cluster_request a op peer (peer_query op name opts (foldl (q_Add ''target'') [] rooms)) [])"
  defines "here \<equiv> \<lparr>bo_Rooms = bo_Rooms opts, bo_Except = bo_Except opts, bo_Local = True\<rparr>"
  shows "snd (cluster_serveHTTP limit x now written b r s)
    = snd (apply_each name here (if op = ''join'' then join_each rooms else leave_each rooms) (counted s))"
proof -
  have q: "q_all (rq_query r) ''target'' = rooms"
    by (simp add: r_def http_of_def cluster_request_def q_all_peer_query targets)
  show ?thesis
    using assms(4) q unfolding r_def
    by (elim disjE) (simp_all add: serve_trusted [OF assms(1-3)] targets cluster_op_def valuesToRooms_id here_def)
qed

section \<open>Properties\<close>

text \<open>
  (C9) The operations a node posts to its peers are done there as they are done at home: a node that shares the secret applies
  a broadcast, a join, a leave or a disconnect to the sockets that the same rooms and exceptions select in its own room
  index, with the packet and the attachments it was sent; a broadcast is first added to its own recovery log.
\<close>

theorem peer_operations_mirrored:
  fixes opts :: broadcastOptions and path peer :: bytes and close :: bool and s :: "('ty, 'v) Server" and x now written
  assumes "cn_secret a = cn_secret b" "cn_nodeID a \<noteq> cn_nodeID b" "map_of (sv_namespaces s) name \<noteq> None" "name \<noteq> []"
    and "atts \<noteq> [] \<or> take (length clusterBinaryMagic) packet \<noteq> clusterBinaryMagic"
    and "sized packet" "list_all sized atts" "length atts < 2 ^ 63" "length atts \<le> max 64 limit"
  defines "here \<equiv> \<lparr>bo_Rooms = bo_Rooms opts, bo_Except = bo_Except opts, bo_Local = True\<rparr>"
  defines "serve \<equiv> (\<lambda>op extra body. snd (cluster_serveHTTP limit x now written b
      (http_of path (cluster_request a op peer (peer_query op name opts extra) body)) s))"
  shows "serve ''broadcast'' [] (encodeClusterPacket packet atts)
      = snd (apply_each name here (send_to now packet atts) (logRemoteRecoveryPacket now name here packet atts (counted s)))
    \<and> serve ''join'' (foldl (q_Add ''target'') [] rooms) [] = snd (apply_each name here (join_each rooms) (counted s))
    \<and> serve ''leave'' (foldl (q_Add ''target'') [] rooms) [] = snd (apply_each name here (leave_each rooms) (counted s))
    \<and> serve ''disconnect'' (if close then q_Set [] ''close'' ''1'' else []) []
      = snd (apply_each name here (disconnect_each now close) (counted s))"
proof -
  have trust: "trusts b a" using assms(1,2) by (simp add: trusts_def)
  let ?r = "\<lambda>op extra body. http_of path (cluster_request a op peer (peer_query op name opts extra) body)"
  have empty: "q_all [] k = []" for k by (simp add: q_all_def)
  have body: "readClusterPacket limit (Some (encodeClusterPacket packet atts)) = Inr \<lparr>cb_packet = packet, cb_attachments = atts\<rparr>"
    using assms(5-9) by (rule cluster_packet_decodes)
  have ack: "q_Get (rq_query (?r ''broadcast'' [] (encodeClusterPacket packet atts))) ''origin'' = []"
    by (simp add: http_of_def cluster_request_def q_Get_def q_all_peer_query empty)
  have "serve ''broadcast'' [] (encodeClusterPacket packet atts)
      = snd (apply_each name here (send_to now packet atts) (logRemoteRecoveryPacket now name here packet atts (counted s)))"
    using ack body
    by (simp add: serve_trusted [OF trust assms(3,4)] serve_def empty cluster_op_def valuesToRooms_id here_def serve_broadcast_def clusterPacketAttachments_def
        case_prod_unfold Let_def)
  moreover have "serve ''disconnect'' (if close then q_Set [] ''close'' ''1'' else []) []
      = snd (apply_each name here (disconnect_each now close) (counted s))"
  proof -
    let ?extra = "if close then q_Set [] ''close'' ''1'' else []"
    have extra: "distinct (map fst ?extra)" "q_all ?extra k = (if close \<and> k = ''close'' then [''1''] else [])" for k
      by (simp_all add: q_Set_def q_all_def)
    have "q_Get (rq_query (?r ''disconnect'' ?extra [])) ''close'' = ''1'' \<longleftrightarrow> close"
      by (simp add: http_of_def cluster_request_def q_Get_def q_all_peer_query extra)
    then show ?thesis
      by (simp add: serve_trusted [OF trust assms(3,4)] serve_def extra cluster_op_def valuesToRooms_id here_def)
  qed
  ultimately show ?thesis by (simp add: serve_def here_def serve_target_op [OF trust assms(3,4)])
qed


theorem peer_operations_mirrored_witness:
  "snd (cluster_serveHTTP 10 sample_outside 5 True plain_node
      (http_of [] (cluster_request (plain_node\<lparr>cn_nodeID := ''m''\<rparr>) ''broadcast'' [] (peer_query ''broadcast'' ''/'' (br_opts (nsp_To ''/'' [''r''])) [])
        (encodeClusterPacket ''2[1]'' []))) two_clients)
    = snd (apply_each ''/'' \<lparr>bo_Rooms = [''r''], bo_Except = [], bo_Local = True\<rparr> (send_to 5 ''2[1]'' [])
        (logRemoteRecoveryPacket 5 ''/'' \<lparr>bo_Rooms = [''r''], bo_Except = [], bo_Local = True\<rparr> ''2[1]'' [] (counted two_clients)))"
proof -
  have nsp: "map_of (sv_namespaces two_clients) ''/'' \<noteq> None" by (simp add: two_clients_def)
  have opts: "br_opts (nsp_To ''/'' [''r'']) = \<lparr>bo_Rooms = [''r''], bo_Except = [], bo_Local = False\<rparr>"
    by (simp add: nsp_To_def op_To_def newBroadcastOperator_def no_options_def)
  show ?thesis
    using peer_operations_mirrored [of "plain_node\<lparr>cn_nodeID := ''m''\<rparr>" plain_node two_clients "''/''" "[]" "''2[1]''" 10 sample_outside 5 True "[]" "[]"
        "br_opts (nsp_To ''/'' [''r''])" "[]" False] nsp
    by (simp add: opts plain_node_def clusterBinaryMagic_def sized_def)
qed

section \<open>A session moves to another node\<close>

lemma recover_absent:
  assumes "map_of (st_sessions st) (recoveryKey ns pid) = None"
  shows "fst (recoverWithConsume ns pid offset now consume st) = None"
proof -
  have "map_of (st_sessions (pruneLocked now st)) (recoveryKey ns pid) = None"
    using assms by (auto simp: pruneLocked_def prune_sessions_fold map_of_eq_None_iff)
  then show ?thesis by (simp add: recoverWithConsume_def Let_def split: option.split)
qed

lemma serve_csr_found:
  assumes "sv_recovery s = Some st" "recovery_snapshot name (q_Get (rq_query r) ''pid'') (q_Get (rq_query r) ''offset'') now st = (Some (session, replay), after)"
  shows "serve_csr now True name r s =
    (\<lparr>hr_status = 200, hr_expected = None, hr_body = encodeCSRResponse session replay\<rparr>,
     s\<lparr>sv_recovery := Some (deleteSession name (q_Get (rq_query r) ''pid'') after)\<rparr>)"
  using assms by (simp add: serve_csr_def Let_def)

lemma counted_recovery [simp]: "sv_recovery (counted s) = sv_recovery s"
  by (simp add: counted_def upd_metrics_def)




section \<open>Requests that are not trusted\<close>

text \<open>
  (C16) A request that does not carry the secret of the node, or that the node sent itself, changes nothing but the counter of requests
  received; without the secret the answer is 401. A configured node always has a secret.
\<close>

theorem peer_requests_authenticated:
  assumes "cn_secret c \<noteq> []" "rq_secret r \<noteq> cn_secret c \<or> rq_origin r = cn_nodeID c"
  shows "\<exists>m. snd (cluster_serveHTTP limit x now written c r s) = s\<lparr>sv_metrics := m\<rparr>
    \<and> fst (cluster_serveHTTP limit x now written c r s) =
        status_only (if rq_method r \<noteq> ''POST'' then 405 else if rq_secret r \<noteq> cn_secret c then 401 else 204)"
proof -
  let ?m = "sv_metrics s" and ?s = "cluster_serveHTTP limit x now written c r s"
  have same: "s = s\<lparr>sv_metrics := ?m\<rparr>" by simp
  consider "rq_method r \<noteq> ''POST''" | "rq_method r = ''POST''" "rq_secret r \<noteq> cn_secret c"
    | "rq_method r = ''POST''" "rq_secret r = cn_secret c" "rq_origin r = cn_nodeID c" using assms(2) by blast
  then show ?thesis
  proof cases
    case 1
    then have "?s = (status_only 405, s)" by (simp add: cluster_serveHTTP_def)
    then show ?thesis using 1 same by (intro exI [of _ ?m]) simp
  next
    case 2
    then have "?s = (status_only 401, counted s)" using assms(1) by (simp add: cluster_serveHTTP_def validSecret_def counted_def)
    then show ?thesis using 2 by (auto simp: counted_def upd_metrics_def)
  next
    case 3
    then have "?s = (status_only 204, counted s)" using assms(1) by (simp add: cluster_serveHTTP_def validSecret_def counted_def)
    then show ?thesis using 3 by (auto simp: counted_def upd_metrics_def)
  qed
qed

theorem peer_requests_authenticated_witness:
  "\<exists>m. snd (cluster_serveHTTP 10 sample_outside 5 True plain_node (http_of [] (cluster_request (plain_node\<lparr>cn_secret := ''guess''\<rparr>) ''disconnect'' [] [] []))
      two_clients) = two_clients\<lparr>sv_metrics := m\<rparr>"
  using peer_requests_authenticated [of plain_node "http_of [] (cluster_request (plain_node\<lparr>cn_secret := ''guess''\<rparr>) ''disconnect'' [] [] [])"
      10 sample_outside 5 True two_clients]
  by (auto simp: plain_node_def http_of_def cluster_request_def)

end
