(* ===== verification/Resume.thy ===== *)
theory Resume
  imports Scenarios
begin

text \<open>
  Connecting a socket to a namespace: what a new connection and a resumed session find in the tables of the server and in
  the outgoing queue, and what a second connection to the same namespace does to the first.
\<close>

section \<open>Replaying packets\<close>

lemma has_room_pushes: "has_room (n + length fs) e \<Longrightarrow> has_room n (foldl push e fs)"
proof (induction fs arbitrary: e)
  case (Cons f fs)
  then show ?case using has_room_push [of "n + length fs" e f] by simp
qed simp

abbreviation replay_frames :: "recoveryPacket list \<Rightarrow> engineFrame list" where
  "replay_frames ps \<equiv> concat (map (\<lambda>p. payload_frames (rp_packet p) (rp_attachments p)) ps)"

lemma replay_room:
  assumes "c < length h" "has_room (length (replay_frames ps)) (h ! c)"
  shows "\<exists>m'. foldl (\<lambda>s p. sendSocketPayload now c (rp_packet p) (rp_attachments p) s) (with_conns h m s) ps
    = with_conns (h[c := foldl push (h ! c) (replay_frames ps)]) m' s"
  using assms
proof (induction ps arbitrary: h m)
  case Nil
  then show ?case by auto
next
  case (Cons p ps)
  let ?fs = "payload_frames (rp_packet p) (rp_attachments p)"
  let ?h = "h[c := foldl push (h ! c) ?fs]"
  have size: "length ?fs = Suc (length (rp_attachments p))" by (simp add: payload_frames_def)
  have "has_room (length ?fs) (h ! c)" using Cons.prems(2) by (auto simp: has_room_def)
  then obtain m1 where step: "sendSocketPayload now c (rp_packet p) (rp_attachments p) (with_conns h m s) = with_conns ?h m1 s"
    using send_room [OF Cons.prems(1)] size by metis
  have "has_room (length (replay_frames ps)) (?h ! c)"
    using has_room_pushes [of "length (replay_frames ps)" ?fs "h ! c"] Cons.prems by (simp add: add.commute)
  then show ?case using Cons.IH [of ?h m1] Cons.prems(1) step by simp
qed

section \<open>Connecting a socket\<close>

text \<open>The state before the connect packet is sent.\<close>

definition filed ::
    "bytes \<Rightarrow> sockref \<Rightarrow> resumed option \<Rightarrow> ('ty, 'v) Server \<Rightarrow> ('ty, 'v) Server" where
  "filed name k found s =
     (let c = so_conn (socket_at s k);
          s1 = (case found of None \<Rightarrow> s | Some (session, _) \<Rightarrow> upd_socket k (\<lambda>y. y\<lparr>so_recoverySession := Some session\<rparr>) s);
          s2 = upd_nsp name (\<lambda>n. n\<lparr>ns_adapter := addSocket (\<lambda>j. so_id (socket_at s1 j)) k (ns_adapter n)\<rparr>) s1;
          s3 = (case found of None \<Rightarrow> s2 | Some (session, _) \<Rightarrow>
                  upd_metrics (\<lambda>m. m\<lparr>me_socketsRecovered := me_socketsRecovered m + 1\<rparr>)
                    (upd_nsp name (\<lambda>n. n\<lparr>ns_adapter := addAllOwned (so_id (socket_at s2 k)) k (rs_rooms session) (ns_adapter n)\<rparr>) s2));
          s4 = conn_addSocket c k s3;
          s5 = upd_socket k (\<lambda>y. y\<lparr>so_connected := True\<rparr>) s4
      in upd_metrics (\<lambda>m. m\<lparr>me_socketsConnected := me_socketsConnected m + 1, me_socketsActive := me_socketsActive m + 1\<rparr>) s5)"

lemma conn_heap_addSocket [simp]:
  "sv_connHeap (conn_addSocket c k s) =
    (sv_connHeap s)[c := (conn_at s c)\<lparr>ec_socketsByNsp := AList.update (so_namespace (socket_at s k)) k (ec_socketsByNsp (conn_at s c))\<rparr>]"
  by (simp add: conn_addSocket_def upd_conn_def)

lemma socket_heap_upd [simp]: "sv_socketHeap (upd_socket k f s) = (sv_socketHeap s)[k := f (socket_at s k)]"
  by (simp add: upd_socket_def)

lemma namespaces_frame [simp]:
  "sv_namespaces (upd_socket k f s) = sv_namespaces s" "sv_namespaces (upd_metrics g s) = sv_namespaces s"
  "sv_namespaces (conn_addSocket c k s) = sv_namespaces s" "sv_namespaces (emit_out es s) = sv_namespaces s"
  by (simp_all add: upd_socket_def upd_metrics_def conn_addSocket_def upd_conn_def emit_out_def)

lemma adapter_upd_nsp:
  "map_of (sv_namespaces s) name = Some n \<Longrightarrow> adapter_of (upd_nsp name f s) name = ns_adapter (f n)"
  by (simp add: adapter_of_def upd_nsp_def alist_simps)

lemma adapter_frame [simp]:
  "adapter_of (upd_socket k f s) = adapter_of s" "adapter_of (upd_metrics g s) = adapter_of s"
  "adapter_of (conn_addSocket c k s) = adapter_of s" "adapter_of (emit_out es s) = adapter_of s"
  by (simp_all add: adapter_of_def fun_eq_iff)

lemma namespaces_upd_nsp: "map_of (sv_namespaces s) name = Some n \<Longrightarrow> map_of (sv_namespaces (upd_nsp name f s)) name = Some (f n)"
  by (simp add: upd_nsp_def alist_simps)

definition joined :: "(sockref \<Rightarrow> SocketID) \<Rightarrow> sockref \<Rightarrow> resumed option \<Rightarrow> localAdapter \<Rightarrow> localAdapter" where
  "joined ids k found a =
     (case found of None \<Rightarrow> adapter_step ids a (AddSocket k)
      | Some (session, _) \<Rightarrow> adapter_step ids (adapter_step ids a (AddSocket k)) (JoinOwned k (rs_rooms session)))"

lemma filed_effect:
  assumes "k < length (sv_socketHeap s)" "so_namespace (socket_at s k) = name" "map_of (sv_namespaces s) name = Some n"
  shows "sv_connHeap (filed name k found s) =
      (sv_connHeap s)[so_conn (socket_at s k) := (conn_at s (so_conn (socket_at s k)))
        \<lparr>ec_socketsByNsp := AList.update name k (ec_socketsByNsp (conn_at s (so_conn (socket_at s k))))\<rparr>]"
    and "sv_socketHeap (filed name k found s) = (sv_socketHeap s)[k := (socket_at s k)
        \<lparr>so_recoverySession := (case found of None \<Rightarrow> so_recoverySession (socket_at s k) | Some (session, _) \<Rightarrow> Some session), so_connected := True\<rparr>]"
    and "\<exists>n'. map_of (sv_namespaces (filed name k found s)) name = Some n' \<and> ns_adapter n' = joined (sids s) k found (ns_adapter n)"
proof -
  have ids: "(\<lambda>j. so_id ((sv_socketHeap s)[k := (socket_at s k)\<lparr>so_recoverySession := Some session\<rparr>] ! j)) = sids s" for session
    by (rule ext, rule list_update_field [of so_id "\<lambda>y. y\<lparr>so_recoverySession := Some session\<rparr>"]) simp
  show "sv_connHeap (filed name k found s) =
      (sv_connHeap s)[so_conn (socket_at s k) := (conn_at s (so_conn (socket_at s k)))
        \<lparr>ec_socketsByNsp := AList.update name k (ec_socketsByNsp (conn_at s (so_conn (socket_at s k))))\<rparr>]"
    "sv_socketHeap (filed name k found s) = (sv_socketHeap s)[k := (socket_at s k)
        \<lparr>so_recoverySession := (case found of None \<Rightarrow> so_recoverySession (socket_at s k) | Some (session, _) \<Rightarrow> Some session), so_connected := True\<rparr>]"
    using assms by (auto simp: filed_def Let_def split: option.split prod.split)
  show "\<exists>n'. map_of (sv_namespaces (filed name k found s)) name = Some n' \<and> ns_adapter n' = joined (sids s) k found (ns_adapter n)"
    using assms by (auto simp: filed_def Let_def joined_def namespaces_upd_nsp ids split: option.split prod.split)
qed


text \<open>Connecting files the socket, sends the connect packet, runs the connection handlers and sends the missed packets.\<close>

lemma connect_effect:
  fixes now :: time
  assumes k: "k < length (sv_socketHeap s)" "so_namespace (socket_at s k) = name" and n: "map_of (sv_namespaces s) name = Some n"
    and c: "so_conn (socket_at s k) = c" "c < length (sv_connHeap s)"
    and room: "has_room (Suc (length (replay_frames (case found of None \<Rightarrow> [] | Some (_, replay) \<Rightarrow> replay)))) (conn_at s c)"
  defines "s' \<equiv> connect_socket now name k found s"
  shows "\<exists>n'. map_of (sv_namespaces s') name = Some n' \<and> ns_adapter n' = joined (sids s) k found (ns_adapter n)"
    and "sv_socketHeap s' = sv_socketHeap (filed name k found s)"
    and "ec_socketsByNsp (conn_at s' c) = AList.update name k (ec_socketsByNsp (conn_at s c))"
    and "length (sv_connHeap s') = length (sv_connHeap s)"
    and "outbox (conn_at s' c) = outbox (conn_at s c)
      @ newEngineMessageFrame (appendConnectPacketString [] name (so_id (socket_at s k)) (so_pid (socket_at s k)))
        # replay_frames (case found of None \<Rightarrow> [] | Some (_, replay) \<Rightarrow> replay)"
proof -
  let ?f = "filed name k found s" and ?replay = "case found of None \<Rightarrow> [] | Some (_, replay) \<Rightarrow> replay"
  let ?packet = "appendConnectPacketString [] name (so_id (socket_at s k)) (so_pid (socket_at s k))"
  let ?e = "(conn_at s c)\<lparr>ec_socketsByNsp := AList.update name k (ec_socketsByNsp (conn_at s c))\<rparr>"
  note effect = filed_effect [OF k n, of found, unfolded c(1)]
  obtain n1 where n1: "map_of (sv_namespaces ?f) name = Some n1" "ns_adapter n1 = joined (sids s) k found (ns_adapter n)"
    using effect(3) by blast
  have room_e: "has_room (Suc (length (replay_frames ?replay))) ?e" using room by (simp add: has_room_def)
  have socket: "so_conn (socket_at ?f k) = c" "so_namespace (socket_at ?f k) = name" "so_id (socket_at ?f k) = so_id (socket_at s k)"
    "so_pid (socket_at ?f k) = so_pid (socket_at s k)" using k c by (simp_all add: effect(2))
  have "has_room (Suc (length [])) ((sv_connHeap s)[c := ?e] ! c)" using room_e c(2) by (auto simp: has_room_def)
  then obtain m1 where sent: "sendConnect now k ?f = with_conns ((sv_connHeap s)[c := push ?e (newEngineMessageFrame ?packet)]) m1 ?f"
    using send_room [of c "(sv_connHeap s)[c := ?e]" "[]" now ?packet "sv_metrics ?f" ?f] c(2) with_conns_same [of ?f]
    by (auto simp: sendConnect_def sendSocketPacket_def socket effect(1) payload_frames_def)
  obtain fs store where cb: "callbacks_forEach (ns_connections n1) = (fs, store)" by fastforce
  define g where "g = emit_out (map (\<lambda>f. CalledConnection f k) fs) (upd_nsp name (\<lambda>n. n\<lparr>ns_connections := store\<rparr>) (sendConnect now k ?f))"
  have g: "sv_connHeap g = (sv_connHeap s)[c := push ?e (newEngineMessageFrame ?packet)]" "sv_socketHeap g = sv_socketHeap ?f"
    "map_of (sv_namespaces g) name = Some (n1\<lparr>ns_connections := store\<rparr>)"
    by (simp_all add: g_def sent namespaces_upd_nsp n1(1))
  have nsent: "map_of (sv_namespaces (sendConnect now k ?f)) name = Some n1" by (simp add: sent n1(1))
  have "s' = foldl (\<lambda>s p. sendSocketPayload now c (rp_packet p) (rp_attachments p) s) g ?replay"
    unfolding s'_def connect_socket_def filed_def [symmetric, unfolded Let_def] Let_def
    using cb c(1) nsent by (cases found) (auto simp: g_def split: prod.split)
  moreover have "has_room (length (replay_frames ?replay)) (sv_connHeap g ! c)"
    using has_room_push [OF room_e] c(2) by (simp add: g(1))
  then obtain m2 where "foldl (\<lambda>s p. sendSocketPayload now c (rp_packet p) (rp_attachments p) s) g ?replay
      = with_conns ((sv_connHeap g)[c := foldl push (sv_connHeap g ! c) (replay_frames ?replay)]) m2 g"
    using replay_room [of c "sv_connHeap g" ?replay now "sv_metrics g" g] c(2) with_conns_same [of g] g(1) by auto
  ultimately have s': "s' = with_conns ((sv_connHeap g)[c := foldl push (sv_connHeap g ! c) (replay_frames ?replay)]) m2 g" by simp
  show "\<exists>n'. map_of (sv_namespaces s') name = Some n' \<and> ns_adapter n' = joined (sids s) k found (ns_adapter n)"
    using g(3) n1(2) by (simp add: s')
  show "sv_socketHeap s' = sv_socketHeap ?f" by (simp add: s' g(2))
  show "ec_socketsByNsp (conn_at s' c) = AList.update name k (ec_socketsByNsp (conn_at s c))" "length (sv_connHeap s') = length (sv_connHeap s)"
    using c(2) by (simp_all add: s' g(1))
  show "outbox (conn_at s' c) = outbox (conn_at s c) @ newEngineMessageFrame ?packet # replay_frames ?replay"
    using c(2) by (simp add: s' g(1)) (simp add: outbox_def)
qed


section \<open>Resuming a session\<close>

lemma find_session_found:
  assumes "sv_recovery s = Some r" "auth \<noteq> []" "x_recoveryAuth x auth = (pid, offset)" "pid \<noteq> []" "offset \<noteq> []"
    and "recovery_recover name pid offset now r = (Some found, r')"
  shows "find_session csr x name auth now s = (Some found, s\<lparr>sv_recovery := Some r'\<rparr>)"
  using assms by (simp add: find_session_def)

text \<open>The new socket, and the state with it: \<open>nsp_add\<close> connects it when no middleware objects.\<close>

definition allocated :: "bytes \<Rightarrow> connref \<Rightarrow> SocketID \<Rightarrow> bytes \<Rightarrow> bool \<Rightarrow> ('ty, 'v) Server \<Rightarrow> ('ty, 'v) Server" where
  "allocated name c sid pid recovered s =
     s\<lparr>sv_socketHeap := sv_socketHeap s @ [(newServerSocket c name sid)\<lparr>so_pid := pid, so_recovered := recovered\<rparr>]\<rparr>"

lemma allocated_consistent:
  assumes "consistent s" "c < length (sv_connHeap s)"
  shows "rooms_good (allocated name c sid pid recovered s)"
proof -
  have "server_ok 0 (length (sv_connHeap s)) 0 s" using assms(1) by (simp add: consistent_def ok_raise_conns)
  then have "server_ok 0 (length (sv_connHeap s)) (Suc (length (sv_socketHeap s))) (allocated name c sid pid recovered s)"
    unfolding allocated_def by (rule ok_new_socket [OF _ assms(2)]) (simp_all add: newServerSocket_def)
  then show ?thesis by (simp add: server_ok_def)
qed

lemma allocated_sel [simp]:
  "sv_connHeap (allocated name c sid pid recovered s) = sv_connHeap s" "sv_namespaces (allocated name c sid pid recovered s) = sv_namespaces s"
  "length (sv_socketHeap (allocated name c sid pid recovered s)) = Suc (length (sv_socketHeap s))"
  "socket_at (allocated name c sid pid recovered s) (length (sv_socketHeap s)) = (newServerSocket c name sid)\<lparr>so_pid := pid, so_recovered := recovered\<rparr>"
  by (simp_all add: allocated_def)

lemma joined_memb:
  assumes "adapter_inv ids a"
  shows "memb (joined ids k found a) r (ids k) =
    (if r = ids k \<or> (case found of None \<Rightarrow> False | Some (session, _) \<Rightarrow> r \<in> set (rs_rooms session)) then Some k else memb a r (ids k))"
proof (cases found)
  case (Some f)
  obtain session replay where "f = (session, replay)" by fastforce
  then show ?thesis using Some assms adapter_step_memb [OF assms, of "AddSocket k"]
      adapter_step_memb [OF adapter_step_inv [OF assms, of "AddSocket k"], of "JoinOwned k (rs_rooms session)"]
    by (simp add: joined_def)
qed (use adapter_step_memb [OF assms, of "AddSocket k"] in \<open>simp add: joined_def\<close>)

text \<open>
  (C8) A client that reconnects with the id and the offset of a session the node still has gets it back: a socket with the
  same ids, marked as recovered, in all the rooms of the session; the connect packet is sent first and then the packets the
  client missed, in order, with their attachments.
\<close>

theorem session_resumed:
  fixes s :: "('ty, 'v) Server"
  assumes "consistent s" "c < length (sv_connHeap s)" "map_of (sv_namespaces s) name = Some n"
    and "sv_recoverySkipMiddlewares s \<or> ns_middlewares n = []"
    and "sv_recovery s = Some r" "auth \<noteq> []" "x_recoveryAuth x auth = (pid, offset)" "pid \<noteq> []" "offset \<noteq> []"
    and "recovery_recover name pid offset now r = (Some (session, replay), r')"
    and "has_room (Suc (length (concat (map (\<lambda>p. payload_frames (rp_packet p) (rp_attachments p)) replay)))) (conn_at s c)"
  shows "\<exists>k s'. nsp_add csr x rnda rndb name c auth (Some now) clock s = (Inr k, s')
    \<and> so_id (socket_at s' k) = rs_sid session \<and> so_pid (socket_at s' k) = rs_pid session
    \<and> so_recovered (socket_at s' k) \<and> so_connected (socket_at s' k) \<and> map_of (ec_socketsByNsp (conn_at s' c)) name = Some k
    \<and> insert (rs_sid session) (set (rs_rooms session)) \<subseteq> {room. memb (adapter_of s' name) room (rs_sid session) = Some k}
    \<and> outbox (conn_at s' c) = outbox (conn_at s c)
        @ newEngineMessageFrame (appendConnectPacketString [] name (rs_sid session) (rs_pid session))
        # concat (map (\<lambda>p. payload_frames (rp_packet p) (rp_attachments p)) replay)"
proof -
  let ?k = "length (sv_socketHeap s)" and ?found = "Some (session, replay)"
  define t where "t = allocated name c (rs_sid session) (rs_pid session) True (snd (ids_next rndb (s\<lparr>sv_recovery := Some r'\<rparr>)))"
  have heaps: "sv_socketHeap (snd (ids_next rndb (s\<lparr>sv_recovery := Some r'\<rparr>))) = sv_socketHeap s"
    "sv_connHeap t = sv_connHeap s" "sv_namespaces t = sv_namespaces s" "length (sv_socketHeap t) = Suc ?k"
    by (simp_all add: t_def ids_next_def Let_def)
  have y: "socket_at t ?k = (newServerSocket c name (rs_sid session))\<lparr>so_pid := rs_pid session, so_recovered := True\<rparr>"
    using allocated_sel(4) [of name c "rs_sid session" "rs_pid session" True "snd (ids_next rndb (s\<lparr>sv_recovery := Some r'\<rparr>))"]
    by (simp add: t_def heaps(1))
  have add: "nsp_add csr x rnda rndb name c auth (Some now) clock s = (Inr ?k, connect_socket clock name ?k ?found t)"
    using assms(3,4) unfolding nsp_add_def
    by (auto simp: find_session_found [OF assms(5-10)] Let_def t_def allocated_def ids_next_def)
  have "consistent (snd (ids_next rndb (s\<lparr>sv_recovery := Some r'\<rparr>)))"
    using assms(1) by (simp add: consistent_def ok_ids_next ok_fields)
  then have "rooms_good t" unfolding t_def by (rule allocated_consistent) (use assms(2) in \<open>simp add: ids_next_def Let_def\<close>)
  then have inv: "adapter_inv (sids t) (ns_adapter n)" using assms(3) heaps(3) by (auto simp: rooms_good_def adapter_good_def)
  let ?s = "connect_socket clock name ?k ?found t"
  have k: "?k < length (sv_socketHeap t)" "so_namespace (socket_at t ?k) = name" "so_conn (socket_at t ?k) = c"
    "so_id (socket_at t ?k) = rs_sid session" "so_pid (socket_at t ?k) = rs_pid session"
    by (simp_all add: y heaps newServerSocket_def)
  have "map_of (sv_namespaces t) name = Some n" "c < length (sv_connHeap t)" using assms(2,3) heaps by simp_all
  note effect = connect_effect [OF k(1,2) this(1) k(3) this(2), of ?found clock]
  have room: "has_room (Suc (length (replay_frames replay))) (conn_at t c)" using assms(11) by (simp add: heaps)
  obtain n' where n': "map_of (sv_namespaces ?s) name = Some n'" "ns_adapter n' = joined (sids t) ?k ?found (ns_adapter n)"
    using effect(1) room by auto
  have "sv_socketHeap ?s = (sv_socketHeap t)[?k := (socket_at t ?k)\<lparr>so_recoverySession := Some session, so_connected := True\<rparr>]"
    using effect(2) room filed_effect(2) [OF k(1,2), of n ?found] assms(3) heaps(3) by simp
  then have "socket_at ?s ?k = (socket_at t ?k)\<lparr>so_recoverySession := Some session, so_connected := True\<rparr>" using k(1) by simp
  moreover have "memb (adapter_of ?s name) room (rs_sid session) = Some ?k" if "room \<in> insert (rs_sid session) (set (rs_rooms session))" for room
    using joined_memb [OF inv, of ?k ?found room] that k(4) n' by (auto simp: adapter_of_def)
  ultimately show ?thesis
    using add effect(3,5) room y k by (auto simp: heaps newServerSocket_def alist_simps)
qed


theorem session_resumed_witness:
  "\<exists>k s'. nsp_add (\<lambda>_ _ _ s. (None, s)) (sample_outside\<lparr>x_recoveryAuth := (\<lambda>_. (''p'', ''10''))\<rparr>) [] [] ''/'' 0 ''{}'' (Some 6) 6
        (two_clients\<lparr>sv_recovery := Some sample_store\<rparr>) = (Inr k, s')
    \<and> so_id (socket_at s' k) = ''s'' \<and> outbox (conn_at s' 0) = [newEngineMessageFrame (appendConnectPacketString [] ''/'' ''s'' ''p'')]"
proof -
  let ?s = "two_clients\<lparr>sv_recovery := Some sample_store\<rparr>" and ?x = "sample_outside\<lparr>x_recoveryAuth := (\<lambda>_. (''p'', ''10''))\<rparr>"
  let ?session = "newRecoverySession ''/'' ''p'' ''s'' [''s'', ''r''] 105"
  obtain n where n: "map_of (sv_namespaces ?s) ''/'' = Some n" by (simp add: two_clients_def)
  have s: "consistent ?s" "sv_recoverySkipMiddlewares ?s"
    using two_clients_consistent by (simp_all add: consistent_def ok_fields) (simp add: two_clients_def sample_server_def NewServer_def Let_def sample_config_def)
  have room: "has_room m (conn_at ?s 0)" for m by (simp add: has_room_def sample_conn_def newEngineConn_def)
  show ?thesis
    using session_resumed [where s = ?s and c = 0 and name = "''/''" and n = n and r = sample_store and auth = "''{}''" and x = ?x and pid = "''p''"
        and offset = "''10''" and now = 6 and session = ?session and replay = "[]" and r' = "sample_store\<lparr>st_sessions := []\<rparr>"
        and csr = "\<lambda>_ _ _ s. (None, s)" and rnda = "[]" and rndb = "[]" and clock = 6] s n room sample_recover
    by (auto simp: newRecoverySession_def)
qed

section \<open>A second connection to the same namespace\<close>

lemma onClose_other: "i \<noteq> j \<Longrightarrow> socket_at (socket_onClose reason now j s) i = socket_at s i"
  by (simp add: socket_onClose_def Let_def run_disconnecting_def run_disconnect_def save_session_def nsp_remove_def conn_removeSocket_def
      case_prod_unfold split: option.split)

lemma onClose_others: "i \<notin> set ks \<Longrightarrow> socket_at (foldl (\<lambda>s k. socket_onClose reason now k s) s ks) i = socket_at s i"
  by (induction ks arbitrary: s) (simp_all add: onClose_other)

lemma removeConn_sockets [simp]: "sv_socketHeap (removeConn sid s) = sv_socketHeap s"
  by (simp add: removeConn_def)

lemma close_others:
  assumes "i \<notin> snd ` set (ec_socketsByNsp (conn_at s c))" "c < length (sv_connHeap s)"
  shows "socket_at (conn_close c reason now s) i = socket_at s i"
  using assms onClose_others [of i "map snd (ec_socketsByNsp (conn_at s c))" reason now "upd_conn c (\<lambda>e. e\<lparr>ec_closed := True\<rparr>) s"]
  by (simp add: conn_close_def Let_def upd_conn_def)





end
