(* ===== verification/BytePool.thy ===== *)
theory BytePool
  imports Handlers "HOL-Library.Multiset"
begin

unbundle bit_operations_syntax

text \<open>
  The buffer pools of \<^verbatim>\<open>bytepool.go\<close>. Buffers are arrays shared by reference, so they are modelled on a store: backing arrays, the
  objects (\<^verbatim>\<open>*pooledBytes\<close>, \<^verbatim>\<open>*pooledByteViews\<close>) that point into them, and the pools that hold released objects.

  The pools of bytes and of views are the same code at different types and sizes; the definitions here are over the element type and the
  record \<open>sizes\<close>. What a \<^verbatim>\<open>sync.Pool\<close> returns is not determined (it may drop what it holds): every \<^verbatim>\<open>Get\<close> takes an argument
  \<open>pick\<close> that chooses one of the objects or none. The same holds for the capacity that the built-in \<^verbatim>\<open>append\<close>
  chooses when it reallocates, the argument \<open>slack\<close>.
\<close>

section \<open>Bucket sizes\<close>

record 'e sizes =
  sz_min :: nat
  sz_max :: nat
  sz_nil :: 'e

definition byte_sizes :: "byte sizes" where
  "byte_sizes = \<lparr>sz_min = 8, sz_max = 16, sz_nil = CHR 0x00\<rparr>"

text \<open>\<^verbatim>\<open>bits.Len\<close>\<close>

fun bits_len :: "nat \<Rightarrow> nat" where
  "bits_len n = (if n = 0 then 0 else Suc (bits_len (n div 2)))"

declare bits_len.simps [simp del]

definition bucketIndexForMinCap :: "'e sizes \<Rightarrow> int \<Rightarrow> int" where
  "bucketIndexForMinCap z minCap =
     (if minCap \<le> 2 ^ sz_min z then 0
      else if minCap > 2 ^ sz_max z then -1
      else int (bits_len (nat (minCap - 1))) - int (sz_min z))"

definition bucketIndexForExactCap :: "'e sizes \<Rightarrow> int \<Rightarrow> int" where
  "bucketIndexForExactCap z capacity =
     (if capacity < 2 ^ sz_min z \<or> capacity > 2 ^ sz_max z \<or> capacity AND (capacity - 1) \<noteq> 0 then -1
      else int (bits_len (nat capacity)) - int (sz_min z) - 1)"

section \<open>The store\<close>

text \<open>A slice from the start of an array is the address of the array and a length; its capacity is the length of the array.\<close>

record pooledBytes =
  pb_B :: "(nat \<times> nat) option"
  pb_base :: "nat option"

record 'e store =
  bs_arrays :: "'e list list"
  bs_objs :: "pooledBytes list"
  bs_buckets :: "nat list list"
  bs_zero :: "nat list"

definition cap_of :: "'e store \<Rightarrow> (nat \<times> nat) option \<Rightarrow> nat" where
  "cap_of s b = (case b of None \<Rightarrow> 0 | Some (a, _) \<Rightarrow> length (bs_arrays s ! a))"

definition used_of :: "(nat \<times> nat) option \<Rightarrow> nat" where
  "used_of b = (case b of None \<Rightarrow> 0 | Some (_, n) \<Rightarrow> n)"

definition set_obj :: "nat \<Rightarrow> pooledBytes \<Rightarrow> 'e store \<Rightarrow> 'e store" where
  "set_obj r x s = s\<lparr>bs_objs := (bs_objs s)[r := x]\<rparr>"

definition new_obj :: "pooledBytes \<Rightarrow> 'e store \<Rightarrow> nat \<times> 'e store" where
  "new_obj x s = (length (bs_objs s), s\<lparr>bs_objs := bs_objs s @ [x]\<rparr>)"

definition make_array :: "'e sizes \<Rightarrow> nat \<Rightarrow> 'e store \<Rightarrow> nat \<times> 'e store" where
  "make_array z n s = (length (bs_arrays s), s\<lparr>bs_arrays := bs_arrays s @ [replicate n (sz_nil z)]\<rparr>)"

definition get_pool :: "(nat list \<Rightarrow> nat option) \<Rightarrow> nat list \<Rightarrow> (nat \<times> nat list) option" where
  "get_pool pick xs =
     (case pick xs of
        None \<Rightarrow> None
      | Some i \<Rightarrow> if i < length xs then Some (xs ! i, take i xs @ drop (Suc i) xs) else None)"

definition nil_obj :: pooledBytes where
  "nil_obj = \<lparr>pb_B = None, pb_base = None\<rparr>"

section \<open>Acquiring and releasing\<close>

definition fresh_buffer :: "'e sizes \<Rightarrow> nat \<Rightarrow> 'e store \<Rightarrow> nat \<times> 'e store" where
  "fresh_buffer z n s =
     (let (a, s1) = make_array z n s in new_obj \<lparr>pb_B = Some (a, 0), pb_base = Some a\<rparr> s1)"

definition acquire :: "'e sizes \<Rightarrow> (nat list \<Rightarrow> nat option) \<Rightarrow> int \<Rightarrow> 'e store \<Rightarrow> nat \<times> 'e store" where
  "acquire z pick minCap s =
     (if minCap \<le> 0 then
        (case get_pool pick (bs_zero s) of
           Some (r, rest) \<Rightarrow> (r, set_obj r nil_obj (s\<lparr>bs_zero := rest\<rparr>))
         | None \<Rightarrow> new_obj nil_obj s)
      else (let idx = bucketIndexForMinCap z minCap in
        if idx < 0 then fresh_buffer z (nat minCap) s
        else (case get_pool pick (bs_buckets s ! nat idx) of
            Some (r, rest) \<Rightarrow>
              (r, set_obj r ((bs_objs s ! r)\<lparr>pb_B := map_option (\<lambda>a. (a, 0)) (pb_base (bs_objs s ! r))\<rparr>)
                    (s\<lparr>bs_buckets := (bs_buckets s)[nat idx := rest]\<rparr>))
          | None \<Rightarrow> fresh_buffer z (2 ^ (sz_min z + nat idx)) s)))"

text \<open>Setting the elements of a slice to nil, which only the pool of views does.\<close>

definition clear_slice :: "'e sizes \<Rightarrow> (nat \<times> nat) option \<Rightarrow> 'e store \<Rightarrow> 'e store" where
  "clear_slice z b s =
     (case b of
        None \<Rightarrow> s
      | Some (a, n) \<Rightarrow> s\<lparr>bs_arrays := (bs_arrays s)[a := replicate n (sz_nil z) @ drop n (bs_arrays s ! a)]\<rparr>)"

definition release_base :: "'e sizes \<Rightarrow> nat option \<Rightarrow> 'e store \<Rightarrow> 'e store" where
  "release_base z base s =
     (case base of
        None \<Rightarrow> s
      | Some a \<Rightarrow>
          (let idx = bucketIndexForExactCap z (int (length (bs_arrays s ! a))) in
           if idx < 0 then s
           else (let (r, s1) = new_obj \<lparr>pb_B = Some (a, 0), pb_base = Some a\<rparr> s
                 in s1\<lparr>bs_buckets := (bs_buckets s1)[nat idx := bs_buckets s1 ! nat idx @ [r]]\<rparr>)))"

definition release :: "'e sizes \<Rightarrow> nat \<Rightarrow> 'e store \<Rightarrow> 'e store" where
  "release z r s =
     (case pb_base (bs_objs s ! r) of
        None \<Rightarrow> set_obj r ((bs_objs s ! r)\<lparr>pb_B := None\<rparr>) (s\<lparr>bs_zero := bs_zero s @ [r]\<rparr>)
      | Some a \<Rightarrow>
          (let idx = bucketIndexForExactCap z (int (length (bs_arrays s ! a))) in
           if idx < 0 then set_obj r nil_obj (s\<lparr>bs_zero := bs_zero s @ [r]\<rparr>)
           else set_obj r ((bs_objs s ! r)\<lparr>pb_B := Some (a, 0)\<rparr>)
                  (s\<lparr>bs_buckets := (bs_buckets s)[nat idx := bs_buckets s ! nat idx @ [r]]\<rparr>)))"

section \<open>Appending\<close>

text \<open>The built-in \<^verbatim>\<open>append\<close>: in place when the capacity allows it, else into a new array.\<close>

definition slice_append :: "'e sizes \<Rightarrow> nat \<Rightarrow> (nat \<times> nat) option \<Rightarrow> 'e list \<Rightarrow> 'e store \<Rightarrow> (nat \<times> nat) option \<times> 'e store" where
  "slice_append z slack b v s =
     (if v = [] then (b, s)
      else if used_of b + length v \<le> cap_of s b then
        (case b of None \<Rightarrow> (b, s)
         | Some (a, n) \<Rightarrow>
             (Some (a, n + length v),
              s\<lparr>bs_arrays := (bs_arrays s)[a := take n (bs_arrays s ! a) @ v @ drop (n + length v) (bs_arrays s ! a)]\<rparr>))
      else (let old = (case b of None \<Rightarrow> [] | Some (a, n) \<Rightarrow> take n (bs_arrays s ! a)) in
        (Some (length (bs_arrays s), length old + length v),
         s\<lparr>bs_arrays := bs_arrays s @ [old @ v @ replicate slack (sz_nil z)]\<rparr>)))"

definition append_to :: "'e sizes \<Rightarrow> nat \<Rightarrow> nat \<Rightarrow> 'e list \<Rightarrow> 'e store \<Rightarrow> 'e store" where
  "append_to z slack r v s =
     (let (b, s1) = slice_append z slack (pb_B (bs_objs s ! r)) v s in set_obj r ((bs_objs s1 ! r)\<lparr>pb_B := b\<rparr>) s1)"

text \<open>\<open>clear\<close> tells \<^verbatim>\<open>pooledByteViews.Grow\<close>, which sets the views it leaves behind to nil, from \<^verbatim>\<open>pooledBytes.Ensure\<close>.\<close>

definition ensure :: "'e sizes \<Rightarrow> bool \<Rightarrow> (nat list \<Rightarrow> nat option) \<Rightarrow> nat \<Rightarrow> int \<Rightarrow> 'e store \<Rightarrow> 'e store" where
  "ensure z clear pick r extra s =
     (let x = bs_objs s ! r; len = used_of (pb_B x) in
      if extra \<le> 0 \<or> int (cap_of s (pb_B x)) - int len \<ge> extra then s
      else (let (r', s1) = acquire z pick (int len + extra) s;
                old = (case pb_B x of None \<Rightarrow> [] | Some (a, n) \<Rightarrow> take n (bs_arrays s1 ! a));
                s2 = append_to z 0 r' old s1;
                s3 = set_obj r' nil_obj (set_obj r (bs_objs s2 ! r') s2);
                s4 = (if clear \<and> pb_base x \<noteq> None then clear_slice z (pb_B x) s3 else s3)
            in release_base z (pb_base x) s4))"


section \<open>Bytes\<close>

definition acquireBytes :: "(nat list \<Rightarrow> nat option) \<Rightarrow> int \<Rightarrow> byte store \<Rightarrow> nat \<times> byte store" where
  "acquireBytes pick minCap s = acquire byte_sizes pick minCap s"

definition bytes_Ensure :: "(nat list \<Rightarrow> nat option) \<Rightarrow> nat \<Rightarrow> int \<Rightarrow> byte store \<Rightarrow> byte store" where
  "bytes_Ensure pick r extra s = ensure byte_sizes False pick r extra s"

text \<open>\<^verbatim>\<open>b.base[:n]\<close> panics (\<^const>\<open>None\<close>) when the base is too small; its elements are what the array holds.\<close>

definition bytes_Resize :: "(nat list \<Rightarrow> nat option) \<Rightarrow> nat \<Rightarrow> nat \<Rightarrow> byte store \<Rightarrow> byte store option" where
  "bytes_Resize pick r n s =
     (let base_cap = (\<lambda>s. cap_of s (map_option (\<lambda>a. (a, 0)) (pb_base (bs_objs s ! r))));
          s1 = (if base_cap s < n then bytes_Ensure pick r (int n - int (used_of (pb_B (bs_objs s ! r)))) s else s)
      in if base_cap s1 < n then None
         else Some (set_obj r ((bs_objs s1 ! r)\<lparr>pb_B := map_option (\<lambda>a. (a, n)) (pb_base (bs_objs s1 ! r))\<rparr>) s1))"

definition bytes_AppendBytes :: "(nat list \<Rightarrow> nat option) \<Rightarrow> nat \<Rightarrow> nat \<Rightarrow> bytes \<Rightarrow> byte store \<Rightarrow> byte store" where
  "bytes_AppendBytes pick slack r v s = append_to byte_sizes slack r v (bytes_Ensure pick r (int (length v)) s)"

definition bytes_AppendByte :: "(nat list \<Rightarrow> nat option) \<Rightarrow> nat \<Rightarrow> nat \<Rightarrow> byte \<Rightarrow> byte store \<Rightarrow> byte store" where
  "bytes_AppendByte pick slack r v s = append_to byte_sizes slack r [v] (bytes_Ensure pick r 1 s)"

definition bytes_AppendUint :: "(nat list \<Rightarrow> nat option) \<Rightarrow> nat \<Rightarrow> nat \<Rightarrow> u64 \<Rightarrow> byte store \<Rightarrow> byte store" where
  "bytes_AppendUint pick slack r v s = append_to byte_sizes slack r (format_uint v) (bytes_Ensure pick r 20 s)"

definition bytes_AppendInt :: "(nat list \<Rightarrow> nat option) \<Rightarrow> nat \<Rightarrow> nat \<Rightarrow> int \<Rightarrow> byte store \<Rightarrow> byte store" where
  "bytes_AppendInt pick slack r v s = append_to byte_sizes slack r (format_int v) (bytes_Ensure pick r 20 s)"

definition bytes_AppendQuote :: "(nat \<Rightarrow> bool) \<Rightarrow> (nat list \<Rightarrow> nat option) \<Rightarrow> nat \<Rightarrow> nat \<Rightarrow> bytes \<Rightarrow> byte store \<Rightarrow> byte store" where
  "bytes_AppendQuote isprint pick slack r v s =
     append_to byte_sizes slack r (quote isprint v) (bytes_Ensure pick r (int (length v) * 6 + 2) s)"

definition bytes_Release :: "nat \<Rightarrow> byte store \<Rightarrow> byte store" where
  "bytes_Release r s = release byte_sizes r s"

text \<open>\<^verbatim>\<open>copy\<close> into the slice of an object.\<close>

definition copy_to :: "nat \<Rightarrow> 'e list \<Rightarrow> 'e store \<Rightarrow> 'e store" where
  "copy_to r v s =
     (case pb_B (bs_objs s ! r) of
        None \<Rightarrow> s
      | Some (a, n) \<Rightarrow>
          s\<lparr>bs_arrays := (bs_arrays s)[a := take n v @ drop (min n (length v)) (bs_arrays s ! a)]\<rparr>)"

section \<open>Views\<close>

text \<open>A view is a part of an array: its address, where it begins and its length. A nil slice has no address.\<close>

type_synonym view = "nat option \<times> nat \<times> nat"

definition view_sizes :: "view sizes" where
  "view_sizes = \<lparr>sz_min = 1, sz_max = 6, sz_nil = (None, 0, 0)\<rparr>"

definition viewBucketIndexForMinCap :: "int \<Rightarrow> int" where
  "viewBucketIndexForMinCap minCap = bucketIndexForMinCap view_sizes minCap"

definition viewBucketIndexForExactCap :: "int \<Rightarrow> int" where
  "viewBucketIndexForExactCap capacity = bucketIndexForExactCap view_sizes capacity"

definition acquireByteViews :: "(nat list \<Rightarrow> nat option) \<Rightarrow> int \<Rightarrow> view store \<Rightarrow> nat \<times> view store" where
  "acquireByteViews pick minCap s = acquire view_sizes pick minCap s"

definition views_Grow :: "(nat list \<Rightarrow> nat option) \<Rightarrow> nat \<Rightarrow> int \<Rightarrow> view store \<Rightarrow> view store" where
  "views_Grow pick r extra s = ensure view_sizes True pick r extra s"

definition views_Append :: "(nat list \<Rightarrow> nat option) \<Rightarrow> nat \<Rightarrow> nat \<Rightarrow> view \<Rightarrow> view store \<Rightarrow> view store" where
  "views_Append pick slack r item s =
     append_to view_sizes slack r [item]
       (if used_of (pb_B (bs_objs s ! r)) = cap_of s (pb_B (bs_objs s ! r)) then views_Grow pick r 1 s else s)"

definition views_Release :: "nat \<Rightarrow> view store \<Rightarrow> view store" where
  "views_Release r s =
     release view_sizes r (if pb_base (bs_objs s ! r) \<noteq> None then clear_slice view_sizes (pb_B (bs_objs s ! r)) s else s)"


section \<open>Buckets\<close>

lemma bits_len_upper: "n < 2 ^ bits_len n"
proof (induction n rule: bits_len.induct)
  case (1 n)
  then show ?case by (subst bits_len.simps) auto
qed

lemma bits_len_lower: "0 < n \<Longrightarrow> 2 ^ bits_len n \<le> 2 * n"
proof (induction n rule: bits_len.induct)
  case (1 n)
  have "2 ^ bits_len (n div 2) \<le> n"
  proof (cases "n div 2 = 0")
    case True
    then show ?thesis using 1 by (simp add: bits_len.simps)
  next
    case False
    then show ?thesis using 1 by linarith
  qed
  then show ?case using 1(2) by (subst bits_len.simps) simp
qed

lemma bits_len_le_iff: "bits_len n \<le> k \<longleftrightarrow> n < 2 ^ k"
proof
  assume "bits_len n \<le> k"
  then have "(2 :: nat) ^ bits_len n \<le> 2 ^ k" by simp
  then show "n < 2 ^ k" using bits_len_upper [of n] by linarith
next
  assume less: "n < 2 ^ k"
  show "bits_len n \<le> k"
  proof (cases "n = 0")
    case False
    then have "(2 :: nat) ^ bits_len n < 2 ^ Suc k" using bits_len_lower [of n] less by simp
    then show ?thesis by (simp only: power_strict_increasing_iff)
  qed (simp add: bits_len.simps)
qed

lemma bits_len_power: "bits_len (2 ^ k) = Suc k"
  using bits_len_le_iff [of "2 ^ k" k] bits_len_le_iff [of "2 ^ k" "Suc k"] by simp

lemma and_pred_zero: "0 < n \<Longrightarrow> n AND (n - 1) = (0 :: nat) \<Longrightarrow> \<exists>k. n = 2 ^ k"
proof (induction n rule: less_induct)
  case (less n)
  show ?case
  proof (cases "even n")
    case True
    then obtain m where m: "n = 2 * m" by (elim evenE)
    then have pos: "0 < m" using less.prems(1) by simp
    then have pred: "n - 1 = 2 * (m - 1) + 1" using m by simp
    have "(2 * m) AND (2 * (m - 1) + 1) = 2 * (m AND (m - 1))" by (simp add: and_rec [of "2 * m"])
    then have "n AND (n - 1) = 2 * (m AND (m - 1))" unfolding pred by (simp add: m)
    then have "m AND (m - 1) = 0" using less.prems(2) by simp
    then obtain k where "m = 2 ^ k" using less.IH [of m] m pos by auto
    then have "n = 2 ^ Suc k" using m by simp
    then show ?thesis by blast
  next
    case False
    then obtain m where m: "n = 2 * m + 1" by (elim oddE)
    moreover have "(2 * m + 1) AND (2 * m) = 2 * m" by (subst and_rec) simp
    ultimately have "n AND (n - 1) = 2 * m" by simp
    then show ?thesis using less.prems(2) m by (intro exI [of _ 0]) simp
  qed
qed

lemma min_cap_bucket:
  assumes "0 < n" "sz_min z \<le> sz_max z"
  shows "0 \<le> bucketIndexForMinCap z n \<longleftrightarrow> n \<le> 2 ^ sz_max z"
    and "n \<le> 2 ^ sz_max z \<Longrightarrow> nat (bucketIndexForMinCap z n) \<le> sz_max z - sz_min z \<and> n \<le> 2 ^ (sz_min z + nat (bucketIndexForMinCap z n))"
proof -
  let ?b = "bits_len (nat (n - 1))"
  have small: "n \<le> 2 ^ sz_max z" if "n \<le> 2 ^ sz_min z"
    using that assms(2) power_increasing [of "sz_min z" "sz_max z" "2 :: int"] by linarith
  have bits: "?b \<le> k \<longleftrightarrow> n \<le> 2 ^ k" for k
  proof -
    have "?b \<le> k \<longleftrightarrow> int (nat (n - 1)) < int (2 ^ k)" by (simp only: bits_len_le_iff of_nat_less_iff)
    then show ?thesis using assms(1) by auto
  qed
  have lower: "sz_min z < ?b" if "n > 2 ^ sz_min z" using that bits [of "sz_min z"] by linarith
  show "0 \<le> bucketIndexForMinCap z n \<longleftrightarrow> n \<le> 2 ^ sz_max z"
    using small lower by (auto simp: bucketIndexForMinCap_def)
  show "nat (bucketIndexForMinCap z n) \<le> sz_max z - sz_min z \<and> n \<le> 2 ^ (sz_min z + nat (bucketIndexForMinCap z n))"
    if le: "n \<le> 2 ^ sz_max z"
  proof (cases "n \<le> 2 ^ sz_min z")
    case False
    then have "sz_min z < ?b" using lower by simp
    moreover have "?b \<le> sz_max z" using bits le by simp
    moreover have "n \<le> 2 ^ ?b" using bits [of ?b] by simp
    ultimately show ?thesis using False le by (simp add: bucketIndexForMinCap_def nat_diff_distrib)
  qed (simp add: bucketIndexForMinCap_def)
qed

lemma exact_cap_bucket:
  assumes "0 \<le> bucketIndexForExactCap z (int c)" "sz_min z \<le> sz_max z"
  shows "nat (bucketIndexForExactCap z (int c)) \<le> sz_max z - sz_min z" "c = 2 ^ (sz_min z + nat (bucketIndexForExactCap z (int c)))"
proof -
  have "\<not> (int c < 2 ^ sz_min z \<or> int c > 2 ^ sz_max z \<or> int c AND (int c - 1) \<noteq> 0)"
    using assms(1) unfolding bucketIndexForExactCap_def by (rule contrapos_pn) simp
  then have "int (2 ^ sz_min z) \<le> int c" "int c \<le> int (2 ^ sz_max z)" and masked: "int c AND (int c - 1) = 0" by simp_all
  then have c: "2 ^ sz_min z \<le> c" "c \<le> 2 ^ sz_max z" by (simp_all only: of_nat_le_iff)
  have pos: "0 < c" by (rule less_le_trans [OF _ c(1)]) simp
  then have "int (c AND (c - 1)) = 0" using masked by (simp add: of_nat_and_eq of_nat_diff)
  then obtain k where k: "c = 2 ^ k" using and_pred_zero [OF pos] by auto
  then have bounds: "sz_min z \<le> k" "k \<le> sz_max z" using c(1,2) by simp_all
  have "bucketIndexForExactCap z (int c) = int k - int (sz_min z)"
  proof -
    have "nat (int c) = 2 ^ k" using k by simp
    then have "bits_len (nat (int c)) = Suc k" by (simp only: bits_len_power)
    then show ?thesis using assms(1) unfolding bucketIndexForExactCap_def by (auto split: if_splits)
  qed
  then show "nat (bucketIndexForExactCap z (int c)) \<le> sz_max z - sz_min z" "c = 2 ^ (sz_min z + nat (bucketIndexForExactCap z (int c)))"
    using bounds k by auto
qed


text \<open>A view bucket holds at least what was asked for, and takes only arrays of its exact size back.\<close>

lemma view_buckets:
  "0 < n \<Longrightarrow> n \<le> 64 \<Longrightarrow> 0 \<le> viewBucketIndexForMinCap n \<and> viewBucketIndexForMinCap n \<le> 5 \<and> n \<le> 2 ^ (1 + nat (viewBucketIndexForMinCap n))"
  "0 \<le> viewBucketIndexForExactCap (int c) \<Longrightarrow> c = 2 ^ (1 + nat (viewBucketIndexForExactCap (int c))) \<and> viewBucketIndexForExactCap (int c) \<le> 5"
  using min_cap_bucket [of n view_sizes] exact_cap_bucket [of view_sizes c]
  by (auto simp: viewBucketIndexForMinCap_def viewBucketIndexForExactCap_def view_sizes_def nat_le_iff)

section \<open>Ownership\<close>

text \<open>
  What makes the pools safe: the objects that are in use (the set \<open>L\<close>) and the objects in the pools are apart, no object is in the pools
  twice, no two of them share an array, and an object in a bucket has exactly the capacity of that bucket. The slice of an object begins
  at its base and stays within it.
\<close>

definition contents :: "'e store \<Rightarrow> nat \<Rightarrow> 'e list" where
  "contents s r = (case pb_B (bs_objs s ! r) of None \<Rightarrow> [] | Some (a, n) \<Rightarrow> take n (bs_arrays s ! a))"

definition room_of :: "'e store \<Rightarrow> nat \<Rightarrow> nat" where
  "room_of s r = cap_of s (pb_B (bs_objs s ! r)) - used_of (pb_B (bs_objs s ! r))"

definition refs :: "'e store \<Rightarrow> nat list" where
  "refs s = concat (bs_buckets s) @ bs_zero s"

definition obj_ok :: "'e store \<Rightarrow> nat \<Rightarrow> bool" where
  "obj_ok s r \<longleftrightarrow> r < length (bs_objs s) \<and>
     (case pb_base (bs_objs s ! r) of
        None \<Rightarrow> pb_B (bs_objs s ! r) = None
      | Some a \<Rightarrow> a < length (bs_arrays s) \<and>
          (case pb_B (bs_objs s ! r) of None \<Rightarrow> False | Some (b, n) \<Rightarrow> b = a \<and> n \<le> length (bs_arrays s ! a)))"

definition heap_ok :: "nat set \<Rightarrow> 'e store \<Rightarrow> bool" where
  "heap_ok W s \<longleftrightarrow> (\<forall>r \<in> W. obj_ok s r) \<and>
     (\<forall>r \<in> W. \<forall>q \<in> W. pb_base (bs_objs s ! r) = pb_base (bs_objs s ! q) \<longrightarrow> pb_base (bs_objs s ! r) \<noteq> None \<longrightarrow> r = q)"

definition in_bucket :: "'e sizes \<Rightarrow> 'e store \<Rightarrow> nat \<Rightarrow> nat \<Rightarrow> bool" where
  "in_bucket z s i r \<longleftrightarrow>
     (case pb_base (bs_objs s ! r) of None \<Rightarrow> False | Some a \<Rightarrow> length (bs_arrays s ! a) = 2 ^ (sz_min z + i))"

definition pools_ok :: "'e sizes \<Rightarrow> 'e store \<Rightarrow> bool" where
  "pools_ok z s \<longleftrightarrow> length (bs_buckets s) = Suc (sz_max z - sz_min z) \<and> distinct (refs s) \<and>
     (\<forall>i < length (bs_buckets s). \<forall>r \<in> set (bs_buckets s ! i). in_bucket z s i r) \<and>
     (\<forall>r \<in> set (bs_zero s). pb_base (bs_objs s ! r) = None)"

definition pool_ok :: "'e sizes \<Rightarrow> nat set \<Rightarrow> 'e store \<Rightarrow> bool" where
  "pool_ok z L s \<longleftrightarrow> heap_ok (L \<union> set (refs s)) s \<and> pools_ok z s \<and> L \<inter> set (refs s) = {}"

text \<open>An operation leaves the objects in \<open>Q\<close> and their arrays alone.\<close>

definition keeps :: "nat set \<Rightarrow> 'e store \<Rightarrow> 'e store \<Rightarrow> bool" where
  "keeps Q s s' \<longleftrightarrow> length (bs_objs s) \<le> length (bs_objs s') \<and> length (bs_arrays s) \<le> length (bs_arrays s') \<and> (\<forall>q \<in> Q. bs_objs s' ! q = bs_objs s ! q \<and>
     (\<forall>a. pb_base (bs_objs s ! q) = Some a \<longrightarrow> bs_arrays s' ! a = bs_arrays s ! a))"

lemma keeps_refl [simp]: "keeps Q s s"
  by (simp add: keeps_def)

lemma keeps_trans: "keeps Q s s' \<Longrightarrow> keeps Q s' s'' \<Longrightarrow> keeps Q s s''"
  by (simp add: keeps_def)

lemma keeps_mono: "keeps Q s s' \<Longrightarrow> P \<subseteq> Q \<Longrightarrow> keeps P s s'"
  by (auto simp: keeps_def)

lemma obj_ok_cases:
  assumes "obj_ok s r"
  obtains (bare) "bs_objs s ! r = nil_obj" "r < length (bs_objs s)"
    | (based) a n where "bs_objs s ! r = \<lparr>pb_B = Some (a, n), pb_base = Some a\<rparr>" "a < length (bs_arrays s)"
        "n \<le> length (bs_arrays s ! a)" "r < length (bs_objs s)"
  using assms by (cases "bs_objs s ! r") (auto simp: obj_ok_def nil_obj_def split: option.splits)

lemma keeps_ok:
  assumes "keeps Q s s'" "q \<in> Q" "obj_ok s q"
  shows "obj_ok s' q" "contents s' q = contents s q" "room_of s' q = room_of s q"
proof -
  have same: "bs_objs s' ! q = bs_objs s ! q" using assms(1,2) by (simp add: keeps_def)
  have arr: "\<And>a. pb_base (bs_objs s ! q) = Some a \<Longrightarrow> bs_arrays s' ! a = bs_arrays s ! a" using assms(1,2) by (simp add: keeps_def)
  show "obj_ok s' q" "contents s' q = contents s q" "room_of s' q = room_of s q"
    using assms(3)
    by (cases rule: obj_ok_cases; use same arr assms(1) in \<open>simp add: obj_ok_def keeps_def contents_def room_of_def cap_of_def used_of_def nil_obj_def\<close>)+
qed

lemma mset_concat_update:
  assumes "i < length bss"
  shows "mset (concat (bss[i := xs])) + mset (bss ! i) = mset (concat bss) + mset xs"
proof -
  have "concat bss = concat (take i bss) @ bss ! i @ concat (drop (Suc i) bss)"
    using id_take_nth_drop [OF assms] by (metis append.assoc append_Cons append_Nil concat.simps(2) concat_append)
  moreover have "concat (bss[i := xs]) = concat (take i bss) @ xs @ concat (drop (Suc i) bss)"
    using assms by (simp add: upd_conv_take_nth_drop)
  ultimately show ?thesis by simp
qed

lemma get_pool_some:
  assumes "get_pool pick xs = Some (r, rest)"
  shows "mset xs = add_mset r (mset rest)"
proof -
  obtain i where i: "i < length xs" "r = xs ! i" "rest = take i xs @ drop (Suc i) xs"
    using assms by (auto simp: get_pool_def split: option.splits if_splits)
  then have "mset xs = mset (take i xs @ xs ! i # drop (Suc i) xs)" by (metis id_take_nth_drop)
  then show ?thesis using i by simp
qed


lemma heap_ok_pools [simp]:
  "heap_ok W (s\<lparr>bs_zero := x\<rparr>) = heap_ok W s" "heap_ok W (s\<lparr>bs_buckets := y\<rparr>) = heap_ok W s"
  by (simp_all add: heap_ok_def obj_ok_def cong: option.case_cong)

lemma in_bucket_pools [simp]:
  "in_bucket z (s\<lparr>bs_zero := x\<rparr>) = in_bucket z s" "in_bucket z (s\<lparr>bs_buckets := y\<rparr>) = in_bucket z s"
  by (simp_all add: in_bucket_def fun_eq_iff cong: option.case_cong)

lemma set_obj_sel [simp]:
  "bs_arrays (set_obj r x s) = bs_arrays s" "bs_buckets (set_obj r x s) = bs_buckets s" "bs_zero (set_obj r x s) = bs_zero s"
  "length (bs_objs (set_obj r x s)) = length (bs_objs s)" "refs (set_obj r x s) = refs s"
  "q \<noteq> r \<Longrightarrow> bs_objs (set_obj r x s) ! q = bs_objs s ! q"
  "r < length (bs_objs s) \<Longrightarrow> bs_objs (set_obj r x s) ! r = x"
  by (simp_all add: set_obj_def refs_def)

lemma heap_ok_mono: "heap_ok W s \<Longrightarrow> V \<subseteq> W \<Longrightarrow> heap_ok V s"
  unfolding heap_ok_def by blast

text \<open>An object may get another slice of its own array, or give its array up.\<close>

lemma heap_set:
  assumes "heap_ok W s" "r \<in> W" "x = nil_obj \<or> (\<exists>a n. x = \<lparr>pb_B = Some (a, n), pb_base = Some a\<rparr> \<and> pb_base (bs_objs s ! r) = Some a \<and> n \<le> length (bs_arrays s ! a))"
  shows "heap_ok W (set_obj r x s)"
proof -
  have r: "obj_ok s r" using assms(1,2) by (simp add: heap_ok_def)
  have "obj_ok (set_obj r x s) q" if "q \<in> W" for q
  proof (cases "q = r")
    case True
    show ?thesis using assms(3) r unfolding True by (auto simp: obj_ok_def nil_obj_def set_obj_def)
  next
    case False
    then have "obj_ok (set_obj r x s) q = obj_ok s q" by (simp add: obj_ok_def cong: option.case_cong)
    then show ?thesis using assms(1) that by (simp add: heap_ok_def)
  qed
  moreover have "pb_base (bs_objs (set_obj r x s) ! q) = None \<or> pb_base (bs_objs (set_obj r x s) ! q) = pb_base (bs_objs s ! q)" for q
    using assms(3) r by (cases "q = r") (auto simp: obj_ok_def nil_obj_def)
  ultimately show ?thesis
    using assms(1) unfolding heap_ok_def by metis
qed

lemma pools_keep:
  assumes "pools_ok z s" "bs_buckets s' = bs_buckets s" "bs_zero s' = bs_zero s"
    and "\<And>r. r \<in> set (refs s) \<Longrightarrow> pb_base (bs_objs s' ! r) = pb_base (bs_objs s ! r)"
    and "\<And>r a. r \<in> set (refs s) \<Longrightarrow> pb_base (bs_objs s ! r) = Some a \<Longrightarrow> length (bs_arrays s' ! a) = length (bs_arrays s ! a)"
  shows "pools_ok z s'"
proof -
  have refs: "refs s' = refs s" using assms(2,3) by (simp add: refs_def)
  have "in_bucket z s' i r" if "i < length (bs_buckets s)" "r \<in> set (bs_buckets s ! i)" for i r
  proof -
    have "r \<in> set (refs s)" using that by (auto simp: refs_def)
    moreover have "in_bucket z s i r" using assms(1) that by (simp add: pools_ok_def)
    ultimately show ?thesis using assms(4,5) by (auto simp: in_bucket_def split: option.splits)
  qed
  moreover have "pb_base (bs_objs s' ! r) = None" if "r \<in> set (bs_zero s)" for r
    using assms(1,4) that by (simp add: pools_ok_def refs_def)
  ultimately show ?thesis using assms(1,2,3) refs by (simp add: pools_ok_def)
qed

lemma pools_kept:
  assumes "pools_ok z s" "keeps Q s s'" "set (refs s) \<subseteq> Q" "bs_buckets s' = bs_buckets s" "bs_zero s' = bs_zero s"
  shows "pools_ok z s'"
proof -
  have "bs_objs s' ! r = bs_objs s ! r" "\<And>a. pb_base (bs_objs s ! r) = Some a \<Longrightarrow> bs_arrays s' ! a = bs_arrays s ! a"
    if "r \<in> set (refs s)" for r
    using assms(2,3) that by (auto simp: keeps_def)
  then show ?thesis by (intro pools_keep [OF assms(1,4,5)]) simp_all
qed

lemma pools_set_other: "pools_ok z s \<Longrightarrow> r \<notin> set (refs s) \<Longrightarrow> pools_ok z (set_obj r x s)"
  by (erule pools_keep) (auto intro!: arg_cong [of _ _ pb_base] set_obj_sel(6))

lemma pools_take_zero:
  assumes "pools_ok z s" "mset (bs_zero s) = add_mset r (mset rest)"
  shows "pools_ok z (s\<lparr>bs_zero := rest\<rparr>)" "set (refs s) = insert r (set (refs (s\<lparr>bs_zero := rest\<rparr>)))"
    "r \<notin> set (refs (s\<lparr>bs_zero := rest\<rparr>))"
proof -
  have m: "mset (refs s) = add_mset r (mset (refs (s\<lparr>bs_zero := rest\<rparr>)))" using assms(2) by (simp add: refs_def)
  have "distinct (r # refs (s\<lparr>bs_zero := rest\<rparr>))"
    using assms(1) m mset_eq_imp_distinct_iff [of "refs s" "r # refs (s\<lparr>bs_zero := rest\<rparr>)"] by (simp add: pools_ok_def)
  moreover have "set (bs_zero s) = insert r (set rest)" using arg_cong [OF assms(2), of set_mset] by simp
  ultimately show "pools_ok z (s\<lparr>bs_zero := rest\<rparr>)" "r \<notin> set (refs (s\<lparr>bs_zero := rest\<rparr>))"
    using assms(1) by (simp_all add: pools_ok_def in_bucket_def)
  show "set (refs s) = insert r (set (refs (s\<lparr>bs_zero := rest\<rparr>)))" using arg_cong [OF m, of set_mset] by simp
qed

lemma pools_take_bucket:
  assumes "pools_ok z s" "i < length (bs_buckets s)" "mset (bs_buckets s ! i) = add_mset r (mset rest)"
  defines "s' \<equiv> s\<lparr>bs_buckets := (bs_buckets s)[i := rest]\<rparr>"
  shows "pools_ok z s'" "set (refs s) = insert r (set (refs s'))" "r \<notin> set (refs s')"
proof -
  have m: "mset (refs s) = add_mset r (mset (refs s'))"
    using mset_concat_update [OF assms(2), of rest] assms(3) by (simp add: refs_def s'_def)
  have "distinct (r # refs s')"
    using assms(1) m mset_eq_imp_distinct_iff [of "refs s" "r # refs s'"] by (simp add: pools_ok_def)
  moreover have sub: "set (bs_buckets s ! i) = insert r (set rest)" using arg_cong [OF assms(3), of set_mset] by simp
  moreover have "in_bucket z s' j q" if "j < length (bs_buckets s)" "q \<in> set ((bs_buckets s)[i := rest] ! j)" for j q
    using assms(1) that sub by (cases "j = i") (auto simp: pools_ok_def in_bucket_def s'_def)
  ultimately show "pools_ok z s'" "r \<notin> set (refs s')"
    using assms(1) by (simp_all add: pools_ok_def s'_def)
  show "set (refs s) = insert r (set (refs s'))" using arg_cong [OF m, of set_mset] by simp
qed

lemma pools_put_zero:
  assumes "pools_ok z s" "r \<notin> set (refs s)" "pb_base (bs_objs s ! r) = None"
  shows "pools_ok z (s\<lparr>bs_zero := bs_zero s @ [r]\<rparr>)" "set (refs (s\<lparr>bs_zero := bs_zero s @ [r]\<rparr>)) = insert r (set (refs s))"
  using assms by (auto simp: pools_ok_def refs_def in_bucket_def)

lemma pools_put_bucket:
  assumes "pools_ok z s" "r \<notin> set (refs s)" "in_bucket z s i r" "i < length (bs_buckets s)"
  defines "s' \<equiv> s\<lparr>bs_buckets := (bs_buckets s)[i := bs_buckets s ! i @ [r]]\<rparr>"
  shows "pools_ok z s'" "set (refs s') = insert r (set (refs s))"
proof -
  have "mset (refs s') + mset (bs_buckets s ! i) = add_mset r (mset (refs s)) + mset (bs_buckets s ! i)"
    using mset_concat_update [OF assms(4), of "bs_buckets s ! i @ [r]"] by (simp add: refs_def s'_def)
  then have m: "mset (refs s') = add_mset r (mset (refs s))" by simp
  show "set (refs s') = insert r (set (refs s))" using arg_cong [OF m, of set_mset] by simp
  have "distinct (refs s')"
    using assms(1,2) m mset_eq_imp_distinct_iff [of "refs s'" "r # refs s"] by (simp add: pools_ok_def)
  moreover have "in_bucket z s' j q" if "j < length (bs_buckets s)" "q \<in> set ((bs_buckets s)[i := bs_buckets s ! i @ [r]] ! j)" for j q
    using assms(1,3) that by (cases "j = i") (auto simp: pools_ok_def in_bucket_def s'_def)
  ultimately show "pools_ok z s'" using assms(1) by (simp add: pools_ok_def s'_def)
qed

section \<open>Acquire and release\<close>

lemma heap_new:
  assumes "heap_ok W s" "bs_objs s' = bs_objs s @ [x]" "bs_arrays s' = bs_arrays s @ ys"
    and "x = nil_obj \<or> ys \<noteq> [] \<and> x = \<lparr>pb_B = Some (length (bs_arrays s), 0), pb_base = Some (length (bs_arrays s))\<rparr>"
  shows "heap_ok (insert (length (bs_objs s)) W) s'" "keeps W s s'" "length (bs_objs s) \<notin> W"
proof -
  have old: "r < length (bs_objs s)" "\<And>a. pb_base (bs_objs s ! r) = Some a \<Longrightarrow> a < length (bs_arrays s)" if "r \<in> W" for r
    using assms(1) that by (auto simp: heap_ok_def obj_ok_def split: option.splits)
  then show new: "length (bs_objs s) \<notin> W" by auto
  show keep: "keeps W s s'" using old by (auto simp: keeps_def assms(2,3) nth_append)
  have "obj_ok s' r" if "r \<in> W" for r using keeps_ok(1) [OF keep that] assms(1) that by (simp add: heap_ok_def)
  moreover have "obj_ok s' (length (bs_objs s))" using assms(2,3,4) by (auto simp: obj_ok_def nil_obj_def nth_append)
  moreover have base: "pb_base (bs_objs s' ! r) = pb_base (bs_objs s ! r)" if "r \<in> W" for r using keep that by (simp add: keeps_def)
  moreover have "pb_base (bs_objs s' ! r) = pb_base (bs_objs s' ! length (bs_objs s)) \<longrightarrow> pb_base (bs_objs s' ! r) = None" if "r \<in> W" for r
    using assms(2,4) old(2) [OF that] base [OF that] by (auto simp: nil_obj_def)
  ultimately show "heap_ok (insert (length (bs_objs s)) W) s'"
    using assms(1) unfolding heap_ok_def by (metis insert_iff)
qed

text \<open>What a new buffer has to be.\<close>

definition handed_out :: "'e sizes \<Rightarrow> nat set \<Rightarrow> 'e store \<Rightarrow> nat \<Rightarrow> int \<Rightarrow> 'e store \<Rightarrow> bool" where
  "handed_out z L s r n s' \<longleftrightarrow> pool_ok z (insert r L) s' \<and> r \<notin> L \<and> contents s' r = [] \<and> n \<le> int (room_of s' r) \<and> keeps L s s'"

lemma fresh_new:
  assumes ok: "pool_ok z L s" and new: "bs_objs s' = bs_objs s @ [x]" "bs_arrays s' = bs_arrays s @ ys"
    and x: "x = nil_obj \<and> n \<le> 0 \<or> (\<exists>y. ys = [y] \<and> n \<le> int (length y)) \<and>
        x = \<lparr>pb_B = Some (length (bs_arrays s), 0), pb_base = Some (length (bs_arrays s))\<rparr>"
    and pools: "bs_buckets s' = bs_buckets s" "bs_zero s' = bs_zero s"
  shows "handed_out z L s (length (bs_objs s)) n s'"
proof -
  have heap: "heap_ok (L \<union> set (refs s)) s" using ok by (simp add: pool_ok_def)
  have refs: "refs s' = refs s" using pools by (simp add: refs_def)
  have x': "x = nil_obj \<or> ys \<noteq> [] \<and> x = \<lparr>pb_B = Some (length (bs_arrays s), 0), pb_base = Some (length (bs_arrays s))\<rparr>" using x by auto
  note made = heap_new [OF heap new x']
  have "pools_ok z s'" using ok pools by (intro pools_kept [OF _ made(2)]) (auto simp: pool_ok_def)
  then have "pool_ok z (insert (length (bs_objs s)) L) s'" using made(1,3) ok refs by (auto simp: pool_ok_def)
  moreover have "contents s' (length (bs_objs s)) = [] \<and> n \<le> int (room_of s' (length (bs_objs s)))"
    using x by (auto simp: new contents_def room_of_def cap_of_def used_of_def nil_obj_def)
  ultimately show ?thesis using made(2,3) by (auto simp: handed_out_def intro: keeps_mono)
qed

lemma fresh_buffer_ok:
  assumes "pool_ok z L s" "fresh_buffer z m s = (r, s')" "n \<le> int m"
  shows "handed_out z L s r n s'"
proof -
  have "r = length (bs_objs s)" "bs_objs s' = bs_objs s @ [\<lparr>pb_B = Some (length (bs_arrays s), 0), pb_base = Some (length (bs_arrays s))\<rparr>]"
      "bs_arrays s' = bs_arrays s @ [replicate m (sz_nil z)]" "bs_buckets s' = bs_buckets s" "bs_zero s' = bs_zero s"
    using assms(2) by (auto simp: fresh_buffer_def make_array_def new_obj_def)
  then show ?thesis using fresh_new [OF assms(1), of s' _ "[replicate m (sz_nil z)]" n] assms(3) by auto
qed

text \<open>An object taken from a pool: the store \<open>t\<close> is the old one without that object in its pools.\<close>

lemma fresh_reused:
  assumes ok: "pool_ok z L s" and t: "pools_ok z t" "set (refs s) = insert r (set (refs t))" "r \<notin> set (refs t)"
      "bs_objs t = bs_objs s" "bs_arrays t = bs_arrays s"
    and x: "x = nil_obj \<and> n \<le> 0 \<or> (\<exists>a. x = \<lparr>pb_B = Some (a, 0), pb_base = Some a\<rparr> \<and> pb_base (bs_objs s ! r) = Some a
        \<and> n \<le> int (length (bs_arrays s ! a)))"
  shows "handed_out z L s r n (set_obj r x t)"
proof -
  have ht: "heap_ok (insert r L \<union> set (refs t)) t"
    using ok t(2,4,5) by (simp add: pool_ok_def heap_ok_def obj_ok_def cong: option.case_cong)
  then have "heap_ok (insert r L \<union> set (refs t)) (set_obj r x t)"
    by (rule heap_set) (use x t(4,5) in auto)
  then have "pool_ok z (insert r L) (set_obj r x t)"
    using ok t(1-3) pools_set_other [OF t(1,3)] by (auto simp: pool_ok_def)
  moreover have r: "r < length (bs_objs t)" using ht by (simp add: heap_ok_def obj_ok_def)
  then have "contents (set_obj r x t) r = [] \<and> n \<le> int (room_of (set_obj r x t) r)"
    using x t(4,5) by (auto simp: contents_def room_of_def cap_of_def used_of_def nil_obj_def)
  moreover have "r \<notin> L" using ok t(2) by (auto simp: pool_ok_def)
  moreover have "keeps L s (set_obj r x t)"
  proof -
    have "bs_objs (set_obj r x t) ! q = bs_objs s ! q" if "q \<in> L" for q using that \<open>r \<notin> L\<close> t(4) by (cases "q = r") auto
    then show ?thesis using t(4,5) by (simp add: keeps_def)
  qed
  ultimately show ?thesis by (simp add: handed_out_def)
qed

lemma acquire_fresh:
  assumes ok: "pool_ok z L s" and z: "sz_min z \<le> sz_max z" and run: "acquire z pick n s = (r, s')"
  shows "handed_out z L s r n s'"
proof (cases "n \<le> 0")
  case True
  show ?thesis
  proof (cases "get_pool pick (bs_zero s)")
    case None
    then have "r = length (bs_objs s)" "s' = s\<lparr>bs_objs := bs_objs s @ [nil_obj]\<rparr>"
      using run True by (simp_all add: acquire_def new_obj_def)
    then show ?thesis using fresh_new [OF ok, of s' nil_obj "[]" n] True by simp
  next
    case (Some rr)
    then obtain rest where got: "get_pool pick (bs_zero s) = Some (r, rest)" "s' = set_obj r nil_obj (s\<lparr>bs_zero := rest\<rparr>)"
      using run True by (cases rr) (auto simp: acquire_def)
    have pools: "pools_ok z s" using ok by (simp add: pool_ok_def)
    note taken = pools_take_zero [OF pools get_pool_some [OF got(1)]]
    show ?thesis unfolding got(2) using fresh_reused [OF ok taken] True by simp
  qed
next
  case False
  then have pos: "0 < n" by simp
  define idx where "idx = bucketIndexForMinCap z n"
  show ?thesis
  proof (cases "idx < 0")
    case True
    then show ?thesis using run False fresh_buffer_ok [OF ok, of "nat n" r s' n] by (simp add: acquire_def Let_def idx_def)
  next
    case nonneg: False
    then have bound: "nat idx \<le> sz_max z - sz_min z" "n \<le> 2 ^ (sz_min z + nat idx)"
      using min_cap_bucket [OF pos z] by (simp_all add: idx_def)
    have pools: "pools_ok z s" using ok by (simp add: pool_ok_def)
    have i: "nat idx < length (bs_buckets s)" using bound(1) pools by (simp add: pools_ok_def)
    show ?thesis
    proof (cases "get_pool pick (bs_buckets s ! nat idx)")
      case None
      then have "fresh_buffer z (2 ^ (sz_min z + nat idx)) s = (r, s')"
        using run False nonneg by (simp add: acquire_def Let_def idx_def)
      then show ?thesis using fresh_buffer_ok [OF ok] bound(2) by simp
    next
      case (Some rr)
      then obtain rest where got: "get_pool pick (bs_buckets s ! nat idx) = Some (r, rest)"
        and s': "s' = set_obj r ((bs_objs s ! r)\<lparr>pb_B := map_option (\<lambda>a. (a, 0)) (pb_base (bs_objs s ! r))\<rparr>) (s\<lparr>bs_buckets := (bs_buckets s)[nat idx := rest]\<rparr>)"
        using run False nonneg by (cases rr) (auto simp: acquire_def Let_def idx_def)
      note taken = pools_take_bucket [OF pools i get_pool_some [OF got]]
      have "r \<in> set (bs_buckets s ! nat idx)" using arg_cong [OF get_pool_some [OF got], of set_mset] by simp
      then have "in_bucket z s (nat idx) r" using pools i by (simp add: pools_ok_def)
      then obtain a where "pb_base (bs_objs s ! r) = Some a" "length (bs_arrays s ! a) = 2 ^ (sz_min z + nat idx)"
        by (auto simp: in_bucket_def split: option.splits)
      then show ?thesis unfolding s'
        by (intro fresh_reused [OF ok taken]) (use bound(2) in simp_all)
    qed
  qed
qed

lemma released_to_pools:
  assumes ok: "pool_ok z L s" and r: "r \<in> L"
    and x: "x = nil_obj \<or> (\<exists>a. x = \<lparr>pb_B = Some (a, 0), pb_base = Some a\<rparr> \<and> pb_base (bs_objs s ! r) = Some a)"
    and put: "pools_ok z (set_obj r x s) \<Longrightarrow> r \<notin> set (refs (set_obj r x s)) \<Longrightarrow> pools_ok z t \<and> set (refs t) = insert r (set (refs s))"
    and t: "bs_objs t = bs_objs (set_obj r x s)" "bs_arrays t = bs_arrays s"
  shows "pool_ok z (L - {r}) t \<and> keeps (L - {r}) s t"
proof -
  have apart: "r \<notin> set (refs s)" using ok r by (auto simp: pool_ok_def)
  have heap: "heap_ok (L \<union> set (refs s)) (set_obj r x s)" using ok r x by (intro heap_set) (auto simp: pool_ok_def)
  have pools: "pools_ok z t" "set (refs t) = insert r (set (refs s))"
    using put pools_set_other [of z s r x] ok apart by (simp_all add: pool_ok_def)
  have "heap_ok (L \<union> set (refs s)) t"
    using heap t by (simp add: heap_ok_def obj_ok_def cong: option.case_cong)
  moreover have "L - {r} \<union> set (refs t) = L \<union> set (refs s)" using pools(2) r by auto
  ultimately have "pool_ok z (L - {r}) t" using ok pools by (auto simp: pool_ok_def)
  moreover have "keeps (L - {r}) s t" using t by (auto simp: keeps_def)
  ultimately show ?thesis by simp
qed

lemma release_ok:
  assumes ok: "pool_ok z L s" and z: "sz_min z \<le> sz_max z" and r: "r \<in> L"
  shows "pool_ok z (L - {r}) (release z r s) \<and> keeps (L - {r}) s (release z r s)"
proof -
  have oks: "obj_ok s r" using ok r by (simp add: pool_ok_def heap_ok_def)
  then have len: "r < length (bs_objs s)" by (simp add: obj_ok_def)
  have zero: "pool_ok z (L - {r}) t \<and> keeps (L - {r}) s t" if t: "t = set_obj r nil_obj (s\<lparr>bs_zero := bs_zero s @ [r]\<rparr>)" for t
  proof (rule released_to_pools [OF ok r, of nil_obj])
    assume put: "pools_ok z (set_obj r nil_obj s)" "r \<notin> set (refs (set_obj r nil_obj s))"
    have "t = (set_obj r nil_obj s)\<lparr>bs_zero := bs_zero (set_obj r nil_obj s) @ [r]\<rparr>" unfolding t by (simp add: set_obj_def)
    then show "pools_ok z t \<and> set (refs t) = insert r (set (refs s))"
      using pools_put_zero [OF put] len by (simp add: nil_obj_def)
  qed (simp_all add: t set_obj_def)
  show ?thesis using oks
  proof (cases rule: obj_ok_cases)
    case bare
    then show ?thesis by (intro zero) (simp add: release_def nil_obj_def)
  next
    case (based a n)
    define idx where "idx = bucketIndexForExactCap z (int (length (bs_arrays s ! a)))"
    show ?thesis
    proof (cases "idx < 0")
      case True
      then show ?thesis using based by (intro zero) (simp add: release_def Let_def idx_def)
    next
      case False
      then have idx: "nat idx \<le> sz_max z - sz_min z" "length (bs_arrays s ! a) = 2 ^ (sz_min z + nat idx)"
        using exact_cap_bucket [OF _ z] by (simp_all add: idx_def)
      define x where "x = \<lparr>pb_B = Some (a, 0 :: nat), pb_base = Some a\<rparr>"
      have t: "release z r s = (set_obj r x s)\<lparr>bs_buckets := (bs_buckets (set_obj r x s))[nat idx := bs_buckets (set_obj r x s) ! nat idx @ [r]]\<rparr>"
        using based False by (simp add: release_def Let_def idx_def x_def set_obj_def)
      show ?thesis
      proof (rule released_to_pools [OF ok r, of x])
        assume put: "pools_ok z (set_obj r x s)" "r \<notin> set (refs (set_obj r x s))"
        have "in_bucket z (set_obj r x s) (nat idx) r" using idx(2) len by (simp add: in_bucket_def x_def)
        moreover have "nat idx < length (bs_buckets (set_obj r x s))" using idx(1) put(1) by (simp add: pools_ok_def)
        ultimately show "pools_ok z (release z r s) \<and> set (refs (release z r s)) = insert r (set (refs s))"
          unfolding t using pools_put_bucket [OF put] by simp
      qed (use based in \<open>simp_all add: t x_def\<close>)
    qed
  qed
qed

section \<open>Writing and growing\<close>

lemma keeps_update:
  assumes "\<And>q. q \<in> Q \<Longrightarrow> pb_base (bs_objs s ! q) \<noteq> Some a"
  shows "keeps Q s (s\<lparr>bs_arrays := (bs_arrays s)[a := ys]\<rparr>)"
proof -
  have "(bs_arrays s)[a := ys] ! b = bs_arrays s ! b" if "q \<in> Q" "pb_base (bs_objs s ! q) = Some b" for q b
    using assms [OF that(1)] that(2) by (intro nth_list_update_neq) auto
  then show ?thesis by (simp add: keeps_def)
qed

text \<open>The owner of an array may change it; nobody else sees the change.\<close>

lemma write_own:
  assumes ok: "pool_ok z L s" and r: "r \<in> L" and a: "pb_base (bs_objs s ! r) = Some a"
    and ys: "length ys = length (bs_arrays s ! a)" "n \<le> length ys"
  defines "s' \<equiv> set_obj r \<lparr>pb_B = Some (a, n), pb_base = Some a\<rparr> (s\<lparr>bs_arrays := (bs_arrays s)[a := ys]\<rparr>)"
  shows "pool_ok z L s'" "keeps (L - {r}) s s'" "contents s' r = take n ys" "room_of s' r = length ys - n"
    "pb_base (bs_objs s' ! r) = Some a" "pb_B (bs_objs s' ! r) = Some (a, n)" "bs_arrays s' ! a = ys"
proof -
  define t where "t = s\<lparr>bs_arrays := (bs_arrays s)[a := ys]\<rparr>"
  have s': "s' = set_obj r \<lparr>pb_B = Some (a, n), pb_base = Some a\<rparr> t" by (simp add: s'_def t_def)
  have heap: "heap_ok (L \<union> set (refs s)) s" using ok by (simp add: pool_ok_def)
  have oks: "obj_ok s r" using heap r by (simp add: heap_ok_def)
  then have al: "a < length (bs_arrays s)" "r < length (bs_objs s)" using a by (simp_all add: obj_ok_def)
  have lens: "length ((bs_arrays s)[a := ys] ! b) = length (bs_arrays s ! b)" for b
    using ys al by (cases "b = a") simp_all
  have "heap_ok (L \<union> set (refs s)) t"
    using heap by (simp add: heap_ok_def obj_ok_def t_def lens cong: option.case_cong)
  then have heap': "heap_ok (L \<union> set (refs s)) s'"
    unfolding s' by (rule heap_set) (use r a ys al in \<open>auto simp: t_def\<close>)
  have own: "pb_base (bs_objs s ! q) \<noteq> Some a" if "q \<in> L \<union> set (refs s)" "q \<noteq> r" for q
  proof
    assume "pb_base (bs_objs s ! q) = Some a"
    then show False using heap that r a unfolding heap_ok_def by (metis UnI1 option.discI)
  qed
  have "keeps (L \<union> set (refs s) - {r}) s t" unfolding t_def using own by (intro keeps_update) auto
  then have keep: "keeps (L \<union> set (refs s) - {r}) s s'" by (auto simp: s' keeps_def)
  moreover have apart: "r \<notin> set (refs s)" using ok r by (auto simp: pool_ok_def)
  moreover have refs: "refs s' = refs s" by (simp add: s' t_def refs_def)
  ultimately have "pools_ok z s'"
    using ok by (intro pools_kept [OF _ keep]) (auto simp: pool_ok_def s' t_def)
  then show "pool_ok z L s'" using heap' ok refs by (simp add: pool_ok_def)
  show "keeps (L - {r}) s s'" by (rule keeps_mono [OF keep]) auto
  show "contents s' r = take n ys" "room_of s' r = length ys - n" "pb_base (bs_objs s' ! r) = Some a"
      "pb_B (bs_objs s' ! r) = Some (a, n)" "bs_arrays s' ! a = ys"
    using al by (simp_all add: s' t_def contents_def room_of_def cap_of_def used_of_def)
qed

lemma set_obj_same: "r < length (bs_objs s) \<Longrightarrow> bs_objs s ! r = x \<Longrightarrow> set_obj r x s = s"
  by (auto simp: set_obj_def)

lemma append_room:
  fixes slack :: nat
  assumes ok: "pool_ok z L s" and r: "r \<in> L" and room: "length v \<le> room_of s r"
  defines "s' \<equiv> append_to z slack r v s"
  shows "pool_ok z L s' \<and> keeps (L - {r}) s s' \<and> contents s' r = contents s r @ v \<and> room_of s' r = room_of s r - length v
    \<and> pb_base (bs_objs s' ! r) = pb_base (bs_objs s ! r)"
proof -
  have oks: "obj_ok s r" using ok r by (simp add: pool_ok_def heap_ok_def)
  show ?thesis
  proof (cases "v = []")
    case True
    then have "s' = s" using oks by (simp add: s'_def append_to_def slice_append_def obj_ok_def set_obj_same)
    then show ?thesis using ok True by simp
  next
    case False
    from oks show ?thesis
    proof (cases rule: obj_ok_cases)
      case bare
      then show ?thesis using room False by (simp add: room_of_def cap_of_def nil_obj_def)
    next
      case (based a n)
      have fits: "n + length v \<le> length (bs_arrays s ! a)" using room based by (simp add: room_of_def cap_of_def used_of_def)
      define ys where "ys = take n (bs_arrays s ! a) @ v @ drop (n + length v) (bs_arrays s ! a)"
      have "s' = set_obj r \<lparr>pb_B = Some (a, n + length v), pb_base = Some a\<rparr> (s\<lparr>bs_arrays := (bs_arrays s)[a := ys]\<rparr>)"
        using based fits False by (simp add: s'_def append_to_def slice_append_def used_of_def cap_of_def ys_def)
      moreover have "pb_base (bs_objs s ! r) = Some a" "length ys = length (bs_arrays s ! a)" "n + length v \<le> length ys"
        using based fits by (simp_all add: ys_def)
      moreover have "take (n + length v) ys = contents s r @ v" "length ys - (n + length v) = room_of s r - length v"
        using based fits by (simp_all add: ys_def contents_def room_of_def cap_of_def used_of_def)
      ultimately show ?thesis using write_own [OF ok r, of a ys "n + length v"] by simp
    qed
  qed
qed

definition unowned :: "nat set \<Rightarrow> 'e store \<Rightarrow> nat \<Rightarrow> bool" where
  "unowned L s a \<longleftrightarrow> (\<forall>q \<in> L \<union> set (refs s). pb_base (bs_objs s ! q) \<noteq> Some a)"

lemma clear_slice_ok:
  assumes ok: "pool_ok z L s" and a: "unowned L s a" "n \<le> length (bs_arrays s ! a)"
  defines "s' \<equiv> clear_slice z (Some (a, n)) s"
  shows "pool_ok z L s'" "keeps L s s'" "unowned L s' a" "length (bs_arrays s') = length (bs_arrays s)"
proof -
  have keep: "keeps (L \<union> set (refs s)) s s'"
    using a(1) keeps_update [of "L \<union> set (refs s)" s a] by (simp add: s'_def clear_slice_def unowned_def)
  have same: "refs s' = refs s" "bs_objs s' = bs_objs s" by (simp_all add: s'_def clear_slice_def refs_def)
  have "pools_ok z s'" using ok by (intro pools_kept [OF _ keep]) (auto simp: pool_ok_def s'_def clear_slice_def)
  moreover have "obj_ok s' q" if "q \<in> L \<union> set (refs s)" for q
    using keeps_ok(1) [OF keep that] ok that by (auto simp: pool_ok_def heap_ok_def)
  ultimately show "pool_ok z L s'" using ok same by (simp add: pool_ok_def heap_ok_def)
  show "keeps L s s'" by (rule keeps_mono [OF keep]) simp
  show "unowned L s' a" using a(1) same by (simp add: unowned_def)
  show "length (bs_arrays s') = length (bs_arrays s)" by (simp add: s'_def clear_slice_def)
qed

lemma release_base_ok:
  assumes ok: "pool_ok z L s" and z: "sz_min z \<le> sz_max z" and a: "unowned L s a" "a < length (bs_arrays s)"
  shows "pool_ok z L (release_base z (Some a) s) \<and> keeps L s (release_base z (Some a) s)"
proof (cases "bucketIndexForExactCap z (int (length (bs_arrays s ! a))) < 0")
  case True
  then show ?thesis using ok by (simp add: release_base_def Let_def)
next
  case False
  define i where "i = nat (bucketIndexForExactCap z (int (length (bs_arrays s ! a))))"
  have i: "i \<le> sz_max z - sz_min z" "length (bs_arrays s ! a) = 2 ^ (sz_min z + i)"
    using exact_cap_bucket [OF _ z] False by (simp_all add: i_def)
  define x where "x = \<lparr>pb_B = Some (a, 0 :: nat), pb_base = Some a\<rparr>"
  define t where "t = s\<lparr>bs_objs := bs_objs s @ [x]\<rparr>"
  let ?r = "length (bs_objs s)"
  have s': "release_base z (Some a) s = t\<lparr>bs_buckets := (bs_buckets t)[i := bs_buckets t ! i @ [?r]]\<rparr>"
    using False by (simp add: release_base_def Let_def new_obj_def i_def t_def x_def)
  have heap: "heap_ok (L \<union> set (refs s)) s" and pools: "pools_ok z s" using ok by (simp_all add: pool_ok_def)
  have old: "q < ?r" if "q \<in> L \<union> set (refs s)" for q using heap that by (auto simp: heap_ok_def obj_ok_def)
  have keep: "keeps (L \<union> set (refs s)) s t" using old by (auto simp: keeps_def t_def nth_append)
  have "obj_ok t q" if "q \<in> L \<union> set (refs s)" for q using keeps_ok(1) [OF keep that] heap that by (simp add: heap_ok_def)
  moreover have "obj_ok t ?r" using a(2) by (simp add: obj_ok_def t_def x_def)
  moreover have "bs_objs t ! q = bs_objs s ! q" if "q \<in> L \<union> set (refs s)" for q using keep that by (simp add: keeps_def)
  moreover have "pb_base (bs_objs t ! ?r) = Some a" by (simp add: t_def x_def)
  ultimately have ht: "heap_ok (insert ?r (L \<union> set (refs s))) t"
    using heap a(1) unfolding heap_ok_def unowned_def by (metis insert_iff)
  have refs: "refs t = refs s" by (simp add: t_def refs_def)
  have "pools_ok z t" using pools by (intro pools_kept [OF _ keep]) (auto simp: t_def)
  moreover have fresh: "?r \<notin> L" "?r \<notin> set (refs t)" using old refs by auto
  moreover have "in_bucket z t i ?r" using i(2) by (simp add: in_bucket_def t_def x_def)
  moreover have "i < length (bs_buckets t)" using i(1) pools by (simp add: pools_ok_def t_def)
  ultimately have put: "pools_ok z (release_base z (Some a) s)" "set (refs (release_base z (Some a) s)) = insert ?r (set (refs s))"
    unfolding s' using pools_put_bucket [of z t ?r i] refs by simp_all
  moreover have "heap_ok (L \<union> insert ?r (set (refs s))) (release_base z (Some a) s)" using ht by (simp add: s')
  ultimately have "pool_ok z L (release_base z (Some a) s)" using ok fresh(1) by (auto simp: pool_ok_def)
  moreover have "keeps L s (release_base z (Some a) s)" using keeps_mono [OF keep, of L] by (simp add: s' keeps_def)
  ultimately show ?thesis by simp
qed

lemma swap_ok:
  assumes ok: "pool_ok z (insert r' L) s" and r: "r \<in> L" "r' \<notin> L"
  defines "s' \<equiv> set_obj r' nil_obj (set_obj r (bs_objs s ! r') s)"
  shows "pool_ok z L s'" "keeps (L - {r}) s s'" "contents s' r = contents s r'" "room_of s' r = room_of s r'"
    "pb_base (bs_objs s ! r) = Some a \<Longrightarrow> unowned L s' a"
proof -
  let ?W = "insert r' L \<union> set (refs s)"
  have heap: "heap_ok ?W s" using ok by (simp add: pool_ok_def)
  then have len: "r < length (bs_objs s)" "r' < length (bs_objs s)" using r by (simp_all add: heap_ok_def obj_ok_def)
  have obj: "bs_objs s' ! q = (if q = r then bs_objs s ! r' else bs_objs s ! q)" if "q \<noteq> r'" for q
    using len that r by (auto simp: s'_def)
  have apart: "r \<notin> set (refs s)" "r' \<notin> set (refs s)" using ok r by (auto simp: pool_ok_def)
  have other: "bs_objs s' ! q = bs_objs s ! q" if "q \<in> L \<union> set (refs s) - {r}" for q using obj [of q] that apart r by auto

  have keep: "keeps (L \<union> set (refs s) - {r}) s s'" using other by (simp add: keeps_def s'_def)
  have "r \<noteq> r'" using r by auto
  then have "bs_objs s' ! r = bs_objs s ! r'" "bs_arrays s' = bs_arrays s" "length (bs_objs s') = length (bs_objs s)"
    using obj [of r] by (simp_all add: s'_def)
  moreover have "obj_ok s r'" using heap by (simp add: heap_ok_def)
  ultimately have mine: "obj_ok s' r" using len by (simp add: obj_ok_def cong: option.case_cong)
  have "obj_ok s' q" if "q \<in> L \<union> set (refs s)" for q
  proof (cases "q = r")
    case False
    then show ?thesis using keeps_ok(1) [OF keep, of q] heap that by (auto simp: heap_ok_def)
  qed (simp add: mine)
  moreover have inj: "q = p" if "q \<in> ?W" "p \<in> ?W" "pb_base (bs_objs s ! q) = pb_base (bs_objs s ! p)" "pb_base (bs_objs s ! q) \<noteq> None" for p q
    using heap that unfolding heap_ok_def by blast
  moreover have src: "\<exists>q' \<in> ?W. bs_objs s' ! q = bs_objs s ! q' \<and> (q' = r' \<longleftrightarrow> q = r) \<and> (q \<noteq> r \<longrightarrow> q' = q)" if "q \<in> L \<union> set (refs s)" for q
    using that obj [of q] r apart by (cases "q = r") auto
  ultimately have "heap_ok (L \<union> set (refs s)) s'"
    unfolding heap_ok_def by (metis (no_types, lifting))
  moreover have "refs s' = refs s" by (simp add: s'_def)
  moreover have "pools_ok z s'" using ok apart by (auto simp: s'_def pool_ok_def intro!: pools_set_other)
  ultimately show "pool_ok z L s'" using ok by (simp add: pool_ok_def)
  show "keeps (L - {r}) s s'" by (rule keeps_mono [OF keep]) auto
  have "bs_objs s' ! r = bs_objs s ! r'" using obj [of r] r by auto
  then show "contents s' r = contents s r'" "room_of s' r = room_of s r'"
    by (simp_all add: contents_def room_of_def cap_of_def s'_def cong: option.case_cong)
  show "unowned L s' a" if "pb_base (bs_objs s ! r) = Some a"
    using that src inj [of _ r] r \<open>refs s' = refs s\<close> unfolding unowned_def by (metis Un_iff insert_iff option.discI)
qed

lemma contents_len: "obj_ok s r \<Longrightarrow> length (contents s r) = used_of (pb_B (bs_objs s ! r))"
  by (erule obj_ok_cases) (auto simp: contents_def used_of_def nil_obj_def)

lemma ensure_ok:
  fixes clear :: bool and extra :: int and pick :: "nat list \<Rightarrow> nat option"
  assumes ok: "pool_ok z L s" and z: "sz_min z \<le> sz_max z" and r: "r \<in> L"
  defines "s' \<equiv> ensure z clear pick r extra s"
  shows "pool_ok z L s' \<and> keeps (L - {r}) s s' \<and> contents s' r = contents s r \<and> extra \<le> int (room_of s' r)"
proof -
  have oks: "obj_ok s r" using ok r by (simp add: pool_ok_def heap_ok_def)
  let ?x = "bs_objs s ! r"
  let ?len = "used_of (pb_B ?x)"
  have le: "?len \<le> cap_of s (pb_B ?x)" using oks by (cases rule: obj_ok_cases) (auto simp: used_of_def cap_of_def nil_obj_def)
  show ?thesis
  proof (cases "extra \<le> 0 \<or> int (cap_of s (pb_B ?x)) - int ?len \<ge> extra")
    case True
    then have "s' = s" by (auto simp: s'_def ensure_def Let_def)
    then show ?thesis using True ok le by (auto simp: room_of_def of_nat_diff)
  next
    case False
    obtain r' s1 where acq: "acquire z pick (int ?len + extra) s = (r', s1)" by fastforce
    have fresh: "pool_ok z (insert r' L) s1" "r' \<notin> L" "contents s1 r' = []" "int ?len + extra \<le> int (room_of s1 r')" "keeps L s s1"
      using acquire_fresh [OF ok z acq] by (simp_all add: handed_out_def)
    define old where "old = (case pb_B ?x of None \<Rightarrow> [] | Some (a, n) \<Rightarrow> take n (bs_arrays s1 ! a))"
    have "bs_objs s1 ! r = ?x" using fresh(5) r by (simp add: keeps_def)
    then have old: "old = contents s r" using keeps_ok(2) [OF fresh(5) r oks] by (simp add: old_def contents_def)
    then have oldlen: "length old = ?len" using contents_len [OF oks] by simp
    define s2 where "s2 = append_to z 0 r' old s1"
    have app: "pool_ok z (insert r' L) s2" "keeps L s1 s2" "contents s2 r' = old" "room_of s2 r' = room_of s1 r' - ?len"
      using append_room [OF fresh(1), of r' old 0] fresh(2-4) False oldlen by (auto simp: s2_def intro: keeps_mono)
    have kept: "keeps L s s2" by (rule keeps_trans [OF fresh(5) app(2)])
    define s3 where "s3 = set_obj r' nil_obj (set_obj r (bs_objs s2 ! r') s2)"
    note sw = swap_ok [OF app(1) r fresh(2), folded s3_def]
    have k3: "keeps (L - {r}) s s3" by (rule keeps_trans [OF keeps_mono [OF kept] sw(2)]) auto
    have r3: "extra \<le> int (room_of s3 r)" "contents s3 r = contents s r" using sw(3,4) app(3,4) fresh(4) old by simp_all
    define s4 where "s4 = (if clear \<and> pb_base ?x \<noteq> None then clear_slice z (pb_B ?x) s3 else s3)"
    have s': "s' = release_base z (pb_base ?x) s4"
      using False acq by (auto simp: s'_def ensure_def Let_def s4_def s3_def s2_def old_def)
    have fin: ?thesis if "pool_ok z L s' \<and> keeps L s3 s'"
    proof -
      have "obj_ok s3 r" using sw(1) r by (simp add: pool_ok_def heap_ok_def)
      then show ?thesis
        using that keeps_ok(2,3) [of L s3 s' r] r r3 keeps_trans [OF k3 keeps_mono [of L s3 s']] by auto
    qed
    from oks show ?thesis
    proof (cases rule: obj_ok_cases)
      case bare
      then have "s' = s3" by (simp add: s' s4_def release_base_def nil_obj_def)
      then show ?thesis using sw(1) by (intro fin) simp
    next
      case (based a n)
      have base2: "pb_base (bs_objs s2 ! r) = Some a" "bs_arrays s2 ! a = bs_arrays s ! a" "a < length (bs_arrays s3)"
        using kept r based by (auto simp: keeps_def s3_def)
      have s4: "pool_ok z L s4" "keeps L s3 s4" "unowned L s4 a" "length (bs_arrays s4) = length (bs_arrays s3)"
        using clear_slice_ok [OF sw(1) sw(5) [OF base2(1)], of n] based sw(1) sw(5) [OF base2(1)] base2(2)
        by (simp_all add: s4_def s3_def split: if_splits)
      show ?thesis
        using release_base_ok [OF s4(1) z s4(3)] base2(3) s4(2,4) based
        by (intro fin) (auto simp: s' intro: keeps_trans)
    qed
  qed
qed

end
