(* ===== verification/ByteBatch.thy ===== *)
theory ByteBatch
  imports BytePool
begin

text \<open>
  The clients of the buffer pools: the appending methods of \<^verbatim>\<open>pooledBytes\<close>, the batches of \<^verbatim>\<open>bytepool.go\<close> that keep many
  arguments in one buffer, \<^verbatim>\<open>readAllPooled\<close>, and the frames of \<^verbatim>\<open>frame.go\<close>. The locale \<open>buffers\<close> is what
  they rely on: whatever a pool hands out and takes back, buffers behave as byte strings of their own.
\<close>

section \<open>The estimates are enough\<close>

lemma format_nat_length: "n < 10 ^ k \<Longrightarrow> 0 < k \<Longrightarrow> length (format_nat n) \<le> k"
proof (induction n arbitrary: k rule: format_nat.induct)
  case (1 n)
  show ?case
  proof (cases "n < 10")
    case True
    then show ?thesis using 1 by (simp add: format_nat.simps [of n])
  next
    case False
    then obtain j where k: "k = Suc j" "0 < j" using "1.prems" by (cases k; cases "k - 1") auto
    then have "n div 10 < 10 ^ j" using "1.prems"(1) by (simp add: div_less_iff_less_mult mult.commute)
    then have "length (format_nat (n div 10)) \<le> j" using "1.IH" False k by simp
    then show ?thesis using False k by (simp add: format_nat.simps [of n])
  qed
qed

lemma format_uint_length: "length (format_uint v) \<le> 20"
proof -
  have "unat v < 2 ^ 64" using unsigned_less [of v] by simp
  then have "unat v < 10 ^ 20" by simp
  then show ?thesis unfolding format_uint_def by (rule format_nat_length) simp
qed

lemma format_int_length: "length (format_int (sint (v :: u64))) \<le> 20"
proof -
  have "- (2 ^ 63) \<le> sint v" "sint v < 2 ^ 63" using sint_greater_eq [of v] sint_less [of v] by simp_all
  then have "nat (- sint v) < 10 ^ 19" "nat (sint v) < 10 ^ 20" by simp_all
  then show ?thesis
    using format_nat_length [of "nat (- sint v)" 19] format_nat_length [of "nat (sint v)" 20] by (simp add: format_int_def)
qed

lemma hex_digits_length [simp]: "length (hex_digits k v) = k"
  by (induction k) auto

lemma decode_rune_width: "decode_rune s = Some (r, w) \<Longrightarrow> 0 < w \<and> w \<le> length s \<and> (128 \<le> r \<longrightarrow> 2 \<le> w)"
  by (cases s) (auto simp: Let_def split: if_splits list.splits)

lemma escaped_rune_length:
  assumes "0 < w" "128 \<le> r \<longrightarrow> 2 \<le> w" "length raw = w"
  shows "length (escaped_rune isprint r raw) \<le> 6 * w"
  using assms by (auto simp: escaped_rune_def)

lemma quote_runes_length: "length (quote_runes isprint s) \<le> 6 * length s"
proof (induction isprint s rule: quote_runes.induct)
  case (2 isprint b bs)
  show ?case
  proof (cases "decode_rune (b # bs)")
    case None
    then show ?thesis using 2 by simp
  next
    case (Some rw)
    then obtain r w where rw: "decode_rune (b # bs) = Some (r, w)" by (cases rw) auto
    note w = decode_rune_width [OF rw]
    have "length (escaped_rune isprint r (take w (b # bs))) \<le> 6 * w" using w by (intro escaped_rune_length) auto
    moreover have "length (quote_runes isprint (drop (w - 1) bs)) \<le> 6 * length (drop (w - 1) bs)" using 2(2) [OF rw] by simp
    moreover have "length (drop (w - 1) bs) + w = Suc (length bs)" using w by simp
    ultimately show ?thesis using rw by simp
  qed
qed simp

lemma quote_length: "length (quote isprint s) \<le> 6 * length s + 2"
  using quote_runes_length [of isprint s] by (simp add: quote_def)

section \<open>Writing to a buffer\<close>

datatype byte_write = WBytes bytes | WByte byte | WUint u64 | WInt u64 | WQuote bytes

fun write_text :: "(nat \<Rightarrow> bool) \<Rightarrow> byte_write \<Rightarrow> bytes" where
  "write_text isprint (WBytes v) = v"
| "write_text isprint (WByte v) = [v]"
| "write_text isprint (WUint v) = format_uint v"
| "write_text isprint (WInt v) = format_int (sint v)"
| "write_text isprint (WQuote v) = quote isprint v"

fun bytes_write :: "(nat \<Rightarrow> bool) \<Rightarrow> (nat list \<Rightarrow> nat option) \<times> nat \<Rightarrow> nat \<Rightarrow> byte_write \<Rightarrow> byte store \<Rightarrow> byte store" where
  "bytes_write isprint (pick, slack) r (WBytes v) s = bytes_AppendBytes pick slack r v s"
| "bytes_write isprint (pick, slack) r (WByte v) s = bytes_AppendByte pick slack r v s"
| "bytes_write isprint (pick, slack) r (WUint v) s = bytes_AppendUint pick slack r v s"
| "bytes_write isprint (pick, slack) r (WInt v) s = bytes_AppendInt pick slack r (sint v) s"
| "bytes_write isprint (pick, slack) r (WQuote v) s = bytes_AppendQuote isprint pick slack r v s"

lemma byte_sizes_le [simp]: "sz_min byte_sizes \<le> sz_max byte_sizes"
  by (simp add: byte_sizes_def)

lemma view_sizes_le [simp]: "sz_min view_sizes \<le> sz_max view_sizes"
  by (simp add: view_sizes_def)

text \<open>Making room first, every append is in place: the slice of an object never leaves its base.\<close>

lemma ensured_append:
  fixes slack :: nat and clear :: bool and pick :: "nat list \<Rightarrow> nat option"
  assumes ok: "pool_ok z L s" and z: "sz_min z \<le> sz_max z" and r: "r \<in> L" and v: "int (length v) \<le> extra"
  defines "s' \<equiv> append_to z slack r v (ensure z clear pick r extra s)"
  shows "pool_ok z L s' \<and> keeps (L - {r}) s s' \<and> contents s' r = contents s r @ v"
proof -
  define t where "t = ensure z clear pick r extra s"
  have t: "pool_ok z L t" "keeps (L - {r}) s t" "contents t r = contents s r" "extra \<le> int (room_of t r)"
    using ensure_ok [OF ok z r, of clear pick extra] by (simp_all add: t_def)
  then show ?thesis
    using append_room [OF t(1) r, of v slack] v unfolding s'_def t_def [symmetric] by (auto intro: keeps_trans)
qed

lemma bytes_write_ok:
  assumes ok: "pool_ok byte_sizes L s" and r: "r \<in> L"
  shows "pool_ok byte_sizes L (bytes_write isprint p r w s) \<and> keeps (L - {r}) s (bytes_write isprint p r w s)
    \<and> contents (bytes_write isprint p r w s) r = contents s r @ write_text isprint w"
proof -
  obtain pick slack where p: "p = (pick, slack)" by (cases p)
  have go: "pool_ok byte_sizes L (append_to byte_sizes slack r v (bytes_Ensure pick r extra s))
      \<and> keeps (L - {r}) s (append_to byte_sizes slack r v (bytes_Ensure pick r extra s))
      \<and> contents (append_to byte_sizes slack r v (bytes_Ensure pick r extra s)) r = contents s r @ v" if "int (length v) \<le> extra" for v extra
    using ensured_append [OF ok byte_sizes_le r that] by (simp add: bytes_Ensure_def)
  have quoted: "int (length (quote isprint v)) \<le> int (length v) * 6 + 2" for v using quote_length [of isprint v] by linarith
  have digits: "int (length (format_uint u)) \<le> 20" "int (length (format_int (sint u))) \<le> 20" for u
    using format_uint_length [of u] format_int_length [of u] by linarith+
  show ?thesis
    unfolding p using go [OF quoted] go [OF digits(1)] go [OF digits(2)]
    by (cases w) (simp_all add: go bytes_AppendBytes_def bytes_AppendByte_def bytes_AppendUint_def bytes_AppendInt_def bytes_AppendQuote_def)
qed

lemma views_Append_ok:
  fixes slack :: nat and pick :: "nat list \<Rightarrow> nat option" and item :: view
  assumes ok: "pool_ok view_sizes L s" and r: "r \<in> L"
  defines "s' \<equiv> views_Append pick slack r item s"
  shows "pool_ok view_sizes L s' \<and> keeps (L - {r}) s s' \<and> contents s' r = contents s r @ [item]"
proof (cases "used_of (pb_B (bs_objs s ! r)) = cap_of s (pb_B (bs_objs s ! r))")
  case True
  then have "s' = append_to view_sizes slack r [item] (ensure view_sizes True pick r 1 s)"
    by (simp add: s'_def views_Append_def views_Grow_def)
  then show ?thesis using ensured_append [OF ok view_sizes_le r, of "[item]" 1] by simp
next
  case False
  have "obj_ok s r" using ok r by (simp add: pool_ok_def heap_ok_def)
  then have "used_of (pb_B (bs_objs s ! r)) < cap_of s (pb_B (bs_objs s ! r))"
    using False by (cases rule: obj_ok_cases) (auto simp: used_of_def cap_of_def nil_obj_def)
  then show ?thesis
    using append_room [OF ok r, of "[item]" slack] False by (simp add: s'_def views_Append_def room_of_def)
qed

lemma views_Release_ok:
  assumes ok: "pool_ok view_sizes L s" and r: "r \<in> L"
  shows "pool_ok view_sizes (L - {r}) (views_Release r s) \<and> keeps (L - {r}) s (views_Release r s)"
proof -
  have oks: "obj_ok s r" using ok r by (simp add: pool_ok_def heap_ok_def)
  then show ?thesis
  proof (cases rule: obj_ok_cases)
    case bare
    then show ?thesis using release_ok [OF ok view_sizes_le r] by (simp add: views_Release_def nil_obj_def)
  next
    case (based a n)
    define ys where "ys = replicate n (sz_nil view_sizes) @ drop n (bs_arrays s ! a)"
    define t where "t = s\<lparr>bs_arrays := (bs_arrays s)[a := ys]\<rparr>"
    have same: "set_obj r \<lparr>pb_B = Some (a, n), pb_base = Some a\<rparr> t = t"
      using based by (intro set_obj_same) (simp_all add: t_def)
    have "length ys = length (bs_arrays s ! a)" "n \<le> length ys" "pb_base (bs_objs s ! r) = Some a" using based by (simp_all add: ys_def)
    then have t: "pool_ok view_sizes L t" "keeps (L - {r}) s t"
      using write_own [OF ok r, of a ys n] same by (simp_all add: t_def)
    have "views_Release r s = release view_sizes r t"
      using based by (simp add: views_Release_def clear_slice_def t_def ys_def)
    then show ?thesis using release_ok [OF t(1) view_sizes_le r] t(2) by (auto intro: keeps_trans)
  qed
qed

section \<open>Buffers\<close>

text \<open>
  What a client relies on. \<open>ok L\<close> holds of a store in which the buffers in \<open>L\<close> are in use; a choice of type \<open>'p\<close> says what
  the pools return.
\<close>

locale buffers =
  fixes ok :: "nat set \<Rightarrow> 's \<Rightarrow> bool"
    and get :: "'p \<Rightarrow> int \<Rightarrow> 's \<Rightarrow> nat \<times> 's"
    and put :: "'p \<Rightarrow> nat \<Rightarrow> 'w \<Rightarrow> 's \<Rightarrow> 's"
    and free :: "nat \<Rightarrow> 's \<Rightarrow> 's"
    and read :: "'s \<Rightarrow> nat \<Rightarrow> 'e list"
    and written :: "'w \<Rightarrow> 'e list"
  assumes get_ok: "ok L s \<Longrightarrow> get p n s = (r, s') \<Longrightarrow> ok (insert r L) s' \<and> r \<notin> L \<and> read s' r = []"
    and get_others: "ok L s \<Longrightarrow> get p n s = (r, s') \<Longrightarrow> q \<in> L \<Longrightarrow> read s' q = read s q"
    and put_ok: "ok L s \<Longrightarrow> r \<in> L \<Longrightarrow> ok L (put p r w s) \<and> read (put p r w s) r = read s r @ written w"
    and put_others: "ok L s \<Longrightarrow> r \<in> L \<Longrightarrow> q \<in> L \<Longrightarrow> q \<noteq> r \<Longrightarrow> read (put p r w s) q = read s q"
    and free_ok: "ok L s \<Longrightarrow> r \<in> L \<Longrightarrow> ok (L - {r}) (free r s)"
    and free_others: "ok L s \<Longrightarrow> r \<in> L \<Longrightarrow> q \<in> L \<Longrightarrow> q \<noteq> r \<Longrightarrow> read (free r s) q = read s q"

datatype ('p, 'w) buffer_op = Get 'p int | Put 'p nat 'w | Free nat

text \<open>
  A program runs on the pools and, beside them, on a map from buffers to strings; it uses a buffer only from the call that gave it until
  the call that returned it.
\<close>

fun buffer_step :: "('p \<Rightarrow> int \<Rightarrow> 's \<Rightarrow> nat \<times> 's) \<Rightarrow> ('p \<Rightarrow> nat \<Rightarrow> 'w \<Rightarrow> 's \<Rightarrow> 's) \<Rightarrow> (nat \<Rightarrow> 's \<Rightarrow> 's) \<Rightarrow> ('w \<Rightarrow> 'e list)
    \<Rightarrow> (nat \<Rightarrow> 'e list option) \<times> 's \<Rightarrow> ('p, 'w) buffer_op \<Rightarrow> (nat \<Rightarrow> 'e list option) \<times> 's" where
  "buffer_step get put free written (m, s) (Get p n) = (let (r, s') = get p n s in (m(r \<mapsto> []), s'))"
| "buffer_step get put free written (m, s) (Put p r w) =
     (case m r of None \<Rightarrow> (m, s) | Some v \<Rightarrow> (m(r \<mapsto> v @ written w), put p r w s))"
| "buffer_step get put free written (m, s) (Free r) = (case m r of None \<Rightarrow> (m, s) | Some _ \<Rightarrow> (m(r := None), free r s))"

definition buffers_agree :: "(nat set \<Rightarrow> 's \<Rightarrow> bool) \<Rightarrow> ('s \<Rightarrow> nat \<Rightarrow> 'e list) \<Rightarrow> (nat \<Rightarrow> 'e list option) \<times> 's \<Rightarrow> bool" where
  "buffers_agree ok read st \<longleftrightarrow> ok (dom (fst st)) (snd st) \<and> (\<forall>r \<in> dom (fst st). fst st r = Some (read (snd st) r))"

context buffers
begin

lemma agree_step:
  assumes "buffers_agree ok read st"
  shows "buffers_agree ok read (buffer_step get put free written st x)"
proof -
  obtain m s where st: "st = (m, s)" by (cases st)
  have inv: "ok (dom m) s" "\<And>r. r \<in> dom m \<Longrightarrow> m r = Some (read s r)" using assms by (simp_all add: st buffers_agree_def)
  show ?thesis
  proof (cases x)
    case (Get p n)
    obtain r s' where g: "get p n s = (r, s')" by fastforce
    then show ?thesis
      using get_ok [OF inv(1) g] get_others [OF inv(1) g] inv(2) by (auto simp: Get st buffers_agree_def)
  next
    case (Put p r w)
    show ?thesis
    proof (cases "m r")
      case (Some v)
      then have r: "r \<in> dom m" by blast
      have "dom (m(r \<mapsto> v @ written w)) = dom m" using r by auto
      then show ?thesis
        using put_ok [OF inv(1) r, of p w] put_others [OF inv(1) r] inv(2) r Some by (auto simp: Put st buffers_agree_def)
    qed (use assms in \<open>simp add: Put st\<close>)
  next
    case (Free r)
    show ?thesis
    proof (cases "m r")
      case (Some v)
      then have r: "r \<in> dom m" by blast
      have "dom (m(r := None)) = dom m - {r}" by auto
      then show ?thesis
        using free_ok [OF inv(1) r] free_others [OF inv(1) r] inv(2) Some by (auto simp: Free st buffers_agree_def)
    qed (use assms in \<open>simp add: Free st\<close>)
  qed
qed

end

text \<open>With a store to begin from, running on the pools and running on strings agree at every moment.\<close>

locale started_buffers = buffers +
  fixes init :: 's
  assumes ok_init: "ok {} init"

sublocale started_buffers \<subseteq> runs: component "(\<lambda>_. None, init)" "buffer_step get put free written" "buffers_agree ok read"
  by unfold_locales (use ok_init agree_step in \<open>simp_all add: buffers_agree_def\<close>)

definition empty_store :: "'e sizes \<Rightarrow> 'e store" where
  "empty_store z = \<lparr>bs_arrays = [], bs_objs = [], bs_buckets = replicate (Suc (sz_max z - sz_min z)) [], bs_zero = []\<rparr>"

lemma empty_store_ok: "pool_ok z {} (empty_store z)"
  by (auto simp: pool_ok_def heap_ok_def pools_ok_def empty_store_def refs_def simp del: replicate.simps)

lemma kept_contents: "keeps (L - {r}) s s' \<Longrightarrow> pool_ok z L s \<Longrightarrow> q \<in> L \<Longrightarrow> q \<noteq> r \<Longrightarrow> contents s' q = contents s q"
  using keeps_ok(2) [of "L - {r}" s s' q] by (simp add: pool_ok_def heap_ok_def)

interpretation byte_buffers: started_buffers "pool_ok byte_sizes" "\<lambda>p. acquireBytes (fst p)" "bytes_write isprint" bytes_Release
    contents "write_text isprint" "empty_store byte_sizes" for isprint
proof
  fix L s p n r s'
  assume ok: "pool_ok byte_sizes L s" and get: "acquireBytes (fst p) n s = (r, s')"
  then have fresh: "handed_out byte_sizes L s r n s'" by (intro acquire_fresh) (simp_all add: acquireBytes_def)
  then show "pool_ok byte_sizes (insert r L) s' \<and> r \<notin> L \<and> contents s' r = []" by (simp add: handed_out_def)
  show "contents s' q = contents s q" if "q \<in> L" for q
    using keeps_ok(2) [of L s s' q] fresh ok that by (simp add: handed_out_def pool_ok_def heap_ok_def)
next
  fix L s r q p w
  assume ok: "pool_ok byte_sizes L s" and r: "r \<in> L"
  show "pool_ok byte_sizes L (bytes_write isprint p r w s) \<and> contents (bytes_write isprint p r w s) r = contents s r @ write_text isprint w"
    using bytes_write_ok [OF ok r] by simp
  show "contents (bytes_write isprint p r w s) q = contents s q" if "q \<in> L" "q \<noteq> r"
    by (rule kept_contents [OF _ ok that]) (use bytes_write_ok [OF ok r] in simp)
  show "pool_ok byte_sizes (L - {r}) (bytes_Release r s)"
    using release_ok [OF ok byte_sizes_le r] by (simp add: bytes_Release_def)
  show "contents (bytes_Release r s) q = contents s q" if "q \<in> L" "q \<noteq> r"
    by (rule kept_contents [OF _ ok that]) (use release_ok [OF ok byte_sizes_le r] in \<open>simp add: bytes_Release_def\<close>)
qed (rule empty_store_ok)

interpretation view_buffers: started_buffers "pool_ok view_sizes" "\<lambda>p. acquireByteViews (fst p)" "\<lambda>p. views_Append (fst p) (snd p)"
    views_Release contents "\<lambda>item. [item]" "empty_store view_sizes"
proof
  fix L s p n r s'
  assume ok: "pool_ok view_sizes L s" and get: "acquireByteViews (fst p) n s = (r, s')"
  then have fresh: "handed_out view_sizes L s r n s'" by (intro acquire_fresh) (simp_all add: acquireByteViews_def)
  then show "pool_ok view_sizes (insert r L) s' \<and> r \<notin> L \<and> contents s' r = []" by (simp add: handed_out_def)
  show "contents s' q = contents s q" if "q \<in> L" for q
    using keeps_ok(2) [of L s s' q] fresh ok that by (simp add: handed_out_def pool_ok_def heap_ok_def)
next
  fix L s r q p w
  assume ok: "pool_ok view_sizes L s" and r: "r \<in> L"
  let ?put = "views_Append (fst p) (snd p) r w s"
  show "pool_ok view_sizes L ?put \<and> contents ?put r = contents s r @ [w]"
    using views_Append_ok [OF ok r] by simp
  show "contents ?put q = contents s q" if "q \<in> L" "q \<noteq> r"
    by (rule kept_contents [OF _ ok that]) (use views_Append_ok [OF ok r] in simp)
  show "pool_ok view_sizes (L - {r}) (views_Release r s)"
    using views_Release_ok [OF ok r] by simp
  show "contents (views_Release r s) q = contents s q" if "q \<in> L" "q \<noteq> r"
    by (rule kept_contents [OF _ ok that]) (use views_Release_ok [OF ok r] in simp)
qed (rule empty_store_ok)

section \<open>Batches\<close>

text \<open>
  A batch keeps its items one after the other in one buffer and a view of each. Both are references into their stores; the fields of a
  released batch are nil and the code does not use it again, so a batch is the pair of its references.
\<close>

record mem =
  mem_bytes :: "byte store"
  mem_views :: "view store"

record byteBatch =
  bb_raw :: nat
  bb_views :: nat

type_synonym choice = "(nat list \<Rightarrow> nat option) \<times> nat"

definition acquireByteBatch :: "choice \<Rightarrow> choice \<Rightarrow> int \<Rightarrow> int \<Rightarrow> mem \<Rightarrow> byteBatch \<times> mem" where
  "acquireByteBatch p pv viewCap byteCap m =
     (let (r, s) = acquireBytes (fst p) byteCap (mem_bytes m);
          (v, vs) = acquireByteViews (fst pv) viewCap (mem_views m)
      in (\<lparr>bb_raw = r, bb_views = v\<rparr>, \<lparr>mem_bytes = s, mem_views = vs\<rparr>))"

text \<open>\<^verbatim>\<open>b[i:j]\<close>\<close>

definition slice_view :: "(nat \<times> nat) option \<Rightarrow> nat \<Rightarrow> nat \<Rightarrow> view" where
  "slice_view b i j = (case b of None \<Rightarrow> (None, 0, 0) | Some (a, _) \<Rightarrow> (Some a, i, j - i))"

fun relocate :: "(nat \<times> nat) option \<Rightarrow> nat \<Rightarrow> view list \<Rightarrow> view list" where
  "relocate b cursor [] = []"
| "relocate b cursor ((_, _, n) # vs) = slice_view b cursor (cursor + n) # relocate b (cursor + n) vs"

definition raw_slice :: "byteBatch \<Rightarrow> mem \<Rightarrow> (nat \<times> nat) option" where
  "raw_slice b m = pb_B (bs_objs (mem_bytes m) ! bb_raw b)"

definition batch_ensure :: "choice \<Rightarrow> byteBatch \<Rightarrow> int \<Rightarrow> mem \<Rightarrow> mem" where
  "batch_ensure p b extra m =
     (if extra \<le> 0 \<or> int (cap_of (mem_bytes m) (raw_slice b m)) - int (used_of (raw_slice b m)) \<ge> extra then m
      else (let m1 = m\<lparr>mem_bytes := bytes_Ensure (fst p) (bb_raw b) extra (mem_bytes m)\<rparr>
            in m1\<lparr>mem_views := copy_to (bb_views b) (relocate (raw_slice b m1) 0 (contents (mem_views m1) (bb_views b))) (mem_views m1)\<rparr>))"

text \<open>The part of the appending methods that follows \<^verbatim>\<open>ensure\<close>: write to the buffer, then append the view of what was written.\<close>

definition batch_write :: "(nat \<Rightarrow> bool) \<Rightarrow> choice \<Rightarrow> choice \<Rightarrow> byteBatch \<Rightarrow> byte_write list \<Rightarrow> mem \<Rightarrow> view \<times> mem" where
  "batch_write isprint p pv b ws m =
     (let start = used_of (raw_slice b m);
          m1 = m\<lparr>mem_bytes := run_ops (\<lambda>s w. bytes_write isprint p (bb_raw b) w s) (mem_bytes m) ws\<rparr>;
          item = slice_view (raw_slice b m1) start (used_of (raw_slice b m1))
      in (item, m1\<lparr>mem_views := views_Append (fst pv) (snd pv) (bb_views b) item (mem_views m1)\<rparr>))"

definition batch_AppendBytes :: "(nat \<Rightarrow> bool) \<Rightarrow> choice \<Rightarrow> choice \<Rightarrow> byteBatch \<Rightarrow> bytes \<Rightarrow> mem \<Rightarrow> view \<times> mem" where
  "batch_AppendBytes isprint p pv b v m = batch_write isprint p pv b [WBytes v] (batch_ensure p b (int (length v)) m)"

definition placeholder_writes :: "u64 \<Rightarrow> byte_write list" where
  "placeholder_writes num = [WBytes (''{'' @ jsonPlaceholderKey @ '':true,'' @ jsonPlaceholderNum @ '':''), WInt num, WByte (CHR ''}'')]"

definition batch_AppendPlaceholder :: "(nat \<Rightarrow> bool) \<Rightarrow> choice \<Rightarrow> choice \<Rightarrow> byteBatch \<Rightarrow> u64 \<Rightarrow> mem \<Rightarrow> view \<times> mem" where
  "batch_AppendPlaceholder isprint p pv b num m = batch_write isprint p pv b (placeholder_writes num) (batch_ensure p b 64 m)"

definition batch_Views :: "byteBatch \<Rightarrow> mem \<Rightarrow> view list" where
  "batch_Views b m = contents (mem_views m) (bb_views b)"

definition batch_Release :: "byteBatch \<Rightarrow> mem \<Rightarrow> mem" where
  "batch_Release b m = \<lparr>mem_bytes = bytes_Release (bb_raw b) (mem_bytes m), mem_views = views_Release (bb_views b) (mem_views m)\<rparr>"

text \<open>What a view shows.\<close>

definition read_view :: "mem \<Rightarrow> view \<Rightarrow> bytes" where
  "read_view m v = (case v of (None, _, _) \<Rightarrow> [] | (Some a, i, n) \<Rightarrow> take n (drop i (bs_arrays (mem_bytes m) ! a)))"

datatype batch_op = BBytes choice choice bytes | BPlaceholder choice choice u64

fun batch_step :: "(nat \<Rightarrow> bool) \<Rightarrow> byteBatch \<Rightarrow> mem \<Rightarrow> batch_op \<Rightarrow> mem" where
  "batch_step isprint b m (BBytes p pv v) = snd (batch_AppendBytes isprint p pv b v m)"
| "batch_step isprint b m (BPlaceholder p pv num) = snd (batch_AppendPlaceholder isprint p pv b num m)"

fun batch_item :: "batch_op \<Rightarrow> bytes" where
  "batch_item (BBytes p pv v) = v"
| "batch_item (BPlaceholder p pv num) = placeholder_text (sint num)"

text \<open>The views of items of the given lengths, one after the other from an offset.\<close>

fun layout :: "(nat \<times> nat) option \<Rightarrow> nat \<Rightarrow> nat list \<Rightarrow> view list" where
  "layout b c [] = []"
| "layout b c (n # ns) = slice_view b c (c + n) # layout b (c + n) ns"

definition batch_ok :: "nat set \<Rightarrow> nat set \<Rightarrow> byteBatch \<Rightarrow> bytes list \<Rightarrow> mem \<Rightarrow> bool" where
  "batch_ok L V b xs m \<longleftrightarrow> pool_ok byte_sizes (insert (bb_raw b) L) (mem_bytes m) \<and> bb_raw b \<notin> L \<and>
     pool_ok view_sizes (insert (bb_views b) V) (mem_views m) \<and> bb_views b \<notin> V \<and>
     contents (mem_bytes m) (bb_raw b) = concat xs \<and> batch_Views b m = layout (raw_slice b m) 0 (map length xs)"

subsection \<open>In place\<close>

lemma ensure_noop:
  assumes "obj_ok s r" "extra \<le> int (room_of s r)"
  shows "ensure z clear pick r extra s = s"
proof -
  have "used_of (pb_B (bs_objs s ! r)) \<le> cap_of s (pb_B (bs_objs s ! r))"
    using assms(1) by (cases rule: obj_ok_cases) (auto simp: used_of_def cap_of_def nil_obj_def)
  then have "int (room_of s r) = int (cap_of s (pb_B (bs_objs s ! r))) - int (used_of (pb_B (bs_objs s ! r)))"
    by (simp add: room_of_def of_nat_diff)
  then show ?thesis using assms(2) by (simp add: ensure_def Let_def)
qed

fun write_need :: "byte_write \<Rightarrow> nat" where
  "write_need (WBytes v) = length v"
| "write_need (WByte v) = 1"
| "write_need (WUint v) = 20"
| "write_need (WInt v) = 20"
| "write_need (WQuote v) = 6 * length v + 2"

lemma write_need_enough: "length (write_text isprint w) \<le> write_need w"
  using format_uint_length format_int_length quote_length by (cases w) auto

lemma bytes_write_eq: "bytes_write isprint p r w s =
    append_to byte_sizes (snd p) r (write_text isprint w) (bytes_Ensure (fst p) r (int (write_need w)) s)"
  by (cases p; cases w)
    (simp_all add: bytes_AppendBytes_def bytes_AppendByte_def bytes_AppendUint_def bytes_AppendInt_def bytes_AppendQuote_def mult.commute add.commute)

fun fits :: "(nat \<Rightarrow> bool) \<Rightarrow> byte_write list \<Rightarrow> nat \<Rightarrow> bool" where
  "fits isprint [] room \<longleftrightarrow> True"
| "fits isprint (w # ws) room \<longleftrightarrow> write_need w \<le> room \<and> fits isprint ws (room - length (write_text isprint w))"

lemma writes_in_place:
  assumes "pool_ok byte_sizes L s" "r \<in> L" "fits isprint ws (room_of s r)"
  shows "let s' = run_ops (\<lambda>s w. bytes_write isprint p r w s) s ws in
    pool_ok byte_sizes L s' \<and> keeps (L - {r}) s s' \<and> contents s' r = contents s r @ concat (map (write_text isprint) ws)
    \<and> pb_base (bs_objs s' ! r) = pb_base (bs_objs s ! r)"
  using assms
proof (induction ws arbitrary: s)
  case (Cons w ws)
  have oks: "obj_ok s r" using Cons.prems(1,2) by (simp add: pool_ok_def heap_ok_def)
  define t where "t = bytes_write isprint p r w s"
  have t: "t = append_to byte_sizes (snd p) r (write_text isprint w) s"
    using Cons.prems(3) ensure_noop [OF oks, of "int (write_need w)"] by (simp add: t_def bytes_write_eq bytes_Ensure_def)
  have "length (write_text isprint w) \<le> room_of s r" using Cons.prems(3) write_need_enough [of isprint w] by simp
  note one = append_room [OF Cons.prems(1,2) this, of "snd p", folded t]
  have "fits isprint ws (room_of t r)" using Cons.prems(3) one by simp
  then show ?case
    using Cons.IH [of t] one Cons.prems(2) by (auto simp: Let_def t_def [symmetric] intro: keeps_trans)
qed (simp add: Let_def)

lemma raw_slice_addr:
  assumes "obj_ok s r"
  shows "map_option fst (pb_B (bs_objs s ! r)) = pb_base (bs_objs s ! r)"
  using assms by (cases rule: obj_ok_cases) (simp_all add: nil_obj_def)

subsection \<open>Layout\<close>

lemma slice_view_addr: "map_option fst b = map_option fst b' \<Longrightarrow> slice_view b i j = slice_view b' i j"
  by (cases b; cases b') (auto simp: slice_view_def)

lemma layout_addr: "map_option fst b = map_option fst b' \<Longrightarrow> layout b c ns = layout b' c ns"
  by (induction b c ns rule: layout.induct) (auto intro: slice_view_addr)

lemma layout_snoc: "layout b c (ns @ [n]) = layout b c ns @ [slice_view b (c + sum_list ns) (c + sum_list ns + n)]"
  by (induction b c ns rule: layout.induct) (auto simp: add.assoc)

lemma layout_length [simp]: "length (layout b c ns) = length ns"
  by (induction b c ns rule: layout.induct) auto

lemma relocate_layout:
  assumes "b = None \<Longrightarrow> \<forall>n \<in> set ns. n = 0"
  shows "relocate b' c (layout b d ns) = layout b' c ns"
  using assms
proof (induction b d ns arbitrary: c rule: layout.induct)
  case (2 b d n ns)
  have "slice_view b d (d + n) = (fst (slice_view b d (d + n)), fst (snd (slice_view b d (d + n))), n)"
    using 2(2) by (cases b) (auto simp: slice_view_def)
  then show ?case using 2 by (metis layout.simps(2) list.set_intros(2) relocate.simps(2))
qed simp

lemma read_layout:
  assumes "take n arr = concat (pre @ xs)" "bs_arrays (mem_bytes m) ! a = arr"
  shows "map (read_view m) (layout (Some (a, k)) (length (concat pre)) (map length xs)) = xs"
  using assms(1)
proof (induction xs arbitrary: pre)
  case (Cons x xs)
  have "take n arr = concat pre @ x @ concat xs" using Cons.prems by simp
  then have arr: "arr = concat pre @ x @ concat xs @ drop n arr" by (metis append.assoc append_take_drop_id)
  have "read_view m (slice_view (Some (a, k)) (length (concat pre)) (length (concat pre) + length x)) = x"
    using assms(2) by (subst (asm) arr) (simp add: read_view_def slice_view_def)
  then show ?case using Cons.IH [of "pre @ [x]"] Cons.prems by simp
qed simp

subsection \<open>The batch keeps its items\<close>

lemma copy_to_own:
  assumes ok: "pool_ok z L s" and r: "r \<in> L" and len: "length v \<le> used_of (pb_B (bs_objs s ! r))"
  defines "s' \<equiv> copy_to r v s"
  shows "pool_ok z L s' \<and> keeps (L - {r}) s s' \<and> contents s' r = v @ drop (length v) (contents s r)"
proof -
  have oks: "obj_ok s r" using ok r by (simp add: pool_ok_def heap_ok_def)
  then show ?thesis
  proof (cases rule: obj_ok_cases)
    case bare
    then show ?thesis using len ok by (simp add: s'_def copy_to_def nil_obj_def used_of_def contents_def)
  next
    case (based a n)
    define ys where "ys = v @ drop (length v) (bs_arrays s ! a)"
    have n: "length v \<le> n" using len based by (simp add: used_of_def)
    define t where "t = s\<lparr>bs_arrays := (bs_arrays s)[a := ys]\<rparr>"
    have same: "set_obj r \<lparr>pb_B = Some (a, n), pb_base = Some a\<rparr> t = t"
      using based by (intro set_obj_same) (simp_all add: t_def)
    have "length ys = length (bs_arrays s ! a)" "n \<le> length ys" "pb_base (bs_objs s ! r) = Some a"
      using based n by (simp_all add: ys_def)
    note written = write_own [OF ok r this(3,1,2), folded t_def, unfolded same]
    have "s' = t" using based n by (simp add: s'_def copy_to_def t_def ys_def min_def)
    moreover have "take n ys = v @ drop (length v) (contents s r)"
      using based n by (simp add: ys_def contents_def drop_take)
    ultimately show ?thesis using written by simp
  qed
qed

lemma batch_ensure_ok:
  fixes p :: choice and extra :: int
  assumes ok: "batch_ok L V b xs m"
  defines "m' \<equiv> batch_ensure p b extra m"
  shows "batch_ok L V b xs m' \<and> extra \<le> int (room_of (mem_bytes m') (bb_raw b)) \<and>
    keeps L (mem_bytes m) (mem_bytes m') \<and> keeps V (mem_views m) (mem_views m')"
proof -
  let ?r = "bb_raw b" and ?v = "bb_views b"
  note parts = ok [unfolded batch_ok_def]
  have oks: "obj_ok (mem_bytes m) ?r" "obj_ok (mem_views m) ?v" using parts by (simp_all add: pool_ok_def heap_ok_def)
  have le: "used_of (raw_slice b m) \<le> cap_of (mem_bytes m) (raw_slice b m)"
    using oks(1) by (cases rule: obj_ok_cases) (auto simp: used_of_def cap_of_def nil_obj_def raw_slice_def)
  show ?thesis
  proof (cases "extra \<le> 0 \<or> int (cap_of (mem_bytes m) (raw_slice b m)) - int (used_of (raw_slice b m)) \<ge> extra")
    case True
    then have "m' = m" by (auto simp: m'_def batch_ensure_def)
    then show ?thesis using True le ok by (auto simp: room_of_def raw_slice_def of_nat_diff)
  next
    case False
    define m1 where "m1 = m\<lparr>mem_bytes := bytes_Ensure (fst p) ?r extra (mem_bytes m)\<rparr>"
    define vs where "vs = relocate (raw_slice b m1) 0 (batch_Views b m)"
    have m': "m' = m1\<lparr>mem_views := copy_to ?v vs (mem_views m)\<rparr>"
      using False by (auto simp: m'_def batch_ensure_def Let_def m1_def vs_def batch_Views_def)
    have grown: "pool_ok byte_sizes (insert ?r L) (mem_bytes m1) \<and> keeps L (mem_bytes m) (mem_bytes m1) \<and>
        contents (mem_bytes m1) ?r = concat xs \<and> extra \<le> int (room_of (mem_bytes m1) ?r)"
      using ensure_ok [of byte_sizes "insert ?r L" "mem_bytes m" ?r False "fst p" extra] parts
      by (simp add: m1_def bytes_Ensure_def)
    have "\<forall>n \<in> set (map length xs). n = 0" if "raw_slice b m = None"
      using parts that by (auto simp: contents_def raw_slice_def)
    then have vs: "vs = layout (raw_slice b m1) 0 (map length xs)"
      using relocate_layout [of "raw_slice b m" "map length xs"] parts by (simp add: vs_def)
    have "length vs = used_of (pb_B (bs_objs (mem_views m) ! ?v))"
      using contents_len [OF oks(2)] parts vs by (simp add: batch_Views_def)
    then have "pool_ok view_sizes (insert ?v V) (mem_views m') \<and> keeps V (mem_views m) (mem_views m') \<and> contents (mem_views m') ?v = vs"
      using copy_to_own [of view_sizes "insert ?v V" "mem_views m" ?v vs] parts contents_len [OF oks(2)] by (simp add: m')
    moreover have "raw_slice b m' = raw_slice b m1" by (simp add: raw_slice_def m')
    ultimately show ?thesis using grown parts vs by (simp add: batch_ok_def batch_Views_def m')
  qed
qed

lemma batch_write_ok:
  fixes p :: choice and pv :: choice
  assumes ok: "batch_ok L V b xs m" and room: "fits isprint ws (room_of (mem_bytes m) (bb_raw b))"
  defines "m' \<equiv> snd (batch_write isprint p pv b ws m)"
  shows "batch_ok L V b (xs @ [concat (map (write_text isprint) ws)]) m' \<and>
    keeps L (mem_bytes m) (mem_bytes m') \<and> keeps V (mem_views m) (mem_views m')"
proof -
  let ?r = "bb_raw b" and ?v = "bb_views b" and ?x = "concat (map (write_text isprint) ws)"
  note parts = ok [unfolded batch_ok_def]
  define s1 where "s1 = run_ops (\<lambda>s w. bytes_write isprint p ?r w s) (mem_bytes m) ws"
  have one: "pool_ok byte_sizes (insert ?r L) s1 \<and> keeps L (mem_bytes m) s1 \<and> contents s1 ?r = concat xs @ ?x \<and>
      pb_base (bs_objs s1 ! ?r) = pb_base (bs_objs (mem_bytes m) ! ?r)"
    using writes_in_place [of "insert ?r L" "mem_bytes m" ?r isprint ws p] parts room by (simp add: Let_def s1_def)
  define m1 where "m1 = m\<lparr>mem_bytes := s1\<rparr>"
  have oks: "obj_ok (mem_bytes m) ?r" "obj_ok s1 ?r" using parts one by (simp_all add: pool_ok_def heap_ok_def)
  have addr: "map_option fst (raw_slice b m1) = map_option fst (raw_slice b m)"
    using raw_slice_addr [OF oks(1)] raw_slice_addr [OF oks(2)] one by (simp add: raw_slice_def m1_def)
  have used: "used_of (raw_slice b m) = length (concat xs)" "used_of (raw_slice b m1) = length (concat xs) + length ?x"
    using contents_len [OF oks(1)] contents_len [OF oks(2)] one parts by (simp_all add: raw_slice_def m1_def)
  define item where "item = slice_view (raw_slice b m1) (used_of (raw_slice b m)) (used_of (raw_slice b m1))"
  have m': "m' = m1\<lparr>mem_views := views_Append (fst pv) (snd pv) ?v item (mem_views m)\<rparr>"
    by (simp add: m'_def batch_write_def Let_def m1_def s1_def item_def)
  have "pool_ok view_sizes (insert ?v V) (mem_views m') \<and> keeps V (mem_views m) (mem_views m') \<and> batch_Views b m' = batch_Views b m @ [item]"
    using views_Append_ok [of "insert ?v V" "mem_views m" ?v "fst pv" "snd pv" item] parts by (simp add: m' batch_Views_def)
  moreover have "batch_Views b m @ [item] = layout (raw_slice b m1) 0 (map length (xs @ [?x]))"
    using parts layout_addr [OF addr, of 0 "map length xs"] used
    by (simp add: layout_snoc item_def length_concat)
  moreover have "raw_slice b m' = raw_slice b m1" by (simp add: raw_slice_def m')
  ultimately show ?thesis using one parts by (simp add: batch_ok_def m' m1_def)
qed

lemma batch_step_ok:
  fixes isprint :: "nat \<Rightarrow> bool" and x :: batch_op
  assumes ok: "batch_ok L V b xs m"
  defines "m' \<equiv> batch_step isprint b m x"
  shows "batch_ok L V b (xs @ [batch_item x]) m' \<and> keeps L (mem_bytes m) (mem_bytes m') \<and> keeps V (mem_views m) (mem_views m')"
proof (cases x)
  case (BBytes p pv v)
  note e = batch_ensure_ok [OF ok, of p "int (length v)"]
  have "fits isprint [WBytes v] (room_of (mem_bytes (batch_ensure p b (int (length v)) m)) (bb_raw b))" using e by simp
  from batch_write_ok [OF _ this, of L V xs p pv] show ?thesis
    using e by (auto simp: m'_def BBytes batch_AppendBytes_def intro: keeps_trans)
next
  case (BPlaceholder p pv num)
  note e = batch_ensure_ok [OF ok, of p 64]
  have "fits isprint (placeholder_writes num) (room_of (mem_bytes (batch_ensure p b 64 m)) (bb_raw b))"
  proof -
    define room where "room = room_of (mem_bytes (batch_ensure p b 64 m)) (bb_raw b)"
    have "64 \<le> room" using e by (simp add: room_def)
    then have "20 \<le> room - 27" "1 \<le> room - 27 - length (format_int (sint num))" using format_int_length [of num] by linarith+
    then show ?thesis
      using \<open>64 \<le> room\<close> unfolding room_def [symmetric]
      by (simp add: placeholder_writes_def jsonPlaceholderKey_def jsonPlaceholderNum_def numeral_eq_Suc)
  qed
  from batch_write_ok [OF _ this, of L V xs p pv] show ?thesis
    using e by (auto simp: m'_def BPlaceholder batch_AppendPlaceholder_def placeholder_writes_def placeholder_text_def intro: keeps_trans)
qed

lemma batch_run_ok:
  "batch_ok L V b xs m \<Longrightarrow> let m' = run_ops (batch_step isprint b) m ops in
     batch_ok L V b (xs @ map batch_item ops) m' \<and> keeps L (mem_bytes m) (mem_bytes m') \<and> keeps V (mem_views m) (mem_views m')"
proof (induction ops arbitrary: xs m)
  case (Cons x ops)
  note one = batch_step_ok [OF Cons.prems, where isprint = isprint and x = x]
  then show ?case using Cons.IH [of "xs @ [batch_item x]" "batch_step isprint b m x"] by (auto simp: Let_def intro: keeps_trans)
qed (simp add: Let_def)

lemma batch_acquired:
  assumes "pool_ok byte_sizes L (mem_bytes m)" "pool_ok view_sizes V (mem_views m)" "acquireByteBatch p pv viewCap byteCap m = (b, m')"
  shows "batch_ok L V b [] m' \<and> keeps L (mem_bytes m) (mem_bytes m') \<and> keeps V (mem_views m) (mem_views m')"
proof -
  obtain r s v vs where got: "acquire byte_sizes (fst p) byteCap (mem_bytes m) = (r, s)" "acquire view_sizes (fst pv) viewCap (mem_views m) = (v, vs)"
    by fastforce
  then have b: "b = \<lparr>bb_raw = r, bb_views = v\<rparr>" "m' = \<lparr>mem_bytes = s, mem_views = vs\<rparr>"
    using assms(3) by (simp_all add: acquireByteBatch_def acquireBytes_def acquireByteViews_def)
  show ?thesis
    using acquire_fresh [OF assms(1) byte_sizes_le got(1)] acquire_fresh [OF assms(2) view_sizes_le got(2)]
    by (simp add: b batch_ok_def handed_out_def batch_Views_def)
qed

lemma batch_reads:
  assumes "batch_ok L V b xs m"
  shows "map (read_view m) (batch_Views b m) = xs"
proof -
  note parts = assms [unfolded batch_ok_def]
  show ?thesis
  proof (cases "raw_slice b m")
    case None
    have "map (read_view m) (layout None c ns) = map (\<lambda>_. []) ns" for c ns
      by (induction ns arbitrary: c) (simp_all add: read_view_def slice_view_def)
    moreover have "map (\<lambda>_. []) xs = xs" using parts None by (intro map_idI) (auto simp: contents_def raw_slice_def)
    ultimately show ?thesis using parts None by (simp add: comp_def)
  next
    case (Some an)
    obtain a n where an: "an = (a, n)" by (cases an)
    have "take n (bs_arrays (mem_bytes m) ! a) = concat ([] @ xs)" using parts Some an by (simp add: contents_def raw_slice_def)
    from read_layout [OF this refl] show ?thesis using parts Some an by simp
  qed
qed

lemma batch_released:
  assumes "batch_ok L V b xs m"
  shows "pool_ok byte_sizes L (mem_bytes (batch_Release b m)) \<and> pool_ok view_sizes V (mem_views (batch_Release b m)) \<and>
    keeps L (mem_bytes m) (mem_bytes (batch_Release b m))"
proof -
  note parts = assms [unfolded batch_ok_def]
  have "insert (bb_raw b) L - {bb_raw b} = L" "insert (bb_views b) V - {bb_views b} = V" using parts by auto
  then show ?thesis
    using parts release_ok [of byte_sizes "insert (bb_raw b) L" "mem_bytes m" "bb_raw b"]
      views_Release_ok [of "insert (bb_views b) V" "mem_views m" "bb_views b"]
    by (simp add: batch_Release_def bytes_Release_def)
qed

section \<open>Reading a body\<close>

text \<open>
  The reader is not the program's: it is a function from the reader's state and the room that is offered to what \<^verbatim>\<open>Read\<close> returns and
  the next state. A loop that never sees an error never ends, the value \<^const>\<open>None\<close>.
\<close>

datatype io_error = EOF | UnexpectedEOF | ReadFailed bytes

type_synonym 'r reader = "'r \<Rightarrow> nat \<Rightarrow> bytes \<times> io_error option \<times> 'r"

text \<open>\<^verbatim>\<open>io.ReadFull\<close>\<close>

partial_function (option) read_full :: "'r reader \<Rightarrow> 'r \<Rightarrow> nat \<Rightarrow> bytes \<Rightarrow> (bytes \<times> io_error option \<times> 'r) option" where
  [code]: "read_full read r n got =
     (if length got \<ge> n then Some (got, None, r)
      else (case read r (n - length got) of (c, e, r') \<Rightarrow>
        (case e of
           None \<Rightarrow> read_full read r' n (got @ c)
         | Some err \<Rightarrow>
             Some (got @ c, if length (got @ c) \<ge> n then None else if got @ c \<noteq> [] \<and> err = EOF then Some UnexpectedEOF else Some err, r'))))"

datatype read_outcome = ReadPanic | ReadError io_error | ReadOwned nat

partial_function (option) read_loop ::
    "(nat \<Rightarrow> choice) \<Rightarrow> nat \<Rightarrow> 'r reader \<Rightarrow> nat \<Rightarrow> 'r \<Rightarrow> byte store \<Rightarrow> (read_outcome \<times> byte store \<times> 'r) option" where
  [code]: "read_loop p k read owned r s =
     (case read r 32768 of (c, e, r') \<Rightarrow>
        (let s1 = (if c \<noteq> [] then bytes_AppendBytes (fst (p k)) (snd (p k)) owned c s else s) in
         case e of
           None \<Rightarrow> read_loop p (Suc k) read owned r' s1
         | Some err \<Rightarrow> Some (if err = EOF then (ReadOwned owned, s1, r') else (ReadError err, bytes_Release owned s1, r'))))"

definition readAllPooled ::
    "(nat \<Rightarrow> choice) \<Rightarrow> 'r reader \<Rightarrow> 'r \<Rightarrow> int \<Rightarrow> byte store \<Rightarrow> (read_outcome \<times> byte store \<times> 'r) option" where
  "readAllPooled p read r hint s =
     (let (owned, s1) = acquireBytes (fst (p 0)) (if hint > 0 \<and> hint \<le> 2 ^ 63 - 1 then hint else 4096) s in
      if hint > 0 then
        (case bytes_Resize (fst (p 1)) owned (nat hint) s1 of
           None \<Rightarrow> Some (ReadPanic, s1, r)
         | Some s2 \<Rightarrow>
             (case read_full read r (nat hint) [] of
                None \<Rightarrow> None
              | Some (got, err, r') \<Rightarrow>
                  (let s3 = copy_to owned got s2 in
                   Some (case err of None \<Rightarrow> (ReadOwned owned, s3, r') | Some e \<Rightarrow> (ReadError e, bytes_Release owned s3, r')))))
      else read_loop p 1 read owned r s1)"

text \<open>
  What \<^verbatim>\<open>io.Reader\<close> documents: the bytes that are left (\<open>rest\<close>) come in order and never more than there is room for; the error that
  ends them (\<open>fin\<close>) comes when they are out; a call without an error brings the end closer (\<open>left\<close>).
\<close>

definition reader_ok :: "'r reader \<Rightarrow> ('r \<Rightarrow> bytes) \<Rightarrow> ('r \<Rightarrow> io_error) \<Rightarrow> ('r \<Rightarrow> nat) \<Rightarrow> bool" where
  "reader_ok read rest fin left \<longleftrightarrow>
     (\<forall>r n. 0 < n \<longrightarrow> (case read r n of (c, e, r') \<Rightarrow>
        rest r = c @ rest r' \<and> fin r' = fin r \<and> length c \<le> n \<and>
        (case e of None \<Rightarrow> left r' < left r | Some err \<Rightarrow> rest r' = [] \<and> err = fin r)))"

lemma read_full_ok:
  assumes "reader_ok read rest fin left" "length got \<le> n"
  shows "\<exists>r'. read_full read r n got =
    Some (take n (got @ rest r), if n \<le> length (got @ rest r) then None
      else if got @ rest r \<noteq> [] \<and> fin r = EOF then Some UnexpectedEOF else Some (fin r), r')"
  using assms(2)
proof (induction "left r" arbitrary: r got rule: less_induct)
  case less
  show ?case
  proof (cases "length got = n")
    case True
    then show ?thesis by (subst read_full.simps) simp
  next
    case False
    obtain c e r' where rd: "read r (n - length got) = (c, e, r')" by (cases "read r (n - length got)") auto
    have step: "rest r = c @ rest r'" "fin r' = fin r" "length c \<le> n - length got"
        "case e of None \<Rightarrow> left r' < left r | Some err \<Rightarrow> rest r' = [] \<and> err = fin r"
      using assms(1) False less.prems rd unfolding reader_ok_def
      by (auto dest!: spec [of _ r] spec [of _ "n - length got"])
    show ?thesis
    proof (cases e)
      case None
      then have "left r' < left r" "length (got @ c) \<le> n" using step less.prems by auto
      note rec = less.hyps [OF this]
      have "read_full read r n got = read_full read r' n (got @ c)"
        using False less.prems rd None by (subst read_full.simps) simp
      then show ?thesis using rec unfolding step(1,2) append_assoc by (simp only:)
    next
      case (Some err)
      then show ?thesis using False less.prems rd step by (subst read_full.simps) auto
    qed
  qed
qed

lemma read_loop_ok:
  assumes "reader_ok read rest fin left" "pool_ok byte_sizes L s" "owned \<in> L"
  shows "\<exists>s' r'. read_loop p k read owned r s = Some (if fin r = EOF then ReadOwned owned else ReadError (fin r), s', r') \<and>
    keeps (L - {owned}) s s' \<and>
    (if fin r = EOF then pool_ok byte_sizes L s' \<and> contents s' owned = contents s owned @ rest r else pool_ok byte_sizes (L - {owned}) s')"
  using assms(2)
proof (induction "left r" arbitrary: r s k rule: less_induct)
  case less
  obtain c e r' where rd: "read r 32768 = (c, e, r')" by (cases "read r 32768") auto
  have step: "rest r = c @ rest r'" "fin r' = fin r" "case e of None \<Rightarrow> left r' < left r | Some err \<Rightarrow> rest r' = [] \<and> err = fin r"
    using assms(1) rd unfolding reader_ok_def by (auto dest!: spec [of _ r] spec [of _ 32768])
  define s1 where "s1 = (if c \<noteq> [] then bytes_AppendBytes (fst (p k)) (snd (p k)) owned c s else s)"
  have s1: "pool_ok byte_sizes L s1" "keeps (L - {owned}) s s1" "contents s1 owned = contents s owned @ c"
    using bytes_write_ok [OF less.prems assms(3), of undefined "p k" "WBytes c"] less.prems
    by (cases "p k"; simp add: s1_def)+
  have unfolded: "read_loop p k read owned r s = (case e of
      None \<Rightarrow> read_loop p (Suc k) read owned r' s1
    | Some err \<Rightarrow> Some (if err = EOF then (ReadOwned owned, s1, r') else (ReadError err, bytes_Release owned s1, r')))"
    by (subst read_loop.simps) (simp only: rd s1_def Let_def prod.case)
  show ?case
  proof (cases e)
    case None
    then have "left r' < left r" using step(3) by simp
    from less.hyps [OF this s1(1), of "Suc k"] obtain s' r'' where
      "read_loop p (Suc k) read owned r' s1 = Some (if fin r = EOF then ReadOwned owned else ReadError (fin r), s', r'')"
      "keeps (L - {owned}) s1 s'"
      "if fin r = EOF then pool_ok byte_sizes L s' \<and> contents s' owned = contents s1 owned @ rest r' else pool_ok byte_sizes (L - {owned}) s'"
      using step(2) by auto
    then show ?thesis using unfolded None s1 step(1) by (auto intro: keeps_trans split: if_splits)
  next
    case (Some err)
    then show ?thesis
      using unfolded s1 step release_ok [OF s1(1) byte_sizes_le assms(3)]
      by (auto simp: bytes_Release_def intro: keeps_trans)
  qed
qed

text \<open>\<^verbatim>\<open>Resize\<close> never goes beyond the base, and keeps what fits.\<close>

lemma bytes_Resize_ok:
  assumes ok: "pool_ok byte_sizes L s" and r: "r \<in> L"
  shows "\<exists>s'. bytes_Resize pick r n s = Some s' \<and> pool_ok byte_sizes L s' \<and> keeps (L - {r}) s s' \<and>
    length (contents s' r) = n \<and> used_of (pb_B (bs_objs s' ! r)) = n"
proof -
  let ?cap = "\<lambda>s. cap_of s (map_option (\<lambda>a. (a, 0)) (pb_base (bs_objs s ! r)))"
  have cap: "?cap t = cap_of t (pb_B (bs_objs t ! r))" "used_of (pb_B (bs_objs t ! r)) \<le> ?cap t" if "obj_ok t r" for t
    using that by (cases rule: obj_ok_cases; simp add: cap_of_def used_of_def nil_obj_def)+
  define t where "t = (if ?cap s < n then bytes_Ensure pick r (int n - int (used_of (pb_B (bs_objs s ! r)))) s else s)"
  have oks: "obj_ok s r" using ok r by (simp add: pool_ok_def heap_ok_def)
  have t: "pool_ok byte_sizes L t \<and> keeps (L - {r}) s t \<and> n \<le> ?cap t"
  proof (cases "?cap s < n")
    case True
    then have grown: "pool_ok byte_sizes L t" "keeps (L - {r}) s t" "contents t r = contents s r"
        "int n - int (used_of (pb_B (bs_objs s ! r))) \<le> int (room_of t r)"
      using ensure_ok [OF ok byte_sizes_le r, of False pick] by (simp_all add: t_def bytes_Ensure_def)
    have okt: "obj_ok t r" using grown(1) r by (simp add: pool_ok_def heap_ok_def)
    have "used_of (pb_B (bs_objs t ! r)) = used_of (pb_B (bs_objs s ! r))"
      using contents_len [OF oks] contents_len [OF okt] grown(3) by simp
    then show ?thesis using grown(1,2,4) cap [OF oks] cap [OF okt] True by (auto simp: room_of_def of_nat_diff)
  qed (use ok in \<open>simp add: t_def\<close>)
  have okt: "obj_ok t r" using t r by (simp add: pool_ok_def heap_ok_def)
  then have len: "r < length (bs_objs t)" by (simp add: obj_ok_def)
  define s' where "s' = set_obj r ((bs_objs t ! r)\<lparr>pb_B := map_option (\<lambda>a. (a, n)) (pb_base (bs_objs t ! r))\<rparr>) t"
  have run: "bytes_Resize pick r n s = Some s'"
    using t unfolding bytes_Resize_def Let_def t_def [symmetric] s'_def [symmetric] by (simp add: not_less)
  from okt have "pool_ok byte_sizes L s' \<and> keeps (L - {r}) t s' \<and> length (contents s' r) = n \<and> used_of (pb_B (bs_objs s' ! r)) = n"
  proof (cases rule: obj_ok_cases)
    case bare
    then have "s' = t" "n = 0" using t len by (simp_all add: s'_def nil_obj_def set_obj_same cap_of_def)
    then show ?thesis using t bare by (simp add: contents_def used_of_def nil_obj_def)
  next
    case (based a k)
    have n: "n \<le> length (bs_arrays t ! a)" using t based by (simp add: cap_of_def)
    have "s' = set_obj r \<lparr>pb_B = Some (a, n), pb_base = Some a\<rparr> (t\<lparr>bs_arrays := (bs_arrays t)[a := bs_arrays t ! a]\<rparr>)"
      using based by (simp add: s'_def)
    then show ?thesis
      using write_own [of byte_sizes L t r a "bs_arrays t ! a" n] t r based n by (simp add: used_of_def)
  qed
  then show ?thesis using run t by (auto intro: keeps_trans)
qed

end
