(* ===== verification/PoolProps.thy ===== *)
theory PoolProps
  imports ByteBatch EngineConn
begin

text \<open>
  What the buffer pools give the rest of the program: buffers that behave as strings of their own, batches whose views stay exact while
  the buffer moves, bodies read whole, and frames of \<^verbatim>\<open>frame.go\<close> that hold what the connection layer's frames hold.
\<close>

section \<open>Frames in pooled memory\<close>

record pooled_frame =
  pf_binary :: bool
  pf_owner :: nat

definition filled_frame :: "choice \<Rightarrow> bool \<Rightarrow> bytes \<Rightarrow> byte store \<Rightarrow> (pooled_frame \<times> byte store) option" where
  "filled_frame p binary data s =
     (let (r, s1) = acquireBytes (fst p) (int (length data)) s in
      map_option (\<lambda>s2. (\<lparr>pf_binary = binary, pf_owner = r\<rparr>, copy_to r data s2)) (bytes_Resize (fst p) r (length data) s1))"

definition pooledMessageFrame :: "choice \<Rightarrow> bytes \<Rightarrow> byte store \<Rightarrow> (pooled_frame \<times> byte store) option" where
  "pooledMessageFrame p packet s = filled_frame p False (CHR ''4'' # packet) s"

definition pooledTextFrame :: "choice \<Rightarrow> bytes \<Rightarrow> byte store \<Rightarrow> (pooled_frame \<times> byte store) option" where
  "pooledTextFrame p data s = filled_frame p False data s"

definition pooledBinaryFrame :: "choice \<Rightarrow> bytes \<Rightarrow> byte store \<Rightarrow> (pooled_frame \<times> byte store) option" where
  "pooledBinaryFrame p data s = filled_frame p True data s"

definition releaseEngineFrame :: "pooled_frame \<Rightarrow> byte store \<Rightarrow> byte store" where
  "releaseEngineFrame f s = bytes_Release (pf_owner f) s"

text \<open>The frame of the connection layer that a pooled frame stands for.\<close>

definition frame_of :: "byte store \<Rightarrow> pooled_frame \<Rightarrow> engineFrame" where
  "frame_of s f = \<lparr>ef_binary = pf_binary f, ef_data = contents s (pf_owner f)\<rparr>"

lemma filled_frame_ok:
  assumes ok: "pool_ok byte_sizes L s"
  shows "\<exists>f s'. filled_frame p binary data s = Some (f, s') \<and> pool_ok byte_sizes (insert (pf_owner f) L) s' \<and> pf_owner f \<notin> L \<and>
    keeps L s s' \<and> frame_of s' f = \<lparr>ef_binary = binary, ef_data = data\<rparr>"
proof -
  obtain r s1 where acq: "acquire byte_sizes (fst p) (int (length data)) s = (r, s1)" by fastforce
  note fresh = acquire_fresh [OF ok byte_sizes_le acq, unfolded handed_out_def]
  obtain s2 where s2: "bytes_Resize (fst p) r (length data) s1 = Some s2" "pool_ok byte_sizes (insert r L) s2"
      "keeps (insert r L - {r}) s1 s2" "length (contents s2 r) = length data" "used_of (pb_B (bs_objs s2 ! r)) = length data"
    using bytes_Resize_ok [of "insert r L" s1 r "fst p" "length data"] fresh by auto
  have cp: "pool_ok byte_sizes (insert r L) (copy_to r data s2)" "keeps (insert r L - {r}) s2 (copy_to r data s2)" "contents (copy_to r data s2) r = data"
    using copy_to_own [OF s2(2), of r data] s2(4,5) by simp_all
  have "insert r L - {r} = L" using fresh by auto
  then have "keeps L s (copy_to r data s2)" using fresh s2(3) cp(2) by (auto intro: keeps_trans)
  then show ?thesis
    using acq s2(1) cp fresh by (simp add: filled_frame_def acquireBytes_def frame_of_def)
qed

text \<open>A frame was built: it stands for the given frame, its buffer was not in use, the rest is as before, and it can be released.\<close>

definition frame_built :: "nat set \<Rightarrow> byte store \<Rightarrow> (pooled_frame \<times> byte store) option \<Rightarrow> engineFrame \<Rightarrow> bool" where
  "frame_built L s built frame \<longleftrightarrow>
     (case built of
        None \<Rightarrow> False
      | Some (f, s') \<Rightarrow> frame_of s' f = frame \<and> pf_owner f \<notin> L \<and> pool_ok byte_sizes (insert (pf_owner f) L) s' \<and> keeps L s s' \<and>
          pool_ok byte_sizes L (releaseEngineFrame f s'))"

lemma filled_frame_built:
  assumes "pool_ok byte_sizes L s"
  shows "frame_built L s (filled_frame p binary data s) \<lparr>ef_binary = binary, ef_data = data\<rparr>"
proof -
  obtain f s' where f: "filled_frame p binary data s = Some (f, s')" "pool_ok byte_sizes (insert (pf_owner f) L) s'" "pf_owner f \<notin> L"
      "keeps L s s'" "frame_of s' f = \<lparr>ef_binary = binary, ef_data = data\<rparr>"
    using filled_frame_ok [OF assms] by blast
  have "insert (pf_owner f) L - {pf_owner f} = L" using f(3) by auto
  then have "pool_ok byte_sizes L (releaseEngineFrame f s')"
    using release_ok [OF f(2) byte_sizes_le, of "pf_owner f"] by (simp add: releaseEngineFrame_def bytes_Release_def)
  then show ?thesis using f by (simp add: frame_built_def)
qed

section \<open>A whole body\<close>

lemma readAllPooled_ok:
  fixes hint :: int and r :: 'r
  assumes rd: "reader_ok read rest fin left" and ok: "pool_ok byte_sizes L s"
  defines "entire \<equiv> (if 0 < hint then nat hint \<le> length (rest r) else fin r = EOF)"
  defines "got \<equiv> (if 0 < hint then take (nat hint) (rest r) else rest r)"
  defines "err \<equiv> (if 0 < hint \<and> rest r \<noteq> [] \<and> fin r = EOF then UnexpectedEOF else fin r)"
  assumes small: "hint < 2 ^ 63"
  shows "\<exists>owned s' r'. readAllPooled p read r hint s = Some (if entire then ReadOwned owned else ReadError err, s', r') \<and> owned \<notin> L \<and>
    keeps L s s' \<and> (if entire then pool_ok byte_sizes (insert owned L) s' \<and> contents s' owned = got else pool_ok byte_sizes L s')"
proof -
  define minCap where "minCap = (if hint > 0 \<and> hint \<le> 2 ^ 63 - 1 then hint else 4096)"
  obtain owned s1 where acq: "acquireBytes (fst (p 0)) minCap s = (owned, s1)" by fastforce
  have fresh: "pool_ok byte_sizes (insert owned L) s1" "owned \<notin> L" "contents s1 owned = []" "keeps L s s1"
    using acquire_fresh [OF ok byte_sizes_le] acq by (simp_all add: handed_out_def acquireBytes_def)
  have without: "insert owned L - {owned} = L" using fresh(2) by auto
  show ?thesis
  proof (cases "0 < hint")
    case False
    have run: "readAllPooled p read r hint s = read_loop p 1 read owned r s1"
      using False acq unfolding readAllPooled_def minCap_def [symmetric] by simp
    obtain s' r' where "read_loop p 1 read owned r s1 = Some (if fin r = EOF then ReadOwned owned else ReadError (fin r), s', r')"
        "keeps L s1 s'"
        "if fin r = EOF then pool_ok byte_sizes (insert owned L) s' \<and> contents s' owned = contents s1 owned @ rest r else pool_ok byte_sizes L s'"
      using read_loop_ok [OF rd fresh(1), of owned p 1 r] unfolding without by blast
    then show ?thesis
      using run False fresh unfolding entire_def got_def err_def
      by (intro exI [of _ owned] exI [of _ s'] exI [of _ r']) (auto intro: keeps_trans)
  next
    case True
    obtain s2 where s2: "bytes_Resize (fst (p 1)) owned (nat hint) s1 = Some s2" "pool_ok byte_sizes (insert owned L) s2" "keeps L s1 s2"
        "length (contents s2 owned) = nat hint" "used_of (pb_B (bs_objs s2 ! owned)) = nat hint"
      using bytes_Resize_ok [OF fresh(1), of owned "fst (p 1)" "nat hint"] without by auto
    obtain r' where full: "read_full read r (nat hint) [] =
        Some (take (nat hint) (rest r), if nat hint \<le> length (rest r) then None
          else if rest r \<noteq> [] \<and> fin r = EOF then Some UnexpectedEOF else Some (fin r), r')"
      using read_full_ok [OF rd, of "[]" "nat hint" r] by auto
    define s3 where "s3 = copy_to owned (take (nat hint) (rest r)) s2"
    have s3: "pool_ok byte_sizes (insert owned L) s3" "keeps L s2 s3"
        "contents s3 owned = take (nat hint) (rest r) @ drop (length (take (nat hint) (rest r))) (contents s2 owned)"
      using copy_to_own [OF s2(2), of owned "take (nat hint) (rest r)"] s2(5) without by (simp_all add: s3_def)
    have keep: "keeps L s s3" using fresh(4) s2(3) s3(2) by (blast intro: keeps_trans)
    have freed: "pool_ok byte_sizes L (bytes_Release owned s3)" "keeps L s3 (bytes_Release owned s3)"
      using release_ok [OF s3(1) byte_sizes_le, of owned] without by (simp_all add: bytes_Release_def)
    have run: "readAllPooled p read r hint s = Some (if entire then (ReadOwned owned, s3, r') else (ReadError err, bytes_Release owned s3, r'))"
      using True acq s2(1) full unfolding readAllPooled_def minCap_def [symmetric]
      by (simp add: s3_def entire_def err_def Let_def)
    show ?thesis
    proof (cases entire)
      case True
      then have "contents s3 owned = got" using s3(3) s2(4) \<open>0 < hint\<close> by (simp add: entire_def got_def)
      then show ?thesis using run True keep s3(1) fresh(2) by auto
    next
      case False
      then show ?thesis using run keep freed fresh(2) by (auto intro: keeps_trans)
    qed
  qed
qed

section \<open>Properties\<close>

text \<open>
  (C4) The pools of bytes refine independent strings. Run any sequence of \<^verbatim>\<open>acquireBytes\<close>, appends (\<^verbatim>\<open>AppendBytes\<close>,
  \<^verbatim>\<open>AppendString\<close>, \<^verbatim>\<open>AppendByte\<close>, \<^verbatim>\<open>AppendUint\<close>, \<^verbatim>\<open>AppendInt\<close>, \<^verbatim>\<open>AppendQuote\<close>) and
  \<^verbatim>\<open>Release\<close>, whatever the pools return, in which a buffer is used only between its acquisition and its release: every buffer in use
  holds exactly what was appended to it since it was acquired, however buffers were recycled, and no array is owned twice.
\<close>

theorem pooled_buffers_are_strings:
  "let st = run_ops (buffer_step (\<lambda>p. acquireBytes (fst p)) (bytes_write isprint) bytes_Release (write_text isprint))
      (\<lambda>_. None, empty_store byte_sizes) ops
   in pool_ok byte_sizes (dom (fst st)) (snd st) \<and> fst st = (\<lambda>r. if r \<in> dom (fst st) then Some (contents (snd st) r) else None)"
proof -
  let ?st = "run_ops (buffer_step (\<lambda>p. acquireBytes (fst p)) (bytes_write isprint) bytes_Release (write_text isprint))
      (\<lambda>_. None, empty_store byte_sizes) ops"
  have "buffers_agree (pool_ok byte_sizes) contents ?st" by (rule byte_buffers.runs.inv_run)
  then have agree: "pool_ok byte_sizes (dom (fst ?st)) (snd ?st)" "\<And>r. r \<in> dom (fst ?st) \<Longrightarrow> fst ?st r = Some (contents (snd ?st) r)"
    unfolding buffers_agree_def by blast+
  have "fst ?st r = (if r \<in> dom (fst ?st) then Some (contents (snd ?st) r) else None)" for r using agree(2) [of r] by auto
  then show ?thesis unfolding Let_def using agree(1) by blast
qed

text \<open>
  (C12) The views of a batch are exact. Acquire a batch, with any capacities, from pools that are in order, and append any byte strings
  and placeholders: the views of the batch read exactly the items that were appended, in that order, although the buffer they point into
  moves to a new array whenever it grows. Nothing else in use is touched, and releasing the batch gives its buffers back.
\<close>

theorem batch_views_exact:
  assumes "pool_ok byte_sizes L (mem_bytes m)" "pool_ok view_sizes V (mem_views m)" "acquireByteBatch p pv viewCap byteCap m = (b, after)"
  shows "let done = run_ops (batch_step isprint b) after ops in
    map (read_view done) (batch_Views b done) = map batch_item ops \<and>
    (\<forall>q \<in> L. contents (mem_bytes done) q = contents (mem_bytes m) q) \<and>
    pool_ok byte_sizes L (mem_bytes (batch_Release b done)) \<and> pool_ok view_sizes V (mem_views (batch_Release b done))"
proof -
  let ?m = "run_ops (batch_step isprint b) after ops"
  note acquired = batch_acquired [OF assms]
  then have run: "batch_ok L V b (map batch_item ops) ?m" "keeps L (mem_bytes after) (mem_bytes ?m)"
    using batch_run_ok [of L V b "[]" after isprint ops] by (simp_all add: Let_def)
  have "keeps L (mem_bytes m) (mem_bytes ?m)" using acquired run(2) by (blast intro: keeps_trans)
  then have "contents (mem_bytes ?m) q = contents (mem_bytes m) q" if "q \<in> L" for q
    using keeps_ok(2) [of L "mem_bytes m" "mem_bytes ?m" q] assms(1) that by (simp add: pool_ok_def heap_ok_def)
  then show ?thesis using batch_reads [OF run(1)] batch_released [OF run(1)] by (simp add: Let_def)
qed

definition sample_choice :: choice where
  "sample_choice = ((\<lambda>_. Some 0), 0)"

definition sample_batch :: "byteBatch \<times> mem" where
  "sample_batch = acquireByteBatch sample_choice sample_choice 1 0 \<lparr>mem_bytes = empty_store byte_sizes, mem_views = empty_store view_sizes\<rparr>"

definition sample_items :: "batch_op list" where
  "sample_items = [BBytes sample_choice sample_choice ''true'', BPlaceholder sample_choice sample_choice 0, BBytes sample_choice sample_choice []]"

theorem batch_views_exact_witness:
  "let done = run_ops (batch_step (\<lambda>_. False) (fst sample_batch)) (snd sample_batch) sample_items in
    map (read_view done) (batch_Views (fst sample_batch) done) = [''true'', placeholder_text 0, []]"
proof -
  have "acquireByteBatch sample_choice sample_choice 1 0 \<lparr>mem_bytes = empty_store byte_sizes, mem_views = empty_store view_sizes\<rparr> =
      (fst sample_batch, snd sample_batch)"
    by (simp add: sample_batch_def)
  from batch_views_exact [OF _ _ this, where L = "{}" and V = "{}" and isprint = "\<lambda>_. False" and ops = sample_items]
  show ?thesis by (simp add: empty_store_ok Let_def sample_items_def)
qed


text \<open>A reader over a list of chunks.\<close>

fun chunk_read :: "bytes list reader" where
  "chunk_read [] n = ([], Some EOF, [])"
| "chunk_read (c # cs) n = (if length c \<le> n then (c, None, cs) else (take n c, None, drop n c # cs))"

lemma chunk_reader_ok: "reader_ok chunk_read concat (\<lambda>_. EOF) (\<lambda>cs. length cs + length (concat cs))"
proof -
  have "case chunk_read cs n of (c, e, r') \<Rightarrow> concat cs = c @ concat r' \<and> EOF = EOF \<and> length c \<le> n \<and>
      (case e of None \<Rightarrow> length r' + length (concat r') < length cs + length (concat cs) | Some err \<Rightarrow> concat r' = [] \<and> err = EOF)"
    if "0 < n" for cs n
    using that by (cases cs) auto
  then show ?thesis by (simp add: reader_ok_def)
qed


text \<open>
  Frames hold their packets. Building a frame in pooled memory never panics and gives a frame that stands for the frame of the
  connection layer (the packet behind the byte \<^verbatim>\<open>4\<close>, the raw text, the binary attachment) and leaves every other frame's bytes
  alone; releasing it restores the pools.
\<close>

theorem frames_hold_their_packets:
  assumes "pool_ok byte_sizes L s"
  shows "frame_built L s (pooledMessageFrame p data s) (newEngineMessageFrame data) \<and>
    frame_built L s (pooledTextFrame p data s) (newEngineTextFrame data) \<and>
    frame_built L s (pooledBinaryFrame p data s) (newEngineBinaryFrame data)"
  unfolding pooledMessageFrame_def newEngineMessageFrame_def pooledTextFrame_def newEngineTextFrame_def pooledBinaryFrame_def newEngineBinaryFrame_def
  using filled_frame_built [OF assms] by blast

theorem frames_hold_their_packets_witness:
  "frame_built {} (empty_store byte_sizes) (pooledMessageFrame sample_choice ''2[1]'' (empty_store byte_sizes)) \<lparr>ef_binary = False, ef_data = ''42[1]''\<rparr>"
  using frames_hold_their_packets [OF empty_store_ok, of sample_choice "''2[1]''"] by (simp add: newEngineMessageFrame_def)

end
