(* ===== verification/Metrics.thy ===== *)
theory Metrics
  imports ServerInv
begin

text \<open>
  The snapshot of \<^verbatim>\<open>metrics.go\<close>: the counters of the server, the statistics of its namespaces and the state of its cluster
  node as a list of samples. A sample's value is a \<^verbatim>\<open>float64\<close> made from an integer; the model keeps the integer (above
  \<open>2 ^ 53\<close> the conversion rounds). The counters of acknowledgements are kept in two places in the model, by the sockets and by the
  broadcasts, and are one counter in the code.
\<close>

datatype MetricKind = MetricCounter | MetricGauge

record MetricSample =
  ms_Name :: bytes
  ms_Help :: bytes
  ms_Kind :: MetricKind
  ms_Value :: int
  ms_Labels :: "(bytes \<times> bytes) list"

record MetricsSnapshot =
  sn_GeneratedAt :: time
  sn_Samples :: "MetricSample list"

fun type_String :: "PacketType \<Rightarrow> bytes" where
  "type_String PacketConnect = ''connect''"
| "type_String PacketDisconnect = ''disconnect''"
| "type_String PacketEvent = ''event''"
| "type_String PacketAck = ''ack''"
| "type_String PacketConnectError = ''connect_error''"
| "type_String PacketBinaryEvent = ''binary_event''"
| "type_String PacketBinaryAck = ''binary_ack''"

record namespaceStat =
  st_namespace :: bytes
  st_sockets :: nat
  st_rooms :: nat
  st_memberships :: nat

definition namespaceStats :: "('ty, 'v) Server \<Rightarrow> namespaceStat list" where
  "namespaceStats s =
     map (\<lambda>(name, n). case adapter_stats (ns_adapter n) of
            (sockets, rooms, memberships) \<Rightarrow>
              \<lparr>st_namespace = name, st_sockets = sockets, st_rooms = rooms, st_memberships = memberships\<rparr>) (sv_namespaces s)"

definition sample :: "bytes \<Rightarrow> bytes \<Rightarrow> MetricKind \<Rightarrow> int \<Rightarrow> (bytes \<times> bytes) list \<Rightarrow> MetricSample" where
  "sample name help kind v labels = \<lparr>ms_Name = name, ms_Help = help, ms_Kind = kind, ms_Value = v, ms_Labels = labels\<rparr>"

definition counter_samples :: "metricsRecorder \<Rightarrow> ('ty, 'v) Server \<Rightarrow> MetricSample list" where
  "counter_samples m s =
     [sample ''sio_engine_connections_active'' ''Current Engine.IO connections.'' MetricGauge (sint (me_engineConnectionsActive m)) [],
      sample ''sio_engine_connections_opened_total'' ''Engine.IO connections opened.'' MetricCounter (uint (me_engineConnectionsOpened m)) [],
      sample ''sio_engine_connections_closed_total'' ''Engine.IO connections closed.'' MetricCounter (uint (me_engineConnectionsClosed m)) [],
      sample ''sio_sockets_active'' ''Current Socket.IO namespace sockets.'' MetricGauge (sint (me_socketsActive m)) [],
      sample ''sio_sockets_connected_total'' ''Socket.IO namespace sockets connected.'' MetricCounter (uint (me_socketsConnected m)) [],
      sample ''sio_sockets_closed_total'' ''Socket.IO namespace sockets closed.'' MetricCounter (uint (me_socketsClosed m)) [],
      sample ''sio_sockets_recovered_total'' ''Socket.IO sockets restored through connection state recovery.'' MetricCounter (uint (me_socketsRecovered m)) [],
      sample ''sio_packet_bytes_received_total'' ''Engine.IO message bytes received by Socket.IO parser.'' MetricCounter (uint (me_packetBytesIn m)) [],
      sample ''sio_packet_bytes_sent_total'' ''Socket.IO packet bytes sent before Engine.IO framing.'' MetricCounter (uint (me_packetBytesOut m)) [],
      sample ''sio_binary_attachments_received_total'' ''Socket.IO binary attachments received.'' MetricCounter (uint (me_binaryIn m)) [],
      sample ''sio_binary_attachments_sent_total'' ''Socket.IO binary attachments sent.'' MetricCounter (uint (me_binaryOut m)) [],
      sample ''sio_parser_errors_total'' ''Socket.IO packet parser errors.'' MetricCounter (uint (me_parserErrors m)) [],
      sample ''sio_emits_total'' ''Direct socket emits created by the server.'' MetricCounter (uint (me_emitsTotal m)) [],
      sample ''sio_broadcasts_total'' ''Broadcast emits created by the server.'' MetricCounter (uint (me_broadcastsTotal m)) [],
      sample ''sio_acks_registered_total'' ''ACK callbacks registered by server emits.'' MetricCounter (uint (me_acksRegistered m + ba_registered (sv_broadcasts s))) [],
      sample ''sio_acks_resolved_total'' ''ACK callbacks resolved before timeout.'' MetricCounter (uint (me_acksResolved m + ba_resolved (sv_broadcasts s))) [],
      sample ''sio_acks_timed_out_total'' ''ACK callbacks timed out.'' MetricCounter (uint (me_acksTimedOut m + ba_timedOut (sv_broadcasts s))) [],
      sample ''sio_cluster_requests_received_total'' ''Cluster control requests received from peers.'' MetricCounter (uint (me_clusterRequestsReceived m)) [],
      sample ''sio_cluster_requests_sent_total'' ''Cluster control requests sent to peers.'' MetricCounter (uint (me_clusterRequestsSent m)) [],
      sample ''sio_cluster_requests_failed_total'' ''Cluster requests that failed before receiving a response.'' MetricCounter (uint (me_clusterRequestsFailed m)) [],
      sample ''sio_cluster_responses_failed_total'' ''Cluster peer responses with HTTP status >= 300.'' MetricCounter (uint (me_clusterResponsesFailed m)) []]"

definition packet_samples :: "metricsRecorder \<Rightarrow> MetricSample list" where
  "packet_samples m =
     map (\<lambda>typ. sample ''sio_packets_received_total'' ''Socket.IO packets received, partitioned by packet type.'' MetricCounter
            (uint (me_packetsIn m ! type_code typ)) [(''type'', type_String typ)]) packet_types @
     map (\<lambda>typ. sample ''sio_packets_sent_total'' ''Socket.IO packets sent, partitioned by packet type.'' MetricCounter
            (uint (me_packetsOut m ! type_code typ)) [(''type'', type_String typ)]) packet_types"

definition namespace_samples :: "namespaceStat \<Rightarrow> MetricSample list" where
  "namespace_samples stat =
     (let labels = [(''namespace'', st_namespace stat)] in
      [sample ''sio_namespace_sockets'' ''Current sockets by namespace.'' MetricGauge (int (st_sockets stat)) labels,
       sample ''sio_namespace_rooms'' ''Current rooms by namespace, including socket id rooms.'' MetricGauge (int (st_rooms stat)) labels,
       sample ''sio_namespace_room_memberships'' ''Current room memberships by namespace.'' MetricGauge (int (st_memberships stat)) labels])"

definition cluster_samples :: "clusterNode option \<Rightarrow> MetricSample list" where
  "cluster_samples cluster =
     (case cluster of
        None \<Rightarrow> []
      | Some c \<Rightarrow>
          [sample ''sio_cluster_peers'' ''Current cluster peer endpoints known by this node.'' MetricGauge (int (length (peerSnapshot c))) [],
           sample ''sio_cluster_fanout_workers'' ''Configured cluster fanout worker count.'' MetricGauge (cn_workerCount c) []])"

definition metrics_snapshot :: "time \<Rightarrow> metricsRecorder \<Rightarrow> ('ty, 'v) Server \<Rightarrow> MetricsSnapshot" where
  "metrics_snapshot now m s =
     \<lparr>sn_GeneratedAt = now,
      sn_Samples = counter_samples m s @ packet_samples m @ concat (map namespace_samples (namespaceStats s)) @ cluster_samples (sv_cluster s)\<rparr>"

definition server_Metrics :: "time \<Rightarrow> ('ty, 'v) Server \<Rightarrow> MetricsSnapshot" where
  "server_Metrics now s = metrics_snapshot now (sv_metrics s) s"

section \<open>Reading a snapshot\<close>

text \<open>A monitoring system identifies a sample by its name and its labels.\<close>

definition sample_key :: "MetricSample \<Rightarrow> bytes \<times> (bytes \<times> bytes) list" where
  "sample_key x = (ms_Name x, ms_Labels x)"

definition metric :: "MetricsSnapshot \<Rightarrow> bytes \<Rightarrow> (bytes \<times> bytes) list \<Rightarrow> int option" where
  "metric sn name labels = map_of (map (\<lambda>x. (sample_key x, ms_Value x)) (sn_Samples sn)) (name, labels)"

lemma packet_keys: "map sample_key (packet_samples m) =
    map (\<lambda>typ. (''sio_packets_received_total'', [(''type'', type_String typ)])) packet_types @
    map (\<lambda>typ. (''sio_packets_sent_total'', [(''type'', type_String typ)])) packet_types"
  by (simp add: packet_samples_def sample_key_def sample_def)

lemma packet_keys_distinct: "distinct (map sample_key (packet_samples m))"
  unfolding packet_keys by code_simp

lemma counter_keys_distinct: "distinct (map sample_key (counter_samples m s @ cluster_samples c))"
  by (cases c) (simp_all add: counter_samples_def cluster_samples_def sample_key_def sample_def)

lemma plain_labels: "x \<in> set (counter_samples m s @ cluster_samples c) \<Longrightarrow> ms_Labels x = []"
  by (cases c) (auto simp: counter_samples_def cluster_samples_def sample_def)

lemma packet_labels: "x \<in> set (packet_samples m) \<Longrightarrow> \<exists>t. ms_Labels x = [(''type'', t)]"
  by (auto simp: packet_samples_def sample_def)

lemma namespace_labels: "x \<in> set (namespace_samples st) \<Longrightarrow> ms_Labels x = [(''namespace'', st_namespace st)]"
  by (auto simp: namespace_samples_def Let_def sample_def)

lemma namespace_keys_distinct:
  "distinct (map st_namespace sts) \<Longrightarrow> distinct (map sample_key (concat (map namespace_samples sts)))"
proof (induction sts)
  case (Cons st sts)
  have "distinct (map sample_key (namespace_samples st))" by (simp add: namespace_samples_def Let_def sample_key_def sample_def)
  moreover have "sample_key x \<noteq> sample_key y" if "x \<in> set (namespace_samples st)" "y \<in> set (namespace_samples t)" "t \<in> set sts" for x y t
  proof -
    have "st_namespace t \<noteq> st_namespace st" using Cons.prems imageI [OF that(3), of st_namespace] by auto
    then show ?thesis using namespace_labels [OF that(1)] namespace_labels [OF that(2)] by (simp add: sample_key_def)
  qed
  then have "sample_key ` set (namespace_samples st) \<inter> sample_key ` set (concat (map namespace_samples sts)) = {}"
    by (simp only: set_concat set_map) blast
  ultimately show ?case using Cons by simp
qed simp

lemma snapshot_keys_distinct:
  assumes "wf_map (sv_namespaces s)"
  shows "distinct (map sample_key (sn_Samples (metrics_snapshot now m s)))"
proof -
  let ?C = "counter_samples m s" and ?P = "packet_samples m" and ?N = "concat (map namespace_samples (namespaceStats s))"
    and ?K = "cluster_samples (sv_cluster s)"
  have "map st_namespace (namespaceStats s) = map fst (sv_namespaces s)"
    by (auto simp: namespaceStats_def adapter_stats_def)
  then have N: "distinct (map sample_key ?N)" using assms by (intro namespace_keys_distinct) (simp add: wf_map_def)
  have label_kinds: "\<And>x. x \<in> set (?C @ ?K) \<Longrightarrow> ms_Labels x = []" "\<And>x. x \<in> set ?P \<Longrightarrow> \<exists>t. ms_Labels x = [(''type'', t)]"
      "\<And>x. x \<in> set ?N \<Longrightarrow> \<exists>t. ms_Labels x = [(''namespace'', t)]"
    using plain_labels packet_labels namespace_labels by (blast, blast, fastforce)
  have apart: "sample_key ` set (?C @ ?K) \<inter> sample_key ` set ?P = {}" "sample_key ` set (?C @ ?K) \<inter> sample_key ` set ?N = {}"
      "sample_key ` set ?P \<inter> sample_key ` set ?N = {}"
    using label_kinds unfolding sample_key_def by fastforce+
  have "distinct (map sample_key ((?C @ ?K) @ ?P @ ?N))"
    using counter_keys_distinct [of m s "sv_cluster s"] packet_keys_distinct [of m] N apart by (simp only: map_append distinct_append set_append set_map image_Un) blast
  then have "distinct (map sample_key (?C @ ?P @ ?N @ ?K))" by (simp only: map_append distinct_append set_append) blast
  then show ?thesis by (simp add: metrics_snapshot_def)
qed

lemma metric_of_sample:
  assumes "wf_map (sv_namespaces s)" "x \<in> set (sn_Samples (metrics_snapshot now m s))"
  shows "metric (metrics_snapshot now m s) (ms_Name x) (ms_Labels x) = Some (ms_Value x)"
proof -
  have "distinct (map fst (map (\<lambda>x. (sample_key x, ms_Value x)) (sn_Samples (metrics_snapshot now m s))))"
    using snapshot_keys_distinct [OF assms(1)] by (simp add: comp_def)
  moreover have "(sample_key x, ms_Value x) \<in> set (map (\<lambda>x. (sample_key x, ms_Value x)) (sn_Samples (metrics_snapshot now m s)))"
    using assms(2) by auto
  ultimately show ?thesis unfolding metric_def by (subst map_of_eq_Some_iff) (simp_all add: sample_key_def)
qed

definition stat_of :: "bytes \<Rightarrow> 'ty Namespace \<Rightarrow> namespaceStat" where
  "stat_of name n = (case adapter_stats (ns_adapter n) of
     (sockets, rooms, memberships) \<Rightarrow> \<lparr>st_namespace = name, st_sockets = sockets, st_rooms = rooms, st_memberships = memberships\<rparr>)"

lemma namespaceStats_eq: "namespaceStats s = map (\<lambda>(name, n). stat_of name n) (sv_namespaces s)"
  by (simp add: namespaceStats_def stat_of_def)

lemma stat_of_name [simp]: "st_namespace (stat_of name n) = name"
  by (simp add: stat_of_def adapter_stats_def)

lemma namespace_metric:
  assumes wf: "wf_map (sv_namespaces s)"
    and found: "\<And>st. \<exists>help. sample name help MetricGauge (f st) [(''namespace'', st_namespace st)] \<in> set (namespace_samples st)"
  shows "metric (metrics_snapshot now m s) name [(''namespace'', nsp)] = map_option (\<lambda>n. f (stat_of nsp n)) (map_of (sv_namespaces s) nsp)"
proof (cases "map_of (sv_namespaces s) nsp")
  case (Some n)
  let ?st = "stat_of nsp n"
  obtain h where "sample name h MetricGauge (f ?st) [(''namespace'', nsp)] \<in> set (namespace_samples ?st)" using found [of ?st] by auto
  moreover have "?st \<in> set (namespaceStats s)" using map_of_SomeD [OF Some] by (force simp: namespaceStats_eq)
  ultimately have "sample name h MetricGauge (f ?st) [(''namespace'', nsp)] \<in> set (sn_Samples (metrics_snapshot now m s))"
    by (auto simp: metrics_snapshot_def)
  from metric_of_sample [OF wf this] show ?thesis using Some by (simp add: sample_def)
next
  case None
  have "ms_Labels x \<noteq> [(''namespace'', nsp)]" if x: "x \<in> set (sn_Samples (metrics_snapshot now m s))" for x
  proof -
    consider "x \<in> set (counter_samples m s @ cluster_samples (sv_cluster s))" | "x \<in> set (packet_samples m)"
      | name' n where "(name', n) \<in> set (sv_namespaces s)" "x \<in> set (namespace_samples (stat_of name' n))"
      using x by (auto simp: metrics_snapshot_def namespaceStats_eq)
    then show ?thesis
    proof cases
      case 3
      then have "name' \<noteq> nsp" using None imageI [OF 3(1), of fst] by (auto simp: map_of_eq_None_iff)
      then show ?thesis using namespace_labels [OF 3(2)] by simp
    qed (use plain_labels packet_labels in fastforce)+
  qed
  then have "(name, [(''namespace'', nsp)]) \<notin> fst ` set (map (\<lambda>x. (sample_key x, ms_Value x)) (sn_Samples (metrics_snapshot now m s)))"
    by (force simp: sample_key_def)
  then have "metric (metrics_snapshot now m s) name [(''namespace'', nsp)] = None"
    unfolding metric_def by (simp only: map_of_eq_None_iff not_False_eq_True)
  then show ?thesis by (simp add: None)
qed


end
