(* ===== verification/Client.thy ===== *)
theory Client
  imports Scenarios
begin

text \<open>
  The Socket.IO client of \<^verbatim>\<open>siotest/client.go\<close>, which the package offers to test programs against: it speaks the other side of
  the protocol, so what it shows is that the two sides understand each other.

  The WebSocket library is outside. A connection is the list of what its successive \<^verbatim>\<open>Read\<close>s will return and of how its
  \<^verbatim>\<open>Write\<close>s will end; when nothing more arrives, \<^verbatim>\<open>Read\<close> returns the error of its context. The parts of
  \<^verbatim>\<open>encoding/json\<close> and \<^verbatim>\<open>net/url\<close> that the client calls are parameters: \<^verbatim>\<open>json.Marshal\<close> of a value,
  \<^verbatim>\<open>json.Unmarshal\<close> into a list of raw messages, into a string and into the two fields of a connect error.
\<close>

section \<open>Connections and errors\<close>

datatype client_error =
    ParseURLFailed bytes | UnsupportedScheme bytes | DialFailed | ReadFail | WriteFail | ContextDone
  | ExpectedOpen bytes | EncodeAuthFailed | EncodeEventFailed bytes | DecodePayloadFailed bytes | EmptyPayload bytes | NameDecodeFailed
  | ConnectError bytes bytes

text \<open>\<^verbatim>\<open>ConnectError.Error\<close>\<close>

definition connect_error_text :: "bytes \<Rightarrow> bytes" where
  "connect_error_text message = (if message \<noteq> [] then message else ''socket.io connect error'')"

record websocket =
  ws_in :: "(client_error, bytes) result list"
  ws_writes :: "client_error option list"
  ws_out :: "bytes list"
  ws_closed :: bool

definition ws_read :: "websocket \<Rightarrow> (client_error, bytes) result \<times> websocket" where
  "ws_read w = (case ws_in w of [] \<Rightarrow> (Inl ContextDone, w) | x # xs \<Rightarrow> (x, w\<lparr>ws_in := xs\<rparr>))"

definition ws_write :: "bytes \<Rightarrow> websocket \<Rightarrow> client_error option \<times> websocket" where
  "ws_write data w =
     (case ws_writes w of
        [] \<Rightarrow> (None, w\<lparr>ws_out := ws_out w @ [data]\<rparr>)
      | None # rest \<Rightarrow> (None, w\<lparr>ws_writes := rest, ws_out := ws_out w @ [data]\<rparr>)
      | Some e # rest \<Rightarrow> (Some e, w\<lparr>ws_writes := rest\<rparr>))"

definition ws_close :: "websocket \<Rightarrow> websocket" where
  "ws_close w = w\<lparr>ws_closed := True\<rparr>"

record Client =
  cl_conn :: websocket
  cl_namespace :: bytes

record client_event =
  ev_Name :: bytes
  ev_Args :: "bytes list"

record 'v client_json =
  cj_marshal :: "'v \<Rightarrow> bytes option"
  cj_string :: "bytes \<Rightarrow> 'v"
  cj_elements :: "bytes \<Rightarrow> bytes list option"
  cj_name :: "bytes \<Rightarrow> bytes option"
  cj_error :: "bytes \<Rightarrow> (bytes \<times> bytes) option"

text \<open>\<^verbatim>\<open>json.Marshal\<close> of a slice: the elements between brackets, or the error of the first that fails.\<close>

definition marshal_slice :: "('v \<Rightarrow> bytes option) \<Rightarrow> 'v list \<Rightarrow> bytes option" where
  "marshal_slice marshal vs =
     (if \<forall>v \<in> set vs. marshal v \<noteq> None then Some (''['' @ join_args (map (\<lambda>v. the (marshal v)) vs) @ '']'') else None)"

section \<open>Addresses and packets\<close>

record client_url =
  cu_Scheme :: bytes
  cu_Host :: bytes
  cu_Path :: bytes
  cu_Query :: "(bytes \<times> bytes list) list"

definition websocketURL :: "(bytes \<Rightarrow> client_url option) \<Rightarrow> bytes \<Rightarrow> bytes \<Rightarrow> (client_error, client_url) result" where
  "websocketURL url_parse rawURL path =
     (case url_parse rawURL of
        None \<Rightarrow> Inl (ParseURLFailed rawURL)
      | Some u \<Rightarrow>
          if cu_Scheme u \<notin> {''http'', ''https'', ''ws'', ''wss''} then Inl (UnsupportedScheme (cu_Scheme u))
          else (let scheme = (if cu_Scheme u = ''http'' then ''ws'' else if cu_Scheme u = ''https'' then ''wss'' else cu_Scheme u);
                    path = (if path = [] then ''/socket.io/'' else path);
                    path = (if has_suffix path ''/'' then path else path @ ''/'')
                in Inr (u\<lparr>cu_Scheme := scheme, cu_Path := path,
                     cu_Query := AList.update ''transport'' [''websocket''] (AList.update ''EIO'' [''4''] (cu_Query u))\<rparr>)))"

definition normalizeNamespace :: "bytes \<Rightarrow> bytes" where
  "normalizeNamespace namespace =
     (if namespace = [] then ''/'' else if namespace ! 0 \<noteq> CHR ''/'' then ''/'' @ namespace else namespace)"

definition client_appendNamespace :: "bytes \<Rightarrow> bytes \<Rightarrow> bytes" where
  "client_appendNamespace dst namespace = (if namespace = [] \<or> namespace = ''/'' then dst else dst @ namespace @ '','')"

definition connectPacket :: "'v client_json \<Rightarrow> bytes \<Rightarrow> 'v option \<Rightarrow> (client_error, bytes) result" where
  "connectPacket j namespace auth =
     (let packet = client_appendNamespace ''40'' namespace in
      case auth of
        None \<Rightarrow> Inr packet
      | Some v \<Rightarrow> (case cj_marshal j v of None \<Rightarrow> Inl EncodeAuthFailed | Some payload \<Rightarrow> Inr (packet @ payload)))"

definition AckPacket :: "'v client_json \<Rightarrow> u64 \<Rightarrow> 'v list \<Rightarrow> bytes option" where
  "AckPacket j ident args = map_option (\<lambda>payload. ''43'' @ format_uint ident @ payload) (marshal_slice (cj_marshal j) args)"

definition socketPayloadAfterHeader :: "bytes \<Rightarrow> bytes" where
  "socketPayloadAfterHeader data =
     (let rest = (if data \<noteq> [] \<and> data ! 0 = CHR ''/'' then
                    (case index_byte (CHR '','') data of None \<Rightarrow> data | Some idx \<Rightarrow> drop (idx + 1) data)
                  else data)
      in dropWhile (\<lambda>b. b \<ge> CHR ''0'' \<and> b \<le> CHR ''9'') rest)"

definition parseConnectError :: "'v client_json \<Rightarrow> bytes \<Rightarrow> client_error" where
  "parseConnectError j data =
     (let payload = socketPayloadAfterHeader data in
      case cj_error j payload of
        None \<Rightarrow> ConnectError ''socket.io connect error'' payload
      | Some (message, body) \<Rightarrow> ConnectError message body)"

section \<open>Connecting\<close>

definition expectOpen :: "websocket \<Rightarrow> client_error option \<times> websocket" where
  "expectOpen w =
     (case ws_read w of
        (Inl e, w') \<Rightarrow> (Some e, w')
      | (Inr data, w') \<Rightarrow> (if data = [] \<or> data ! 0 \<noteq> CHR ''0'' then Some (ExpectedOpen data) else None, w'))"

text \<open>The loops end because a read either takes one of the messages that arrived or fails.\<close>

function expectConnect :: "'v client_json \<Rightarrow> websocket \<Rightarrow> client_error option \<times> websocket" where
  "expectConnect j w =
     (case ws_in w of
        [] \<Rightarrow> (Some ContextDone, w)
      | Inl e # rest \<Rightarrow> (Some e, w\<lparr>ws_in := rest\<rparr>)
      | Inr data # rest \<Rightarrow>
          (let w = w\<lparr>ws_in := rest\<rparr> in
           if data = ''2'' then
             (case ws_write ''3'' w of
                (Some e, w) \<Rightarrow> (Some e, w)
              | (None, w) \<Rightarrow> expectConnect j w)
           else if has_prefix data ''40'' then (None, w)
           else if has_prefix data ''44'' then (Some (parseConnectError j (drop 2 data)), w)
           else expectConnect j w))"
  by pat_completeness auto

lemma ws_write_in [simp]: "ws_in (snd (ws_write data w)) = ws_in w"
  by (simp add: ws_write_def split: list.splits option.splits)

lemma ws_write_left: "ws_write data w = (e, w') \<Longrightarrow> ws_in w' = ws_in w"
  using ws_write_in [of data w] by simp

termination expectConnect
  by (relation "measure (\<lambda>(j, w). length (ws_in w))") (auto dest!: sym [THEN ws_write_left])

definition Dial ::
    "(bytes \<Rightarrow> client_url option) \<Rightarrow> (client_url \<Rightarrow> websocket option) \<Rightarrow> 'v client_json \<Rightarrow> bytes \<Rightarrow> bytes \<Rightarrow> bytes \<Rightarrow> 'v option
      \<Rightarrow> client_error \<times> websocket option + Client" where
  "Dial url_parse dial j rawURL path namespace auth =
     (case websocketURL url_parse rawURL path of
        Inl e \<Rightarrow> Inl (e, None)
      | Inr url \<Rightarrow>
          (case dial url of
             None \<Rightarrow> Inl (DialFailed, None)
           | Some conn \<Rightarrow>
               (let nsp = normalizeNamespace namespace in
                case expectOpen conn of
                  (Some e, w) \<Rightarrow> Inl (e, Some (ws_close w))
                | (None, w) \<Rightarrow>
                    (case connectPacket j nsp auth of
                       Inl e \<Rightarrow> Inl (e, Some (ws_close w))
                     | Inr packet \<Rightarrow>
                         (case ws_write packet w of
                            (Some e, w) \<Rightarrow> Inl (e, Some (ws_close w))
                          | (None, w) \<Rightarrow>
                              (case expectConnect j w of
                                 (Some e, w) \<Rightarrow> Inl (e, Some (ws_close w))
                               | (None, w) \<Rightarrow> Inr \<lparr>cl_conn = w, cl_namespace = nsp\<rparr>))))))"

definition Connect ::
    "(bytes \<Rightarrow> client_url option) \<Rightarrow> (client_url \<Rightarrow> websocket option) \<Rightarrow> 'v client_json \<Rightarrow> bytes \<Rightarrow> bytes \<Rightarrow> bytes \<Rightarrow> 'v option
      \<Rightarrow> client_error \<times> websocket option + Client" where
  "Connect url_parse dial j rawURL path namespace auth = Dial url_parse dial j rawURL path namespace auth"

definition client_Close :: "Client \<Rightarrow> Client" where
  "client_Close c = c\<lparr>cl_conn := ws_close (cl_conn c)\<rparr>"

section \<open>Events\<close>

definition client_Emit :: "'v client_json \<Rightarrow> Client \<Rightarrow> bytes \<Rightarrow> 'v list \<Rightarrow> client_error option \<times> Client" where
  "client_Emit j c event args =
     (case marshal_slice (cj_marshal j) (cj_string j event # args) of
        None \<Rightarrow> (Some (EncodeEventFailed event), c)
      | Some payload \<Rightarrow>
          (case ws_write (client_appendNamespace ''42'' (cl_namespace c) @ payload) (cl_conn c) of
             (e, w) \<Rightarrow> (e, c\<lparr>cl_conn := w\<rparr>)))"

definition decode_event :: "'v client_json \<Rightarrow> bytes \<Rightarrow> (client_error, client_event) result" where
  "decode_event j payload =
     (case cj_elements j payload of
        None \<Rightarrow> Inl (DecodePayloadFailed payload)
      | Some [] \<Rightarrow> Inl (EmptyPayload payload)
      | Some (first # args) \<Rightarrow>
          (case cj_name j first of None \<Rightarrow> Inl NameDecodeFailed | Some name \<Rightarrow> Inr \<lparr>ev_Name = name, ev_Args = args\<rparr>))"

function ReadEvent :: "'v client_json \<Rightarrow> websocket \<Rightarrow> (client_error, client_event) result \<times> websocket" where
  "ReadEvent j w =
     (case ws_in w of
        [] \<Rightarrow> (Inl ContextDone, w)
      | Inl e # rest \<Rightarrow> (Inl e, w\<lparr>ws_in := rest\<rparr>)
      | Inr data # rest \<Rightarrow>
          (let w = w\<lparr>ws_in := rest\<rparr> in
           if data = ''2'' then
             (case ws_write ''3'' w of
                (Some e, w) \<Rightarrow> (Inl e, w)
              | (None, w) \<Rightarrow> ReadEvent j w)
           else if \<not> has_prefix data ''42'' then ReadEvent j w
           else (decode_event j (socketPayloadAfterHeader (drop 2 data)), w)))"
  by pat_completeness auto

termination ReadEvent
  by (relation "measure (\<lambda>(j, w). length (ws_in w))") (auto dest!: sym [THEN ws_write_left])

declare expectConnect.simps [simp del] ReadEvent.simps [simp del]

section \<open>The two sides\<close>

text \<open>The client skips a header exactly as far as the server's parser reads it.\<close>

lemma header_skipped:
  assumes "wf_namespace nsp" "stops (\<lambda>b. b = CHR ''/'') payload" "stops isDigit payload"
  shows "socketPayloadAfterHeader ((if nsp \<noteq> [] \<and> nsp \<noteq> ''/'' then nsp @ '','' else []) @ (if hasID then format_uint ident else []) @ payload) = payload"
proof -
  define rest where "rest = (if hasID then format_uint ident else []) @ payload"
  have stop: "stops (\<lambda>b. b = CHR ''/'') rest" unfolding rest_def by (rule format_uint_stops [OF assms(2)])
  have digit: "isDigit b \<longleftrightarrow> b \<ge> CHR ''0'' \<and> b \<le> CHR ''9''" for b by (simp add: isDigit_eq is_dec_digit_def)
  have "dropWhile isDigit payload = payload" using assms(3) by (cases payload) simp_all
  moreover have "isDigit b" if "b \<in> set (format_uint ident)" for b
    using that format_nat_digits [of b "unat ident"] by (simp add: format_uint_def isDigit_eq)
  ultimately have skip: "dropWhile isDigit rest = payload" by (simp add: rest_def)
  have "(if data \<noteq> [] \<and> data ! 0 = CHR ''/'' then
      (case index_byte (CHR '','') data of None \<Rightarrow> data | Some idx \<Rightarrow> drop (idx + 1) data) else data) = rest"
    if data: "data = (if nsp \<noteq> [] \<and> nsp \<noteq> ''/'' then nsp @ '','' else []) @ rest" for data
  proof (cases "nsp = [] \<or> nsp = ''/''")
    case True
    then show ?thesis using stop data by (cases rest) auto
  next
    case False
    then obtain bs where nsp: "nsp = CHR ''/'' # bs" "CHR '','' \<notin> set nsp" using assms(1) by (cases nsp) (auto simp: wf_namespace_def)
    have "data = nsp @ CHR '','' # rest" using data False by simp
    moreover have "index_byte (CHR '','') (nsp @ CHR '','' # rest) = Some (length nsp)" by (rule index_byte_split [OF nsp(2)])
    moreover have "nsp @ CHR '','' # rest \<noteq> [] \<and> (nsp @ CHR '','' # rest) ! 0 = CHR ''/''" by (simp add: nsp(1))
    ultimately show ?thesis by simp
  qed
  then show ?thesis
    unfolding socketPayloadAfterHeader_def Let_def using skip by (simp add: rest_def digit [symmetric])
qed

lemma client_header: "client_appendNamespace [CHR ''4'', type_byte typ] nsp = CHR ''4'' # appendPacketHeader [] typ 0 nsp 0 False"
  if "\<not> is_binary typ"
  using that by (simp add: client_appendNamespace_def appendPacketHeader_def Let_def defaultNamespaceBytes_def)

text \<open>What a client that waits does with frames that are not for it: a ping is answered, the rest ignored.\<close>

definition pongs :: "bytes list \<Rightarrow> bytes list" where
  "pongs frames = map (\<lambda>_. ''3'') (filter (\<lambda>d. d = ''2'') frames)"

lemma expectConnect_waits:
  assumes "ws_in w = map Inr waiting @ Inr reply # later" "ws_writes w = []" "has_prefix reply ''40''"
    and "\<forall>d \<in> set waiting. \<not> has_prefix d ''40'' \<and> \<not> has_prefix d ''44''"
  shows "expectConnect j w = (None, w\<lparr>ws_in := later, ws_out := ws_out w @ pongs waiting\<rparr>)"
  using assms
proof (induction waiting arbitrary: w)
  case Nil
  then show ?case by (cases w) (subst expectConnect.simps, auto simp: pongs_def Let_def)
next
  case (Cons d ds)
  define w1 where "w1 = w\<lparr>ws_in := map Inr ds @ Inr reply # later\<rparr>"
  show ?case
  proof (cases "d = ''2''")
    case True
    define w2 where "w2 = w1\<lparr>ws_out := ws_out w1 @ [''3'']\<rparr>"
    have "ws_write ''3'' w1 = (None, w2)" using Cons.prems(2) by (simp add: ws_write_def w1_def w2_def)
    then have "expectConnect j w = expectConnect j w2"
      using Cons.prems(1) True by (subst expectConnect.simps) (simp add: Let_def w1_def [symmetric])
    then show ?thesis
      using Cons.IH [of w2] Cons.prems True by (simp add: w2_def w1_def pongs_def)
  next
    case False
    have "expectConnect j w = expectConnect j w1"
      using Cons.prems False by (subst expectConnect.simps) (simp add: Let_def w1_def [symmetric])
    then show ?thesis using Cons.IH [of w1] Cons.prems False by (simp add: w1_def pongs_def)
  qed
qed

lemma ReadEvent_waits:
  assumes "ws_in w = map Inr waiting @ Inr (CHR ''4'' # CHR ''2'' # body) # later" "ws_writes w = []"
    and "\<forall>d \<in> set waiting. \<not> has_prefix d ''42''"
  shows "ReadEvent j w = (decode_event j (socketPayloadAfterHeader body), w\<lparr>ws_in := later, ws_out := ws_out w @ pongs waiting\<rparr>)"
  using assms
proof (induction waiting arbitrary: w)
  case Nil
  then show ?case by (cases w) (subst ReadEvent.simps, auto simp: pongs_def Let_def)
next
  case (Cons d ds)
  define w1 where "w1 = w\<lparr>ws_in := map Inr ds @ Inr (CHR ''4'' # CHR ''2'' # body) # later\<rparr>"
  show ?case
  proof (cases "d = ''2''")
    case True
    define w2 where "w2 = w1\<lparr>ws_out := ws_out w1 @ [''3'']\<rparr>"
    have "ws_write ''3'' w1 = (None, w2)" using Cons.prems(2) by (simp add: ws_write_def w1_def w2_def)
    then have "ReadEvent j w = ReadEvent j w2"
      using Cons.prems(1) True by (subst ReadEvent.simps) (simp add: Let_def w1_def [symmetric])
    then show ?thesis using Cons.IH [of w2] Cons.prems True by (simp add: w2_def w1_def pongs_def)
  next
    case False
    have "ReadEvent j w = ReadEvent j w1"
      using Cons.prems False by (subst ReadEvent.simps) (simp add: Let_def w1_def [symmetric])
    then show ?thesis using Cons.IH [of w1] Cons.prems False by (simp add: w1_def pongs_def)
  qed
qed

lemma openPacket_start: "\<exists>rest. openPacket s e = CHR ''0'' # rest"
  by (simp add: openPacket_def Let_def appendJSONStringContent_eq)

lemma connect_reply_start: "\<exists>rest. appendConnectPacketString [] nsp sid pid = CHR ''0'' # rest"
  by (auto simp: appendConnectPacketString_def append_handshake_def appendJSONStringContent_eq appendPacketHeaderString_def Let_def)

lemma normalized_wf: "CHR '','' \<notin> set namespace \<Longrightarrow> wf_namespace (normalizeNamespace namespace) \<and> normalizeNamespace namespace \<noteq> []"
  by (cases namespace) (auto simp: normalizeNamespace_def wf_namespace_def)

text \<open>
  (C40) Client and server agree on the handshake. A client that dials a server which sends its open packet, then any frames that
  are neither a connect nor a connect error packet, then its connect packet, is connected in the normalized namespace and has read no
  further. It wrote one connect packet and an answer for every ping, and the server's parser reads that packet as a connect to the same
  namespace with the client's authentication object as its payload.
\<close>

theorem client_connects:
  assumes "websocketURL url_parse rawURL path = Inr url"
    and "dial url = Some \<lparr>ws_in = Inr (openPacket s e) # map Inr waiting @ Inr (CHR ''4'' # appendConnectPacketString [] nsp sid pid) # later,
      ws_writes = [], ws_out = [], ws_closed = False\<rparr>"
    and "\<forall>d \<in> set waiting. \<not> has_prefix d ''40'' \<and> \<not> has_prefix d ''44''"
    and "nsp = normalizeNamespace namespace" "CHR '','' \<notin> set namespace"
    and "cj_marshal j auth = Some payload" "stops isDigit payload" "stops (\<lambda>b. b = CHR ''/'') payload"
  shows "\<exists>c packet p. Dial url_parse dial j rawURL path namespace (Some auth) = Inr c \<and> cl_namespace c = nsp
    \<and> ws_in (cl_conn c) = later \<and> ws_out (cl_conn c) = (CHR ''4'' # packet) # pongs waiting
    \<and> ParsePacketView packet = Inr p \<and> pv_Type p = PacketConnect \<and> pv_Namespace p = nsp \<and> \<not> pv_HasID p \<and> pv_Payload p = payload"
proof -
  define packet where "packet = appendPacketHeader [] PacketConnect 0 nsp 0 False @ payload"
  have bin: "\<not> is_binary PacketConnect" "wf_count PacketConnect 0" by (simp_all add: wf_count_def is_binary_def)
  have nsp: "wf_namespace nsp" "nsp \<noteq> []" using normalized_wf [OF assms(5)] assms(4) by simp_all
  have sent: "connectPacket j nsp (Some auth) = Inr (CHR ''4'' # packet)"
    using client_header [OF bin(1), of nsp] assms(6) by (simp add: connectPacket_def packet_def)
  define w where "w = \<lparr>ws_in = map Inr waiting @ Inr (CHR ''4'' # appendConnectPacketString [] nsp sid pid) # later,
      ws_writes = [], ws_out = [CHR ''4'' # packet], ws_closed = False\<rparr>"
  obtain rest where rest: "openPacket s e = CHR ''0'' # rest" using openPacket_start by blast
  obtain tl where "appendConnectPacketString [] nsp sid pid = CHR ''0'' # tl" using connect_reply_start by blast
  then have reply: "has_prefix (CHR ''4'' # appendConnectPacketString [] nsp sid pid) ''40''" by simp
  have "expectConnect j w = (None, w\<lparr>ws_in := later, ws_out := ws_out w @ pongs waiting\<rparr>)"
    by (rule expectConnect_waits [OF _ _ reply assms(3)]) (simp_all add: w_def)
  then have "Dial url_parse dial j rawURL path namespace (Some auth) =
      Inr \<lparr>cl_conn = w\<lparr>ws_in := later, ws_out := ws_out w @ pongs waiting\<rparr>, cl_namespace = nsp\<rparr>"
    using assms(1,2) sent assms(4) rest
    by (simp add: Dial_def expectOpen_def ws_read_def ws_write_def Let_def w_def)
  moreover have "\<exists>p. ParsePacketView packet = Inr p \<and> pv_Type p = PacketConnect \<and> pv_Namespace p = nsp \<and> \<not> pv_HasID p \<and> pv_Payload p = payload"
    using ParsePacketView_header [OF bin(2) nsp(1) assms(8,7), of 0 False] nsp(2)
    by (simp add: packet_def parse_payload_def effective_namespace_def)
  ultimately show ?thesis by (auto simp: w_def)
qed

text \<open>
  What the client emits the server understands: an event with a name of printable characters and arguments that
  \<^verbatim>\<open>json.Marshal\<close> encodes each as one JSON value is written as one frame, which the server's parser reads as an event of the
  client's namespace, without an id, with that name and exactly these arguments.
\<close>

theorem client_emit_understood:
  assumes "wf_namespace (cl_namespace c)" "ws_writes (cl_conn c) = []"
    and "event \<noteq> []" "\<forall>b \<in> set event. plain_byte b" "cj_marshal j (cj_string j event) = Some (quote isprint event)"
    and "map (cj_marshal j) args = map Some texts" "\<forall>t \<in> set texts. one_value t"
  shows "\<exists>packet p. client_Emit j c event args = (None, c\<lparr>cl_conn := (cl_conn c)\<lparr>ws_out := ws_out (cl_conn c) @ [CHR ''4'' # packet]\<rparr>\<rparr>)
    \<and> ParsePacketView packet = Inr p \<and> pv_Type p = PacketEvent \<and> pv_Namespace p = effective_namespace (cl_namespace c) \<and> \<not> pv_HasID p
    \<and> pv_Event p = event \<and> view_collect (pv_Args p) = Inr texts"
proof -
  let ?nsp = "cl_namespace c"
  define packet where "packet = appendEventPacket isprint [] PacketEvent 0 ?nsp 0 False event texts"
  have bin: "\<not> is_binary PacketEvent" "wf_count PacketEvent 0" by (simp_all add: wf_count_def is_binary_def)
  have some: "\<forall>v \<in> set args. cj_marshal j v \<noteq> None"
    using arg_cong [OF assms(6), of set] by auto
  have "map the (map (cj_marshal j) args) = texts" unfolding assms(6) by (simp add: comp_def)
  then have "marshal_slice (cj_marshal j) (cj_string j event # args) = Some (''['' @ join_args (quote isprint event # texts) @ '']'')"
    using some assms(5) by (simp add: marshal_slice_def comp_def)
  then have "client_Emit j c event args = (None, c\<lparr>cl_conn := (cl_conn c)\<lparr>ws_out := ws_out (cl_conn c) @ [CHR ''4'' # packet]\<rparr>\<rparr>)"
    using client_header [OF bin(1), of ?nsp] assms(2) by (simp add: client_Emit_def ws_write_def packet_def appendEventPacket_eq)
  moreover obtain p where "ParsePacketView packet = Inr p" "pv_Type p = PacketEvent" "pv_Namespace p = effective_namespace ?nsp" "\<not> pv_HasID p"
      "pv_Event p = event" "view_collect (pv_Args p) = Inr texts"
    using event_parses [OF disjI1 [OF refl] bin(2) assms(1,3,4,7)] unfolding packet_def by blast
  ultimately show ?thesis by blast
qed

text \<open>
  What the server emits the client understands: a client that reads an event answers the pings and skips the other
  frames that come before it, and returns name and arguments of the packet the server printed, with or without an id, whatever its
  namespace; later frames are left to be read.
\<close>

theorem client_reads_server_event:
  assumes "ws_in w = map Inr waiting @ Inr (CHR ''4'' # appendEventPacketString isprint [] PacketEvent 0 nsp ident hasID event args) # later"
    and "ws_writes w = []" "\<forall>d \<in> set waiting. \<not> has_prefix d ''42''" "wf_namespace nsp"
    and "cj_elements j (''['' @ join_args (quote isprint event # args) @ '']'') = Some (quote isprint event # args)"
    and "cj_name j (quote isprint event) = Some event"
  shows "ReadEvent j w = (Inr \<lparr>ev_Name = event, ev_Args = args\<rparr>, w\<lparr>ws_in := later, ws_out := ws_out w @ pongs waiting\<rparr>)"
proof -
  define payload where "payload = ''['' @ join_args (quote isprint event # args) @ '']''"
  define body where "body = (if nsp \<noteq> [] \<and> nsp \<noteq> ''/'' then nsp @ '','' else []) @ (if hasID then format_uint ident else []) @ payload"
  have "appendEventPacketString isprint [] PacketEvent 0 nsp ident hasID event args = CHR ''2'' # body"
    by (simp add: appendEventPacketString_eq appendEventPacket_eq appendPacketHeader_def Let_def body_def payload_def is_binary_def defaultNamespaceBytes_def)
  moreover have "socketPayloadAfterHeader body = payload"
    unfolding body_def using assms(4) by (rule header_skipped) (simp_all add: payload_def)
  moreover have "decode_event j payload = Inr \<lparr>ev_Name = event, ev_Args = args\<rparr>" using assms(5,6) by (simp add: decode_event_def payload_def)
  ultimately show ?thesis using ReadEvent_waits [of w waiting body later j] assms(1-3) by simp
qed

section \<open>A client of a sample server\<close>

definition sample_json :: "bytes client_json" where
  "sample_json = \<lparr>cj_marshal = Some, cj_string = quote (\<lambda>_. True), cj_elements = (\<lambda>_. Some [quote (\<lambda>_. True) ''hi'', ''1'']),
     cj_name = (\<lambda>_. Some ''hi''), cj_error = (\<lambda>_. None)\<rparr>"

definition sample_url :: client_url where
  "sample_url = \<lparr>cu_Scheme = ''http'', cu_Host = ''h:80'', cu_Path = [], cu_Query = []\<rparr>"

definition sample_dialed :: websocket where
  "sample_dialed = \<lparr>ws_in = [Inr (openPacket two_clients (sample_conn ''c0'' 0)), Inr ''2'', Inr (CHR ''4'' # appendConnectPacketString [] ''/chat'' ''s1'' [])],
     ws_writes = [], ws_out = [], ws_closed = False\<rparr>"

theorem client_connects_witness:
  "\<exists>c packet p. Dial (\<lambda>_. Some sample_url) (\<lambda>_. Some sample_dialed) sample_json ''http://h:80'' [] ''chat'' (Some ''{}'') = Inr c
    \<and> cl_namespace c = ''/chat'' \<and> ws_out (cl_conn c) = [CHR ''4'' # packet, ''3'']
    \<and> ParsePacketView packet = Inr p \<and> pv_Namespace p = ''/chat'' \<and> pv_Payload p = ''{}''"
proof -
  have url: "websocketURL (\<lambda>_. Some sample_url) ''http://h:80'' [] = Inr \<lparr>cu_Scheme = ''ws'', cu_Host = ''h:80'', cu_Path = ''/socket.io/'',
      cu_Query = [(''EIO'', [''4'']), (''transport'', [''websocket''])]\<rparr>"
    by code_simp
  have dialed: "Some sample_dialed = Some \<lparr>ws_in = Inr (openPacket two_clients (sample_conn ''c0'' 0)) # map Inr [''2''] @
      Inr (CHR ''4'' # appendConnectPacketString [] ''/chat'' ''s1'' []) # [], ws_writes = [], ws_out = [], ws_closed = False\<rparr>"
    by (simp only: sample_dialed_def list.map append_Cons append_Nil)
  have skips: "\<forall>d \<in> set [''2'']. \<not> has_prefix d ''40'' \<and> \<not> has_prefix d ''44''" by simp
  have nsp: "''/chat'' = normalizeNamespace ''chat''" "CHR '','' \<notin> set ''chat''" by (simp_all add: normalizeNamespace_def)
  have auth: "cj_marshal sample_json ''{}'' = Some ''{}''" "stops isDigit ''{}''" "stops (\<lambda>b. b = CHR ''/'') ''{}''"
    by (simp_all add: sample_json_def isDigit_def)
  have pong: "pongs [''2''] = [''3'']" by (simp add: pongs_def)
  show ?thesis
    using client_connects [where dial = "\<lambda>_. Some sample_dialed", OF url dialed skips nsp auth] unfolding pong by blast
qed

theorem client_emit_understood_witness:
  "\<exists>packet p. client_Emit sample_json \<lparr>cl_conn = sample_dialed, cl_namespace = ''/chat''\<rparr> ''hi'' [''1'']
      = (None, \<lparr>cl_conn = sample_dialed\<lparr>ws_out := [CHR ''4'' # packet]\<rparr>, cl_namespace = ''/chat''\<rparr>)
    \<and> ParsePacketView packet = Inr p \<and> pv_Event p = ''hi'' \<and> view_collect (pv_Args p) = Inr [''1'']"
proof -
  have "one_value ''1''" by code_simp
  then show ?thesis
    using client_emit_understood [where c = "\<lparr>cl_conn = sample_dialed, cl_namespace = ''/chat''\<rparr>" and event = "''hi''" and j = sample_json
        and isprint = "\<lambda>_. True" and args = "[''1'']" and texts = "[''1'']"]
    by (auto simp: sample_dialed_def sample_json_def wf_namespace_def plain_byte_def)
qed

theorem client_reads_server_event_witness:
  "ReadEvent sample_json \<lparr>ws_in = [Inr ''2'', Inr ''6'', Inr (CHR ''4'' # appendEventPacketString (\<lambda>_. True) [] PacketEvent 0 ''/chat'' 7 True ''hi'' [''1''])],
      ws_writes = [], ws_out = [], ws_closed = False\<rparr> =
    (Inr \<lparr>ev_Name = ''hi'', ev_Args = [''1'']\<rparr>, \<lparr>ws_in = [], ws_writes = [], ws_out = [''3''], ws_closed = False\<rparr>)"
  using client_reads_server_event [where w = "\<lparr>ws_in = [Inr ''2'', Inr ''6'',
        Inr (CHR ''4'' # appendEventPacketString (\<lambda>_. True) [] PacketEvent 0 ''/chat'' 7 True ''hi'' [''1''])], ws_writes = [], ws_out = [], ws_closed = False\<rparr>"
      and waiting = "[''2'', ''6'']" and isprint = "\<lambda>_. True" and nsp = "''/chat''" and ident = 7 and hasID = True and event = "''hi''"
      and args = "[''1'']" and later = "[]" and j = sample_json]
  by (simp add: sample_json_def wf_namespace_def pongs_def)

end
