(* ===== verification/Fanout.thy ===== *)
theory Fanout
  imports Scenarios "HOL-Library.Multiset"
begin

text \<open>
  The fan-out of \<^verbatim>\<open>cluster.go\<close> as it really runs: callers of \<^verbatim>\<open>postToPeers\<close> put a job for every peer into one bounded channel,
  the workers (\<^verbatim>\<open>runFanoutWorker\<close>) take jobs out, post them and reply on the channel of the caller, and the caller collects the
  replies. Every interleaving of callers and workers is a run of the step relation \<open>fan_step\<close>. The development's sequential model of
  \<^verbatim>\<open>postToPeers\<close> posts in the order of the peers; what is shown here is that the concurrent one returns the same responses, in
  some order, and that it never gets stuck.
\<close>

section \<open>State\<close>

text \<open>
  One call of \<^verbatim>\<open>postToPeers\<close>: \<open>ca_requests\<close> are the jobs of all peers, \<open>ca_todo\<close> those the loop has not submitted yet; \<open>ca_reply\<close> is the
  channel \<^verbatim>\<open>reply\<close>, whose capacity is the number of peers. A reply without a header is \<^const>\<open>None\<close>.
\<close>

record fan_call =
  ca_requests :: "clusterRequest list"
  ca_todo :: "clusterRequest list"
  ca_submitted :: nat
  ca_received :: nat
  ca_reply :: "clusterResponse option list"
  ca_responses :: "clusterResponse list"
  ca_returned :: bool

text \<open>\<open>fa_jobs\<close> is the channel \<^verbatim>\<open>c.jobs\<close>, \<open>fa_busy\<close> the jobs the workers are posting, \<open>fa_done\<close> the context of the server.\<close>

record ('ty, 'v) fanout =
  fa_server :: "('ty, 'v) Server"
  fa_capacity :: nat
  fa_jobs :: "(nat \<times> clusterRequest) list"
  fa_workers :: nat
  fa_busy :: "(nat \<times> clusterRequest) list"
  fa_done :: bool
  fa_calls :: "fan_call list"

definition new_call :: "clusterRequest list \<Rightarrow> fan_call" where
  "new_call rs = \<lparr>ca_requests = rs, ca_todo = rs, ca_submitted = 0, ca_received = 0, ca_reply = [], ca_responses = [], ca_returned = False\<rparr>"

definition idle_fanout :: "('ty, 'v) Server \<Rightarrow> nat \<Rightarrow> ('ty, 'v) fanout" where
  "idle_fanout s workers = \<lparr>fa_server = s, fa_capacity = workers * 4, fa_jobs = [], fa_workers = workers, fa_busy = [], fa_done = False, fa_calls = []\<rparr>"

definition upd_call :: "nat \<Rightarrow> (fan_call \<Rightarrow> fan_call) \<Rightarrow> ('ty, 'v) fanout \<Rightarrow> ('ty, 'v) fanout" where
  "upd_call i g f = f\<lparr>fa_calls := (fa_calls f)[i := g (fa_calls f ! i)]\<rparr>"

section \<open>Steps\<close>

text \<open>The turn of a caller that puts its next job into the channel.\<close>

definition submit_job :: "nat \<Rightarrow> ('ty, 'v) fanout \<Rightarrow> ('ty, 'v) fanout" where
  "submit_job i f = upd_call i (\<lambda>c. c\<lparr>ca_todo := tl (ca_todo c), ca_submitted := ca_submitted c + 1\<rparr>)
     (f\<lparr>fa_jobs := fa_jobs f @ [(i, hd (ca_todo (fa_calls f ! i)))]\<rparr>)"

text \<open>The turn of a worker that has posted the job it took: the reply goes to the caller.\<close>

definition finish_job :: "(clusterRequest \<Rightarrow> post_result) \<Rightarrow> nat \<Rightarrow> ('ty, 'v) fanout \<Rightarrow> ('ty, 'v) fanout" where
  "finish_job net n f =
     (let (i, r) = fa_busy f ! n; (response, s) = doPost net r (fa_server f)
      in upd_call i (\<lambda>c. c\<lparr>ca_reply := ca_reply c @ [response]\<rparr>)
           (f\<lparr>fa_server := s, fa_busy := take n (fa_busy f) @ drop (Suc n) (fa_busy f)\<rparr>))"

text \<open>The turn of a caller that receives a reply.\<close>

definition receive_reply :: "nat \<Rightarrow> ('ty, 'v) fanout \<Rightarrow> ('ty, 'v) fanout" where
  "receive_reply i f = upd_call i (\<lambda>c. c\<lparr>ca_reply := tl (ca_reply c), ca_received := ca_received c + 1,
     ca_responses := ca_responses c @ (case hd (ca_reply c) of None \<Rightarrow> [] | Some r \<Rightarrow> [r])\<rparr>) f"

text \<open>
  The first five steps are the program at work; then what comes from outside (a new call, the end of the context) and what the end of
  the context allows: a caller gives up, a worker ends, with or without a reply to send.
\<close>

inductive fan_work :: "(clusterRequest \<Rightarrow> post_result) \<Rightarrow> ('ty, 'v) fanout \<Rightarrow> ('ty, 'v) fanout \<Rightarrow> bool" for net where
  submits: "i < length (fa_calls f) \<Longrightarrow> \<not> ca_returned (fa_calls f ! i) \<Longrightarrow> ca_todo (fa_calls f ! i) \<noteq> [] \<Longrightarrow>
    length (fa_jobs f) < fa_capacity f \<Longrightarrow> fan_work net f (submit_job i f)"
| takes: "fa_jobs f = j # js \<Longrightarrow> length (fa_busy f) < fa_workers f \<Longrightarrow> fan_work net f (f\<lparr>fa_jobs := js, fa_busy := fa_busy f @ [j]\<rparr>)"
| finishes: "n < length (fa_busy f) \<Longrightarrow> fan_work net f (finish_job net n f)"
| receives: "i < length (fa_calls f) \<Longrightarrow> \<not> ca_returned (fa_calls f ! i) \<Longrightarrow> ca_todo (fa_calls f ! i) = [] \<Longrightarrow>
    ca_received (fa_calls f ! i) < ca_submitted (fa_calls f ! i) \<Longrightarrow> ca_reply (fa_calls f ! i) \<noteq> [] \<Longrightarrow> fan_work net f (receive_reply i f)"
| returns: "i < length (fa_calls f) \<Longrightarrow> \<not> ca_returned (fa_calls f ! i) \<Longrightarrow> ca_todo (fa_calls f ! i) = [] \<Longrightarrow>
    ca_received (fa_calls f ! i) = ca_submitted (fa_calls f ! i) \<Longrightarrow> fan_work net f (upd_call i (\<lambda>c. c\<lparr>ca_returned := True\<rparr>) f)"

inductive fan_step :: "(clusterRequest \<Rightarrow> post_result) \<Rightarrow> ('ty, 'v) fanout \<Rightarrow> ('ty, 'v) fanout \<Rightarrow> bool" for net where
  works: "fan_work net f f' \<Longrightarrow> fan_step net f f'"
| calls: "fan_step net f (f\<lparr>fa_calls := fa_calls f @ [new_call rs]\<rparr>)"
| cancels: "fan_step net f (f\<lparr>fa_done := True\<rparr>)"
| abandons: "fa_done f \<Longrightarrow> i < length (fa_calls f) \<Longrightarrow> fan_step net f (upd_call i (\<lambda>c. c\<lparr>ca_returned := True\<rparr>) f)"
| stops: "fa_done f \<Longrightarrow> length (fa_busy f) < fa_workers f \<Longrightarrow> fan_step net f (f\<lparr>fa_workers := fa_workers f - 1\<rparr>)"
| drops: "fa_done f \<Longrightarrow> n < length (fa_busy f) \<Longrightarrow>
    fan_step net f (f\<lparr>fa_workers := fa_workers f - 1, fa_busy := take n (fa_busy f) @ drop (Suc n) (fa_busy f),
      fa_server := snd (doPost net (snd (fa_busy f ! n)) (fa_server f))\<rparr>)"

inductive fan_reached :: "(clusterRequest \<Rightarrow> post_result) \<Rightarrow> ('ty, 'v) fanout \<Rightarrow> ('ty, 'v) fanout \<Rightarrow> bool" for net f where
  begins: "fan_reached net f f"
| goes: "fan_reached net f g \<Longrightarrow> fan_step net g h \<Longrightarrow> fan_reached net f h"

section \<open>Accounting\<close>

text \<open>What a post returns does not depend on the state of the server.\<close>

definition answer :: "(clusterRequest \<Rightarrow> post_result) \<Rightarrow> clusterRequest \<Rightarrow> clusterResponse option" where
  "answer net r =
     (case net r of
        CreateFails \<Rightarrow> None
      | DoFails \<Rightarrow> None
      | Responds status expected body \<Rightarrow>
          (let wanted = (cq_op r = ''fetch'' \<or> cq_op r = ''csr'') in
           if wanted \<and> body = None then None
           else Some \<lparr>cp_peer = cq_peer r, cp_statusCode = status, cp_expected = expected, cp_body = (if wanted then the body else [])\<rparr>))"

lemma doPost_answer: "fst (doPost net r s) = answer net r"
  by (simp add: doPost_def answer_def Let_def split: post_result.split)

definition opt :: "'a option \<Rightarrow> 'a multiset" where
  "opt x = (case x of None \<Rightarrow> {#} | Some y \<Rightarrow> {#y#})"

definition yields :: "(clusterRequest \<Rightarrow> post_result) \<Rightarrow> clusterRequest multiset \<Rightarrow> clusterResponse multiset" where
  "yields net M = \<Sum>\<^sub># (image_mset (\<lambda>r. opt (answer net r)) M)"

lemma yields_simps [simp]:
  "yields net {#} = {#}" "yields net (add_mset r M) = opt (answer net r) + yields net M" "yields net (M + N) = yields net M + yields net N"
  by (simp_all add: yields_def)

lemma post_each_yields: "mset (fst (post_each net c op q body peers s)) = yields net (mset (map (\<lambda>p. cluster_request c op p q body) peers))"
proof (induction peers arbitrary: s)
  case (Cons p peers)
  show ?case
    using Cons [of "snd (doPost net (cluster_request c op p q body) s)"] doPost_answer [of net "cluster_request c op p q body" s]
    by (cases "answer net (cluster_request c op p q body)") (simp_all add: case_prod_unfold Let_def opt_def)
qed simp

definition mine :: "nat \<Rightarrow> (nat \<times> clusterRequest) list \<Rightarrow> clusterRequest multiset" where
  "mine k xs = mset (map snd (filter (\<lambda>j. fst j = k) xs))"

lemma mine_simps [simp]:
  "mine k [] = {#}" "mine k (x # xs) = (if fst x = k then add_mset (snd x) (mine k xs) else mine k xs)" "mine k (xs @ ys) = mine k xs + mine k ys"
  by (simp_all add: mine_def)

lemma mine_remove:
  assumes "n < length xs"
  shows "mine k xs = (if fst (xs ! n) = k then {#snd (xs ! n)#} else {#}) + mine k (take n xs @ drop (Suc n) xs)"
  by (subst id_take_nth_drop [OF assms]) simp

lemma mine_none: "(\<And>j. j \<in> set xs \<Longrightarrow> fst j \<noteq> k) \<Longrightarrow> mine k xs = {#}"
  by (simp add: mine_def filter_empty_conv)

text \<open>The jobs of a call that are in the channel or with a worker, and the answers it has got or is going to get.\<close>

definition under_way :: "('ty, 'v) fanout \<Rightarrow> nat \<Rightarrow> clusterRequest multiset" where
  "under_way f k = mine k (fa_jobs f) + mine k (fa_busy f)"

definition due :: "(clusterRequest \<Rightarrow> post_result) \<Rightarrow> ('ty, 'v) fanout \<Rightarrow> nat \<Rightarrow> clusterResponse multiset" where
  "due net f k = (let c = fa_calls f ! k in
     yields net (mset (ca_todo c)) + yields net (under_way f k) + \<Sum>\<^sub># (mset (map opt (ca_reply c))) + mset (ca_responses c))"

definition counted_replies :: "('ty, 'v) fanout \<Rightarrow> nat \<Rightarrow> nat" where
  "counted_replies f k = (let c = fa_calls f ! k in ca_received c + length (ca_reply c) + size (under_way f k))"

definition call_ok :: "(clusterRequest \<Rightarrow> post_result) \<Rightarrow> ('ty, 'v) fanout \<Rightarrow> nat \<Rightarrow> bool" where
  "call_ok net f k \<longleftrightarrow> (let c = fa_calls f ! k in
     ca_submitted c + length (ca_todo c) = length (ca_requests c) \<and>
     counted_replies f k \<le> ca_submitted c \<and> (\<not> fa_done f \<longrightarrow> counted_replies f k = ca_submitted c) \<and>
     due net f k \<subseteq># yields net (mset (ca_requests c)) \<and> (\<not> fa_done f \<longrightarrow> due net f k = yields net (mset (ca_requests c))) \<and>
     (ca_returned c \<and> \<not> fa_done f \<longrightarrow> ca_todo c = [] \<and> ca_received c = ca_submitted c))"

definition fan_ok :: "(clusterRequest \<Rightarrow> post_result) \<Rightarrow> ('ty, 'v) fanout \<Rightarrow> bool" where
  "fan_ok net f \<longleftrightarrow> (\<forall>k < length (fa_calls f). call_ok net f k) \<and> (\<forall>j \<in> set (fa_jobs f @ fa_busy f). fst j < length (fa_calls f))"

lemma fan_ok_index:
  assumes "fan_ok net f"
  shows "j \<in> set (fa_jobs f) \<Longrightarrow> fst j < length (fa_calls f)" "j \<in> set (fa_busy f) \<Longrightarrow> fst j < length (fa_calls f)"
  using assms unfolding fan_ok_def set_append by blast+

text \<open>A step that leaves a call, its jobs and the context alone keeps what holds of it.\<close>

lemma call_ok_frame:
  assumes "call_ok net f k" "fa_calls f' ! k = fa_calls f ! k" "under_way f' k = under_way f k" "fa_done f' = fa_done f"
  shows "call_ok net f' k"
  using assms by (simp add: call_ok_def due_def counted_replies_def Let_def)

lemma upd_call_sel [simp]:
  "length (fa_calls (upd_call i g f)) = length (fa_calls f)" "fa_jobs (upd_call i g f) = fa_jobs f" "fa_busy (upd_call i g f) = fa_busy f"
  "fa_done (upd_call i g f) = fa_done f" "under_way (upd_call i g f) = under_way f" "fa_workers (upd_call i g f) = fa_workers f"
  "fa_capacity (upd_call i g f) = fa_capacity f"
  "k \<noteq> i \<Longrightarrow> fa_calls (upd_call i g f) ! k = fa_calls f ! k"
  "i < length (fa_calls f) \<Longrightarrow> fa_calls (upd_call i g f) ! i = g (fa_calls f ! i)"
  by (simp_all add: upd_call_def under_way_def fun_eq_iff)

lemma fan_ok_one:
  assumes "fan_ok net f" "length (fa_calls f') = length (fa_calls f)" "fa_done f' = fa_done f"
    and "\<forall>j \<in> set (fa_jobs f' @ fa_busy f'). fst j < length (fa_calls f)"
    and "\<And>k. k < length (fa_calls f) \<Longrightarrow> k \<noteq> i \<Longrightarrow> fa_calls f' ! k = fa_calls f ! k \<and> under_way f' k = under_way f k"
    and "i < length (fa_calls f) \<Longrightarrow> call_ok net f i \<Longrightarrow> call_ok net f' i"
  shows "fan_ok net f'"
proof -
  have "call_ok net f' k" if "k < length (fa_calls f)" for k
  proof (cases "k = i")
    case False
    have old: "call_ok net f k" using assms(1) that by (simp add: fan_ok_def)
    show ?thesis using call_ok_frame [OF old _ _ assms(3)] assms(5) [OF that False] by blast
  next
    case True
    have "call_ok net f i" using assms(1) that True by (simp add: fan_ok_def)
    then show ?thesis using assms(6) that True by blast
  qed
  then show ?thesis using assms(2,4) by (simp add: fan_ok_def)
qed

lemma fan_work_ok: "fan_work net f f' \<Longrightarrow> fan_ok net f \<Longrightarrow> fan_ok net f'"
proof (induction rule: fan_work.induct)
  case (submits i f)
  then obtain r rs where todo: "ca_todo (fa_calls f ! i) = r # rs" by (cases "ca_todo (fa_calls f ! i)") auto
  have uw: "under_way (submit_job i f) k = (if k = i then add_mset r (under_way f k) else under_way f k)" for k
    by (simp add: submit_job_def under_way_def todo upd_call_def)
  show ?case
  proof (rule fan_ok_one [OF submits(5)])
    show "\<forall>j \<in> set (fa_jobs (submit_job i f) @ fa_busy (submit_job i f)). fst j < length (fa_calls f)"
      using submits by (auto simp: submit_job_def upd_call_def fan_ok_def)
  next
    fix k assume "k < length (fa_calls f)" "k \<noteq> i"
    then show "fa_calls (submit_job i f) ! k = fa_calls f ! k \<and> under_way (submit_job i f) k = under_way f k"
      by (simp only: uw) (simp add: submit_job_def)
  next
    assume ok: "call_ok net f i"
    have c: "fa_calls (submit_job i f) ! i = (fa_calls f ! i)\<lparr>ca_todo := rs, ca_submitted := ca_submitted (fa_calls f ! i) + 1\<rparr>"
      using submits(1) by (simp add: submit_job_def todo upd_call_def)
    have "fa_done (submit_job i f) = fa_done f" by (simp add: submit_job_def)
    then show "call_ok net (submit_job i f) i"
      using ok submits(2) by (simp add: call_ok_def due_def counted_replies_def Let_def c uw todo ac_simps)
  qed (simp_all add: submit_job_def)
next
  case (takes f j js)
  show ?case
    by (rule fan_ok_one [OF takes(3), of _ "length (fa_calls f)"]) (use takes in \<open>auto simp: fan_ok_def under_way_def\<close>)
next
  case (finishes n f)
  obtain i r where j: "fa_busy f ! n = (i, r)" by fastforce
  let ?f = "finish_job net n f"
  have f: "fa_jobs ?f = fa_jobs f" "fa_busy ?f = take n (fa_busy f) @ drop (Suc n) (fa_busy f)" "fa_done ?f = fa_done f"
      "fa_calls ?f = (fa_calls f)[i := (fa_calls f ! i)\<lparr>ca_reply := ca_reply (fa_calls f ! i) @ [answer net r]\<rparr>]"
    using doPost_answer [of net r "fa_server f"] by (simp_all add: finish_job_def j Let_def case_prod_unfold upd_call_def)
  have uw: "under_way f k = (if i = k then add_mset r (under_way ?f k) else under_way ?f k)" for k
    using mine_remove [OF finishes(1), of k] by (simp add: under_way_def f j)
  have "(i, r) \<in> set (fa_busy f)" using nth_mem [OF finishes(1)] j by simp
  then have i: "i < length (fa_calls f)" using fan_ok_index(2) [OF finishes(2)] by fastforce
  show ?case
  proof (rule fan_ok_one [OF finishes(2), of _ i])
    show "\<forall>j \<in> set (fa_jobs ?f @ fa_busy ?f). fst j < length (fa_calls f)"
      using finishes(2) by (auto simp: f fan_ok_def dest: in_set_takeD in_set_dropD)
  next
    fix k assume "k < length (fa_calls f)" "k \<noteq> i"
    then show "fa_calls ?f ! k = fa_calls f ! k \<and> under_way ?f k = under_way f k" using uw [of k] by (simp add: f)
  next
    assume ok: "call_ok net f i"
    then show "call_ok net ?f i"
      using i uw [of i] by (simp add: call_ok_def due_def counted_replies_def Let_def f ac_simps)
  qed (simp_all add: f)
next
  case (receives i f)
  then obtain x xs where reply: "ca_reply (fa_calls f ! i) = x # xs" by (cases "ca_reply (fa_calls f ! i)") auto
  show ?case
  proof (rule fan_ok_one [OF receives(6), of _ i])
    assume ok: "call_ok net f i"
    have "mset (case x of None \<Rightarrow> [] | Some r \<Rightarrow> [r]) = opt x" by (simp add: opt_def split: option.split)
    then show "call_ok net (receive_reply i f) i"
      using ok receives(1,2) by (simp add: call_ok_def due_def counted_replies_def Let_def receive_reply_def reply ac_simps)
  qed (use receives(6) in \<open>simp_all add: receive_reply_def fan_ok_def\<close>)
next
  case (returns i f)
  show ?case
  proof (rule fan_ok_one [OF returns(5), of _ i])
    assume "call_ok net f i"
    then show "call_ok net (upd_call i (\<lambda>c. c\<lparr>ca_returned := True\<rparr>) f) i"
      using returns(1,3,4) by (auto simp: call_ok_def due_def counted_replies_def Let_def)
  qed (use returns(5) in \<open>simp_all add: fan_ok_def\<close>)
qed

lemma fan_ok_later:
  assumes "fan_ok net f" "fa_calls f' = fa_calls f" "fa_done f'" "set (fa_jobs f') \<subseteq> set (fa_jobs f)" "set (fa_busy f') \<subseteq> set (fa_busy f)"
    and "\<And>k. under_way f' k \<subseteq># under_way f k"
  shows "fan_ok net f'"
proof -
  have "call_ok net f' k" if "k < length (fa_calls f)" for k
  proof -
    have ok: "call_ok net f k" using assms(1) that by (simp add: fan_ok_def)
    obtain M where M: "under_way f k = under_way f' k + M" using assms(6) [of k] mset_subset_eq_exists_conv by blast
    then have "due net f' k \<subseteq># due net f k" using assms(2) by (simp add: due_def Let_def ac_simps)
    moreover have "counted_replies f' k \<le> counted_replies f k" using M assms(2) by (simp add: counted_replies_def Let_def)
    ultimately show ?thesis
      using ok assms(2,3) unfolding call_ok_def Let_def by (metis order_trans subset_mset.order_trans)
  qed
  then show ?thesis using assms(1,2,4,5) by (auto simp: fan_ok_def)
qed

lemma fan_step_ok: "fan_step net f f' \<Longrightarrow> fan_ok net f \<Longrightarrow> fan_ok net f'"
proof (induction rule: fan_step.induct)
  case (works f f')
  then show ?case by (rule fan_work_ok)
next
  case (calls f rs)
  let ?f = "f\<lparr>fa_calls := fa_calls f @ [new_call rs]\<rparr>"
  have uw: "under_way ?f = under_way f" by (simp add: under_way_def fun_eq_iff)
  have "under_way f (length (fa_calls f)) = {#}"
    using fan_ok_index [OF calls] by (simp add: under_way_def mine_none less_imp_neq)
  then have "call_ok net ?f (length (fa_calls f))"
    by (simp add: call_ok_def due_def counted_replies_def Let_def uw) (simp add: new_call_def)
  moreover have "call_ok net ?f k" if "k < length (fa_calls f)" for k
  proof -
    have "call_ok net f k" using calls that by (simp add: fan_ok_def)
    then show ?thesis by (rule call_ok_frame) (use that in \<open>simp_all add: uw nth_append\<close>)
  qed
  ultimately show ?case using calls by (auto simp: fan_ok_def less_Suc_eq)
next
  case (cancels f)
  then show ?case by (rule fan_ok_later) (simp_all add: under_way_def)
next
  case (abandons f i)
  show ?case
  proof (rule fan_ok_one [OF abandons(3), of _ i])
    assume "call_ok net f i"
    then show "call_ok net (upd_call i (\<lambda>c. c\<lparr>ca_returned := True\<rparr>) f) i"
      using abandons(1,2) by (simp add: call_ok_def due_def counted_replies_def Let_def)
  qed (use abandons(3) in \<open>simp_all add: fan_ok_def\<close>)
next
  case (stops f)
  then show ?case by (intro fan_ok_later [OF stops(3)]) (simp_all add: under_way_def)
next
  case (drops f n)
  let ?f = "f\<lparr>fa_workers := fa_workers f - 1, fa_busy := take n (fa_busy f) @ drop (Suc n) (fa_busy f),
      fa_server := snd (doPost net (snd (fa_busy f ! n)) (fa_server f))\<rparr>"
  have "mine k (take n (fa_busy f) @ drop (Suc n) (fa_busy f)) \<subseteq># mine k (fa_busy f)" for k
    using mine_remove [OF drops(2), of k] by simp
  then have "under_way ?f k \<subseteq># under_way f k" for k by (simp add: under_way_def)
  then show ?case
    by (intro fan_ok_later [OF drops(3)]) (use drops(1) in \<open>auto dest: in_set_takeD in_set_dropD\<close>)
qed

lemma fan_reached_ok: "fan_reached net f g \<Longrightarrow> fan_ok net f \<Longrightarrow> fan_ok net g"
  by (induction rule: fan_reached.induct) (auto intro: fan_step_ok)

lemma idle_ok: "fan_ok net (idle_fanout s workers)"
  by (simp add: fan_ok_def idle_fanout_def)

section \<open>Progress\<close>

text \<open>What is left to do, an upper bound on the number of steps.\<close>

definition call_effort :: "fan_call \<Rightarrow> nat" where
  "call_effort c = 4 * length (ca_todo c) + length (ca_reply c) + (if ca_returned c then 0 else 1)"

definition effort :: "('ty, 'v) fanout \<Rightarrow> nat" where
  "effort f = sum_list (map call_effort (fa_calls f)) + 3 * length (fa_jobs f) + 2 * length (fa_busy f)"

lemma effort_upd:
  "i < length (fa_calls f) \<Longrightarrow> effort (upd_call i g f) + call_effort (fa_calls f ! i) = effort f + call_effort (g (fa_calls f ! i))"
  using sum_list_map_update [of i "fa_calls f" call_effort "g (fa_calls f ! i)"] by (simp add: effort_def upd_call_def)

lemma fan_work_effort: "fan_work net f f' \<Longrightarrow> fan_ok net f \<Longrightarrow> effort f' < effort f"
proof (induction rule: fan_work.induct)
  case (submits i f)
  let ?f = "f\<lparr>fa_jobs := fa_jobs f @ [(i, hd (ca_todo (fa_calls f ! i)))]\<rparr>"
  have "effort ?f = effort f + 3" by (simp add: effort_def)
  then show ?case
    using effort_upd [of i ?f "\<lambda>c. c\<lparr>ca_todo := tl (ca_todo c), ca_submitted := ca_submitted c + 1\<rparr>"] submits(1,3)
    by (cases "ca_todo (fa_calls f ! i)") (simp_all add: submit_job_def call_effort_def)
next
  case (takes f j js)
  then show ?case by (simp add: effort_def)
next
  case (finishes n f)
  obtain i r where j: "fa_busy f ! n = (i, r)" by fastforce
  let ?f = "f\<lparr>fa_server := snd (doPost net r (fa_server f)), fa_busy := take n (fa_busy f) @ drop (Suc n) (fa_busy f)\<rparr>"
  have i: "i < length (fa_calls ?f)" using fan_ok_index(2) [OF finishes(2) nth_mem [OF finishes(1)]] j by simp
  have "effort ?f + 2 = effort f" using finishes(1) by (simp add: effort_def)
  then show ?case
    using effort_upd [OF i, of "\<lambda>c. c\<lparr>ca_reply := ca_reply c @ [fst (doPost net r (fa_server f))]\<rparr>"]
    by (simp add: finish_job_def j case_prod_unfold Let_def call_effort_def)
next
  case (receives i f)
  then show ?case
    using effort_upd [OF receives(1), of "\<lambda>c. c\<lparr>ca_reply := tl (ca_reply c), ca_received := ca_received c + 1,
        ca_responses := ca_responses c @ (case hd (ca_reply c) of None \<Rightarrow> [] | Some r \<Rightarrow> [r])\<rparr>"]
    by (cases "ca_reply (fa_calls f ! i)") (simp_all add: receive_reply_def call_effort_def)
next
  case (returns i f)
  then show ?case using effort_upd [OF returns(1), of "\<lambda>c. c\<lparr>ca_returned := True\<rparr>"] by (simp add: call_effort_def)
qed

lemma fan_progress:
  assumes ok: "fan_ok net f" and f: "\<not> fa_done f" "0 < fa_workers f" "0 < fa_capacity f" and i: "i < length (fa_calls f)" "\<not> ca_returned (fa_calls f ! i)"
  shows "\<exists>f'. fan_work net f f'"
proof (cases "fa_busy f = [] \<and> fa_jobs f = []")
  case True
  then have none: "under_way f i = {#}" by (simp add: under_way_def)
  show ?thesis
  proof (cases "ca_todo (fa_calls f ! i) = []")
    case False
    then show ?thesis using fan_work.submits [OF i False] f(3) True by auto
  next
    case todo: True
    have eq: "ca_received (fa_calls f ! i) + length (ca_reply (fa_calls f ! i)) = ca_submitted (fa_calls f ! i)"
      using ok i(1) f(1) none by (auto simp: fan_ok_def call_ok_def counted_replies_def Let_def)
    then have iff: "ca_received (fa_calls f ! i) < ca_submitted (fa_calls f ! i) \<longleftrightarrow> ca_reply (fa_calls f ! i) \<noteq> []"
      using length_greater_0_conv [of "ca_reply (fa_calls f ! i)"] by linarith
    then show ?thesis
    proof (cases "ca_reply (fa_calls f ! i) = []")
      case True
      then have "ca_received (fa_calls f ! i) = ca_submitted (fa_calls f ! i)" using eq by simp
      then show ?thesis using fan_work.returns [OF i todo] by blast
    next
      case False
      then show ?thesis using fan_work.receives [OF i todo _ False] iff by blast
    qed
  qed
next
  case False
  then show ?thesis
  proof (cases "fa_busy f = []")
    case True
    then obtain j js where "fa_jobs f = j # js" using False by (cases "fa_jobs f") auto
    then show ?thesis using fan_work.takes [of f j js] f(2) True by auto
  next
    case False
    then show ?thesis using fan_work.finishes [of 0 f] by auto
  qed
qed

lemma fan_work_fixed: "fan_work net f f' \<Longrightarrow> fa_workers f' = fa_workers f \<and> fa_capacity f' = fa_capacity f \<and> fa_done f' = fa_done f"
  by (induction rule: fan_work.induct) (simp_all add: submit_job_def finish_job_def receive_reply_def case_prod_unfold Let_def)

lemma fan_pool: "fan_reached net (idle_fanout s workers) f \<Longrightarrow> fa_capacity f = workers * 4 \<and> (fa_done f \<or> fa_workers f = workers)"
proof (induction rule: fan_reached.induct)
  case begins
  then show ?case by (simp add: idle_fanout_def)
next
  case (goes g h)
  from goes(2) show ?case using goes(3) by cases (auto dest: fan_work_fixed)
qed

interpretation fan: progress "fan_work net" "fan_ok net" effort for net
  by unfold_locales (auto intro: fan_work_ok fan_work_effort)

lemma fan_run_ok:
  assumes "(fan_work net ^^ n) f g" "fan_ok net f"
  shows "fan_ok net g \<and> n + effort g \<le> effort f \<and> fa_workers g = fa_workers f \<and> fa_capacity g = fa_capacity f \<and> fa_done g = fa_done f"
  using fan.run_ok [OF assms] fan.run_keeps [OF _ assms(1), of "\<lambda>f. (fa_workers f, fa_capacity f, fa_done f)"] by (auto dest: fan_work_fixed)

section \<open>Properties\<close>

text \<open>
  (C18) The worker pool changes nothing but the order. In every interleaving of any number of fan-outs and workers, a call of
  \<^verbatim>\<open>postToPeers\<close> that has returned before the server is stopped has exactly the responses that posting to the peers one after the
  other gives, each as often; once the server is stopped, never a response that the sequential run would not give.
\<close>

theorem fanout_refines_sequential:
  assumes "fan_reached net (idle_fanout s workers) f" "i < length (fa_calls f)"
    and "ca_requests (fa_calls f ! i) = map (\<lambda>p. cluster_request c op p q body) peers"
  shows "mset (ca_responses (fa_calls f ! i)) \<subseteq># mset (fst (post_each net c op q body peers s))
    \<and> (ca_returned (fa_calls f ! i) \<and> \<not> fa_done f \<longrightarrow> mset (ca_responses (fa_calls f ! i)) = mset (fst (post_each net c op q body peers s)))"
proof -
  have ok: "call_ok net f i" using fan_reached_ok [OF assms(1) idle_ok] assms(2) by (simp add: fan_ok_def)
  have all: "mset (fst (post_each net c op q body peers s)) = yields net (mset (ca_requests (fa_calls f ! i)))"
    by (simp add: post_each_yields assms(3))
  have "mset (ca_responses (fa_calls f ! i)) \<subseteq># due net f i" by (simp add: due_def Let_def)
  then have "mset (ca_responses (fa_calls f ! i)) \<subseteq># yields net (mset (ca_requests (fa_calls f ! i)))"
    using ok unfolding call_ok_def Let_def by (meson subset_mset.order_trans)
  moreover have "due net f i = mset (ca_responses (fa_calls f ! i))" if "ca_returned (fa_calls f ! i)" "\<not> fa_done f"
  proof -
    have "ca_todo (fa_calls f ! i) = []" "counted_replies f i = ca_received (fa_calls f ! i)"
      using ok that by (auto simp: call_ok_def Let_def)
    then have "ca_reply (fa_calls f ! i) = []" "under_way f i = {#}" by (simp_all add: counted_replies_def Let_def)
    then show ?thesis using \<open>ca_todo (fa_calls f ! i) = []\<close> by (simp add: due_def Let_def)
  qed
  ultimately show ?thesis using ok all by (auto simp: call_ok_def Let_def)
qed


section \<open>A fan-out to one peer\<close>

definition sample_net :: "clusterRequest \<Rightarrow> post_result" where
  "sample_net r = Responds 204 [] None"

definition sample_request :: clusterRequest where
  "sample_request = cluster_request plain_node ''join'' ''p'' [] []"

definition sample_fan :: "(unit, bytes) fanout" where
  "sample_fan = (idle_fanout two_clients 1)\<lparr>fa_calls := [new_call [sample_request]]\<rparr>"

definition sample_posted :: "(unit, bytes) fanout" where
  "sample_posted = finish_job sample_net 0 ((submit_job 0 sample_fan)\<lparr>fa_jobs := [], fa_busy := [(0, sample_request)]\<rparr>)"

definition sample_end :: "(unit, bytes) fanout" where
  "sample_end = upd_call 0 (\<lambda>c. c\<lparr>ca_returned := True\<rparr>) (receive_reply 0 sample_posted)"

lemma sample_fan_reached: "fan_reached sample_net (idle_fanout two_clients 1) sample_fan"
  using fan_reached.goes [OF fan_reached.begins fan_step.calls [of sample_net "idle_fanout two_clients 1" "[sample_request]"]]
  by (simp add: sample_fan_def idle_fanout_def)

lemma sample_answer: "fst (doPost sample_net sample_request s) = Some \<lparr>cp_peer = ''p'', cp_statusCode = 204, cp_expected = [], cp_body = []\<rparr>"
  by (simp add: doPost_answer answer_def sample_net_def sample_request_def cluster_request_def)

lemma sample_posted_calls:
  "fa_calls sample_posted = [(new_call [sample_request])\<lparr>ca_todo := [], ca_submitted := 1,
     ca_reply := [Some \<lparr>cp_peer = ''p'', cp_statusCode = 204, cp_expected = [], cp_body = []\<rparr>]\<rparr>]"
  using sample_answer by (simp add: sample_posted_def finish_job_def submit_job_def sample_fan_def new_call_def idle_fanout_def upd_call_def case_prod_unfold Let_def)

lemma sample_run: "(fan_work sample_net ^^ 5) sample_fan sample_end"
proof -
  let ?f1 = "submit_job 0 sample_fan" and ?f2 = "(submit_job 0 sample_fan)\<lparr>fa_jobs := [], fa_busy := [(0, sample_request)]\<rparr>"
  have "fan_work sample_net sample_fan ?f1" by (rule fan_work.submits) (simp_all add: sample_fan_def new_call_def idle_fanout_def)
  moreover have "fan_work sample_net ?f1 ?f2"
    using fan_work.takes [of ?f1 "(0, sample_request)" "[]" sample_net] by (simp add: submit_job_def sample_fan_def new_call_def idle_fanout_def)
  moreover have "fan_work sample_net ?f2 sample_posted" unfolding sample_posted_def by (rule fan_work.finishes) simp
  moreover have "fan_work sample_net sample_posted (receive_reply 0 sample_posted)"
    by (rule fan_work.receives) (simp_all add: sample_posted_calls new_call_def)
  moreover have "fan_work sample_net (receive_reply 0 sample_posted) sample_end" unfolding sample_end_def
    by (rule fan_work.returns) (simp_all add: receive_reply_def upd_call_def sample_posted_calls new_call_def)
  ultimately show ?thesis by (auto simp: eval_nat_numeral relcompp_apply)
qed

lemma run_reached: "(fan_work net ^^ n) f g \<Longrightarrow> fan_reached net f0 f \<Longrightarrow> fan_reached net f0 g"
  by (induction n arbitrary: g) (auto intro: fan_reached.goes fan_step.works)

lemmas sample_end_reached = run_reached [OF sample_run sample_fan_reached]

theorem fanout_refines_sequential_witness:
  "mset (ca_responses (fa_calls sample_end ! 0)) = {#\<lparr>cp_peer = ''p'', cp_statusCode = 204, cp_expected = [], cp_body = []\<rparr>#}"
proof -
  have calls: "fa_calls sample_end ! 0 = (new_call [sample_request])\<lparr>ca_todo := [], ca_submitted := 1, ca_received := 1, ca_reply := [],
      ca_responses := [\<lparr>cp_peer = ''p'', cp_statusCode = 204, cp_expected = [], cp_body = []\<rparr>], ca_returned := True\<rparr>"
    by (simp add: sample_end_def receive_reply_def upd_call_def sample_posted_calls new_call_def)
  have state: "0 < length (fa_calls sample_end)" "ca_returned (fa_calls sample_end ! 0)"
      "ca_requests (fa_calls sample_end ! 0) = map (\<lambda>p. cluster_request plain_node ''join'' p [] []) [''p'']"
    by (simp_all only: calls) (simp_all add: sample_end_def receive_reply_def sample_posted_calls new_call_def sample_request_def)
  have "\<not> fa_done sample_end"
    by (simp add: sample_end_def receive_reply_def sample_posted_def finish_job_def submit_job_def sample_fan_def idle_fanout_def case_prod_unfold Let_def)
  then have "mset (ca_responses (fa_calls sample_end ! 0)) = mset (fst (post_each sample_net plain_node ''join'' [] [] [''p''] two_clients))"
    using fanout_refines_sequential [OF sample_end_reached state(1,3)] state(2) by simp
  then show ?thesis
    using sample_answer [of two_clients] by (simp add: case_prod_unfold Let_def sample_request_def)
qed


end
