(* ===== verification/Owned.thy ===== *)
theory Owned
  imports PoolProps
begin

text \<open>
  Strings that live in pooled memory. \<^verbatim>\<open>bytesToStringView\<close> (\<^verbatim>\<open>unsafe.go\<close>) makes a Go string of a slice without copying; what
  the string says then depends on who owns the array. Here are the sessions and packets of \<^verbatim>\<open>recovery.go\<close>, which own what their strings
  point into, the room names of \<^verbatim>\<open>adapter.go\<close>, and a namespace name taken from a request body, which does not.
\<close>

section \<open>Strings of an owner\<close>

definition bytesToStringView :: "(nat \<times> nat) option \<Rightarrow> nat \<Rightarrow> nat \<Rightarrow> view" where
  "bytesToStringView b i j = (if j \<le> i then (None, 0, 0) else slice_view b i j)"

text \<open>\<^verbatim>\<open>appendOwnedString\<close>, \<^verbatim>\<open>appendOwnedSocketID\<close> and \<^verbatim>\<open>appendOwnedRoom\<close> are this on the bytes of their argument.\<close>

definition appendOwned :: "choice \<Rightarrow> nat \<Rightarrow> byte store \<Rightarrow> bytes \<Rightarrow> view \<times> byte store" where
  "appendOwned p r s v =
     (if v = [] then ((None, 0, 0), s)
      else (let start = used_of (pb_B (bs_objs s ! r));
                s' = bytes_AppendBytes (fst p) (snd p) r v s
            in (bytesToStringView (pb_B (bs_objs s' ! r)) start (used_of (pb_B (bs_objs s' ! r))), s')))"

fun appendOwned_all :: "choice \<Rightarrow> nat \<Rightarrow> byte store \<Rightarrow> bytes list \<Rightarrow> view list \<times> byte store" where
  "appendOwned_all p r s [] = ([], s)"
| "appendOwned_all p r s (v # vs) = (let (w, s1) = appendOwned p r s v; (ws, s2) = appendOwned_all p r s1 vs in (w # ws, s2))"

record owned_session =
  os_namespace :: bytes
  os_pid :: view
  os_sid :: view
  os_rooms :: "view list"
  os_expiresAt :: time
  os_owner :: nat

definition newOwnedSession ::
    "choice \<Rightarrow> bytes \<Rightarrow> bytes \<Rightarrow> SocketID \<Rightarrow> Room list \<Rightarrow> time \<Rightarrow> byte store \<Rightarrow> owned_session \<times> byte store" where
  "newOwnedSession p namespace pid sid rooms expiresAt s =
     (let total = length pid + length sid + sum_list (map length rooms);
          (owner, s1) = acquireBytes (fst p) (int total) s;
          (pid', s2) = appendOwned p owner s1 pid;
          (sid', s3) = appendOwned p owner s2 sid;
          (rooms', s4) = appendOwned_all p owner s3 rooms
      in (\<lparr>os_namespace = namespace, os_pid = pid', os_sid = sid', os_rooms = rooms', os_expiresAt = expiresAt, os_owner = owner\<rparr>, s4))"

definition owned_session_release :: "owned_session \<Rightarrow> byte store \<Rightarrow> byte store" where
  "owned_session_release x s = bytes_Release (os_owner x) s"

definition read_string :: "byte store \<Rightarrow> view \<Rightarrow> bytes" where
  "read_string s v = (case v of (None, _, _) \<Rightarrow> [] | (Some a, i, n) \<Rightarrow> take n (drop i (bs_arrays s ! a)))"

section \<open>Packets of the log\<close>

definition totalByteLen :: "bytes list \<Rightarrow> nat" where
  "totalByteLen ins = sum_list (map length ins)"

definition copyAttachmentsToBatch :: "(nat \<Rightarrow> bool) \<Rightarrow> choice \<Rightarrow> choice \<Rightarrow> bytes list \<Rightarrow> mem \<Rightarrow> byteBatch option \<times> mem" where
  "copyAttachmentsToBatch isprint p pv ins m =
     (if ins = [] then (None, m)
      else (let (b, m1) = acquireByteBatch p pv (int (length ins)) (int (totalByteLen ins)) m
            in (Some b, run_ops (batch_step isprint b) m1 (map (BBytes p pv) ins))))"

record owned_packet =
  op_packetOwner :: nat
  op_attachments :: "byteBatch option"
  op_views :: "nat option"

text \<open>
  \<open>op_views\<close> is set in a packet that was decoded from a peer's body. A packet that \<^verbatim>\<open>log\<close> files and the copy that \<^verbatim>\<open>cloneForReplay\<close>
  hands out have a batch instead.
\<close>

definition newOwnedPacket :: "(nat \<Rightarrow> bool) \<Rightarrow> choice \<Rightarrow> choice \<Rightarrow> choice \<Rightarrow> bytes \<Rightarrow> bytes list \<Rightarrow> mem \<Rightarrow> owned_packet \<times> mem" where
  "newOwnedPacket isprint p pb pv packet attachments m =
     (let (owner, s1) = acquireBytes (fst p) (int (length packet)) (mem_bytes m);
          s2 = bytes_AppendBytes (fst p) (snd p) owner packet s1;
          (b, m') = copyAttachmentsToBatch isprint pb pv attachments (m\<lparr>mem_bytes := s2\<rparr>)
      in (\<lparr>op_packetOwner = owner, op_attachments = b, op_views = None\<rparr>, m'))"

definition attachmentViews :: "owned_packet \<Rightarrow> mem \<Rightarrow> view list" where
  "attachmentViews x m = (case op_attachments x of
     Some b \<Rightarrow> batch_Views b m
   | None \<Rightarrow> (case op_views x of Some v \<Rightarrow> contents (mem_views m) v | None \<Rightarrow> []))"

definition owned_packet_release :: "owned_packet \<Rightarrow> mem \<Rightarrow> mem" where
  "owned_packet_release x m =
     (let m1 = (case op_attachments x of None \<Rightarrow> m | Some b \<Rightarrow> batch_Release b m);
          m2 = (case op_views x of None \<Rightarrow> m1 | Some v \<Rightarrow> m1\<lparr>mem_views := views_Release v (mem_views m1)\<rparr>)
      in m2\<lparr>mem_bytes := bytes_Release (op_packetOwner x) (mem_bytes m2)\<rparr>)"

section \<open>Escaping into a buffer\<close>

fun appendJSONStringContentOwned_from :: "(nat \<Rightarrow> choice) \<Rightarrow> nat \<Rightarrow> bytes \<Rightarrow> byte store \<Rightarrow> byte store" where
  "appendJSONStringContentOwned_from p r [] s = s"
| "appendJSONStringContentOwned_from p r (c # cs) s =
     appendJSONStringContentOwned_from p r cs
       (if c = CHR 0x5C \<or> c = CHR 0x22 then
          bytes_AppendByte (fst (p 1)) (snd (p 1)) r c (bytes_AppendByte (fst (p 0)) (snd (p 0)) r (CHR 0x5C) s)
        else if c = CHR 0x0A then bytes_AppendBytes (fst (p 0)) (snd (p 0)) r [CHR 0x5C, CHR ''n''] s
        else if c = CHR 0x0D then bytes_AppendBytes (fst (p 0)) (snd (p 0)) r [CHR 0x5C, CHR ''r''] s
        else if c = CHR 0x09 then bytes_AppendBytes (fst (p 0)) (snd (p 0)) r [CHR 0x5C, CHR ''t''] s
        else if bval c < 0x20 then
          bytes_AppendByte (fst (p 2)) (snd (p 2)) r (hex_digit (bval c mod 16))
            (bytes_AppendByte (fst (p 1)) (snd (p 1)) r (hex_digit (bval c div 16))
              (bytes_AppendBytes (fst (p 0)) (snd (p 0)) r ([CHR 0x5C] @ ''u00'') s))
        else bytes_AppendByte (fst (p 0)) (snd (p 0)) r c s)"

definition appendJSONStringContentOwned :: "(nat \<Rightarrow> choice) \<Rightarrow> nat \<Rightarrow> bytes \<Rightarrow> byte store \<Rightarrow> byte store" where
  "appendJSONStringContentOwned p r v s =
     appendJSONStringContentOwned_from p r v (bytes_Ensure (fst (p 0)) r (int (length v) * 6) s)"

section \<open>What an owner's strings say\<close>

definition string_at :: "nat option \<Rightarrow> nat \<Rightarrow> bytes \<Rightarrow> view" where
  "string_at base i v = (if v = [] then (None, 0, 0) else (base, i, length v))"

fun strings_at :: "nat option \<Rightarrow> nat \<Rightarrow> bytes list \<Rightarrow> view list" where
  "strings_at base i [] = []"
| "strings_at base i (v # vs) = string_at base i v # strings_at base (i + length v) vs"

lemma contents_array:
  assumes "obj_ok s r" "pb_base (bs_objs s ! r) = Some a"
  shows "contents s r = take (length (contents s r)) (bs_arrays s ! a)"
  using assms by (cases rule: obj_ok_cases) (simp_all add: contents_def nil_obj_def)

lemma read_strings:
  assumes ok: "obj_ok s r" and base: "pb_base (bs_objs s ! r) = base" and c: "contents s r = pre @ concat vs @ post"
  shows "map (read_string s) (strings_at base (length pre) vs) = vs"
  using c
proof (induction vs arbitrary: pre)
  case (Cons v vs)
  have "read_string s (string_at base (length pre) v) = v"
  proof (cases "v = []")
    case False
    then obtain a where a: "base = Some a"
      using base Cons.prems by (cases rule: obj_ok_cases [OF ok]) (auto simp: contents_def nil_obj_def)
    have "take (length v) (drop (length pre) (contents s r)) = v" using Cons.prems by simp
    moreover have "length pre + length v \<le> length (contents s r)" using Cons.prems by simp
    moreover have "contents s r = take (length (contents s r)) (bs_arrays s ! a)" using contents_array [OF ok] base a by simp
    ultimately have "take (length v) (drop (length pre) (bs_arrays s ! a)) = v"
      by (metis drop_take le_add_diff_inverse add_le_imp_le_diff add.commute min.absorb1 take_take)
    then show ?thesis using False a by (simp add: string_at_def read_string_def)
  qed (simp add: string_at_def read_string_def)
  then show ?case using Cons.IH [of "pre @ v"] Cons.prems by simp
qed simp

lemma appendOwned_room:
  assumes ok: "pool_ok byte_sizes L s" and r: "r \<in> L" and room: "length v \<le> room_of s r"
  shows "\<exists>s'. appendOwned p r s v = (string_at (pb_base (bs_objs s ! r)) (length (contents s r)) v, s') \<and> pool_ok byte_sizes L s' \<and>
    keeps (L - {r}) s s' \<and> contents s' r = contents s r @ v \<and> pb_base (bs_objs s' ! r) = pb_base (bs_objs s ! r) \<and> room_of s' r = room_of s r - length v"
proof (cases "v = []")
  case True
  then show ?thesis using ok by (simp add: appendOwned_def string_at_def)
next
  case False
  have oks: "obj_ok s r" using ok r by (simp add: pool_ok_def heap_ok_def)
  define t where "t = bytes_AppendBytes (fst p) (snd p) r v s"
  have "t = append_to byte_sizes (snd p) r v s"
    using ensure_noop [OF oks, of "int (length v)"] room by (simp add: t_def bytes_AppendBytes_def bytes_Ensure_def)
  then have t: "pool_ok byte_sizes L t" "keeps (L - {r}) s t" "contents t r = contents s r @ v"
      "room_of t r = room_of s r - length v" "pb_base (bs_objs t ! r) = pb_base (bs_objs s ! r)"
    using append_room [OF ok r room, of "snd p"] by simp_all
  have okt: "obj_ok t r" using t(1) r by (simp add: pool_ok_def heap_ok_def)
  have used: "used_of (pb_B (bs_objs s ! r)) = length (contents s r)" "used_of (pb_B (bs_objs t ! r)) = length (contents s r) + length v"
    using contents_len [OF oks] contents_len [OF okt] t(3) by simp_all
  have "slice_view (pb_B (bs_objs t ! r)) (length (contents s r)) (length (contents s r) + length v) = (pb_base (bs_objs s ! r), length (contents s r), length v)"
    using okt t(3,5) False by (cases rule: obj_ok_cases) (auto simp: slice_view_def contents_def nil_obj_def)
  then have "appendOwned p r s v = (string_at (pb_base (bs_objs s ! r)) (length (contents s r)) v, t)"
    using False used by (simp add: appendOwned_def t_def [symmetric] Let_def string_at_def bytesToStringView_def)
  then show ?thesis using t by blast
qed

lemma appendOwned_all_room:
  assumes "pool_ok byte_sizes L s" "r \<in> L" "length (concat vs) \<le> room_of s r"
  shows "\<exists>s'. appendOwned_all p r s vs = (strings_at (pb_base (bs_objs s ! r)) (length (contents s r)) vs, s') \<and> pool_ok byte_sizes L s' \<and>
    keeps (L - {r}) s s' \<and> contents s' r = contents s r @ concat vs \<and> pb_base (bs_objs s' ! r) = pb_base (bs_objs s ! r)"
  using assms
proof (induction vs arbitrary: s)
  case (Cons v vs)
  then have "length v \<le> room_of s r" by simp
  from appendOwned_room [OF Cons.prems(1,2) this, of p] obtain t where t:
    "appendOwned p r s v = (string_at (pb_base (bs_objs s ! r)) (length (contents s r)) v, t)" "pool_ok byte_sizes L t" "keeps (L - {r}) s t"
    "contents t r = contents s r @ v" "pb_base (bs_objs t ! r) = pb_base (bs_objs s ! r)" "room_of t r = room_of s r - length v"
    by blast
  from t(6) Cons.prems(3) have "length (concat vs) \<le> room_of t r" by simp
  from Cons.IH [OF t(2) Cons.prems(2) this] show ?case using t by (auto intro: keeps_trans)
qed simp

text \<open>
  (C26) The strings of a recovery session are exact and stay so. A session made in pooled memory reads back as the id, the socket id
  and the rooms it was made from, although its strings are views into one buffer that is filled piece by piece: the buffer was acquired
  large enough, so that it never moves. Whatever is done with other buffers afterwards, the strings keep their text until the session is
  released, and releasing it gives the buffer back.
\<close>

theorem owned_session_exact:
  assumes "pool_ok byte_sizes L s" "newOwnedSession p namespace pid sid rooms expiresAt s = (x, s1)"
    and "keeps {os_owner x} s1 later"
  shows "read_string later (os_pid x) = pid \<and> read_string later (os_sid x) = sid \<and> map (read_string later) (os_rooms x) = rooms
    \<and> os_owner x \<notin> L \<and> pool_ok byte_sizes (insert (os_owner x) L) s1 \<and> keeps L s s1 \<and> pool_ok byte_sizes L (owned_session_release x s1)"
proof -
  let ?total = "length pid + length sid + sum_list (map length rooms)"
  obtain r t where acq: "acquire byte_sizes (fst p) (int ?total) s = (r, t)" by fastforce
  have fresh: "pool_ok byte_sizes (insert r L) t" "r \<notin> L" "contents t r = []" "int ?total \<le> int (room_of t r)" "keeps L s t"
    using acquire_fresh [OF assms(1) byte_sizes_le acq] by (simp_all add: handed_out_def)
  have "length (concat (pid # sid # rooms)) \<le> room_of t r" using fresh(4) by (simp add: length_concat)
  from appendOwned_all_room [OF fresh(1) _ this, of p] obtain u where u:
    "appendOwned_all p r t (pid # sid # rooms) = (strings_at (pb_base (bs_objs t ! r)) 0 (pid # sid # rooms), u)"
    "pool_ok byte_sizes (insert r L) u" "keeps (insert r L - {r}) t u" "contents u r = concat (pid # sid # rooms)"
    "pb_base (bs_objs u ! r) = pb_base (bs_objs t ! r)"
    using fresh(3) by auto
  have x: "os_owner x = r" "os_pid x # os_sid x # os_rooms x = strings_at (pb_base (bs_objs u ! r)) 0 (pid # sid # rooms)" "s1 = u"
    using assms(2) u(1,5) acq unfolding newOwnedSession_def by (auto simp: acquireBytes_def Let_def split: prod.splits)
  have okr: "obj_ok u r" using u(2) by (simp add: pool_ok_def heap_ok_def)
  have kept: "keeps {r} u later" using assms(3) x by simp
  then have "obj_ok later r" "contents later r = contents u r" "pb_base (bs_objs later ! r) = pb_base (bs_objs u ! r)"
    using keeps_ok(1,2) [OF kept _ okr] by (simp_all add: keeps_def)
  then have "map (read_string later) (os_pid x # os_sid x # os_rooms x) = pid # sid # rooms"
    using read_strings [of later r "pb_base (bs_objs u ! r)" "[]" "pid # sid # rooms" "[]"] u(4) x(2) by simp
  moreover have without: "insert r L - {r} = L" using fresh(2) by auto
  moreover have "pool_ok byte_sizes L (owned_session_release x s1)"
    using release_ok [OF u(2) byte_sizes_le, of r] x without by (simp add: owned_session_release_def bytes_Release_def)
  ultimately show ?thesis using x fresh(2,5) u(2,3) by (auto intro: keeps_trans)
qed

text \<open>Two sessions, one after the other: the second leaves the strings of the first as they are.\<close>

definition sample_session :: "bytes \<Rightarrow> byte store \<Rightarrow> owned_session \<times> byte store" where
  "sample_session pid s = newOwnedSession sample_choice ''/'' pid ''sid'' [''lobby'', [], ''room2''] 5 s"

theorem owned_session_exact_witness:
  "case sample_session ''p1'' (empty_store byte_sizes) of (x, s1) \<Rightarrow>
     read_string (snd (sample_session ''p2'' s1)) (os_pid x) = ''p1'' \<and>
     map (read_string (snd (sample_session ''p2'' s1))) (os_rooms x) = [''lobby'', [], ''room2'']"
proof -
  obtain x s1 where x: "sample_session ''p1'' (empty_store byte_sizes) = (x, s1)" by fastforce
  obtain y s2 where y: "sample_session ''p2'' s1 = (y, s2)" by fastforce
  have s1: "pool_ok byte_sizes {os_owner x} s1"
    using owned_session_exact [OF empty_store_ok x [unfolded sample_session_def] keeps_refl] by simp
  have "keeps {os_owner x} s1 s2"
    using owned_session_exact [OF s1 y [unfolded sample_session_def] keeps_refl] by simp
  then show ?thesis using owned_session_exact [OF empty_store_ok x [unfolded sample_session_def]] x y by simp
qed

text \<open>Escaping into a buffer writes what escaping into a slice writes.\<close>

definition wrote :: "nat set \<Rightarrow> nat \<Rightarrow> byte store \<Rightarrow> bytes \<Rightarrow> byte store \<Rightarrow> bool" where
  "wrote L r s v s' \<longleftrightarrow> pool_ok byte_sizes L s' \<and> keeps (L - {r}) s s' \<and> contents s' r = contents s r @ v"

lemma wrote_trans: "wrote L r s v t \<Longrightarrow> wrote L r t w u \<Longrightarrow> wrote L r s (v @ w) u"
  by (auto simp: wrote_def intro: keeps_trans)

lemma escape_step:
  assumes "pool_ok byte_sizes L s" "r \<in> L"
  shows "wrote L r s [b] (bytes_AppendByte pick k r b s)" "wrote L r s v (bytes_AppendBytes pick k r v s)"
  using bytes_write_ok [OF assms, of undefined "(pick, k)" "WByte b"] bytes_write_ok [OF assms, of undefined "(pick, k)" "WBytes v"]
  by (simp_all add: wrote_def)

lemma escape_more:
  assumes "wrote L r s v t" "r \<in> L"
  shows "wrote L r s (v @ [b]) (bytes_AppendByte pick k r b t)"
  using wrote_trans [OF assms(1) escape_step(1)] assms by (simp add: wrote_def)

lemma escape_owned_from:
  assumes "pool_ok byte_sizes L s" "r \<in> L"
  shows "let s' = appendJSONStringContentOwned_from p r v s in
    pool_ok byte_sizes L s' \<and> keeps (L - {r}) s s' \<and> contents s' r = appendJSONStringContent (contents s r) v"
  using assms
proof (induction v arbitrary: s)
  case (Cons c cs)
  define t where "t = (if c = CHR 0x5C \<or> c = CHR 0x22 then
          bytes_AppendByte (fst (p 1)) (snd (p 1)) r c (bytes_AppendByte (fst (p 0)) (snd (p 0)) r (CHR 0x5C) s)
        else if c = CHR 0x0A then bytes_AppendBytes (fst (p 0)) (snd (p 0)) r [CHR 0x5C, CHR ''n''] s
        else if c = CHR 0x0D then bytes_AppendBytes (fst (p 0)) (snd (p 0)) r [CHR 0x5C, CHR ''r''] s
        else if c = CHR 0x09 then bytes_AppendBytes (fst (p 0)) (snd (p 0)) r [CHR 0x5C, CHR ''t''] s
        else if bval c < 0x20 then
          bytes_AppendByte (fst (p 2)) (snd (p 2)) r (hex_digit (bval c mod 16))
            (bytes_AppendByte (fst (p 1)) (snd (p 1)) r (hex_digit (bval c div 16))
              (bytes_AppendBytes (fst (p 0)) (snd (p 0)) r ([CHR 0x5C] @ ''u00'') s))
        else bytes_AppendByte (fst (p 0)) (snd (p 0)) r c s)"
  note put = escape_step [OF Cons.prems] and more = escape_more [OF _ Cons.prems(2)]
  have "wrote L r s (json_escape c) t"
    unfolding t_def json_escape_def
    using put(1) [of c] put(2) [of "[CHR 0x5C, CHR ''n'']"] put(2) [of "[CHR 0x5C, CHR ''r'']"] put(2) [of "[CHR 0x5C, CHR ''t'']"]
      more [OF put(1) [of "CHR 0x5C"], of c]
      more [OF more [OF put(2) [of "[CHR 0x5C] @ ''u00''"], of "hex_digit (bval c div 16)"], of "hex_digit (bval c mod 16)"]
    by (simp only: append_Cons append_Nil split: if_split) blast
  then have one: "pool_ok byte_sizes L t" "keeps (L - {r}) s t" "contents t r = contents s r @ json_escape c" by (simp_all add: wrote_def)
  have "appendJSONStringContentOwned_from p r (c # cs) s = appendJSONStringContentOwned_from p r cs t" by (simp add: t_def)
  then show ?case using Cons.IH [of t] one Cons.prems(2) by (auto simp: Let_def intro: keeps_trans)
qed (simp add: Let_def)

lemma escape_owned:
  assumes "pool_ok byte_sizes L s" "r \<in> L"
  shows "contents (appendJSONStringContentOwned p r v s) r = appendJSONStringContent (contents s r) v"
    "pool_ok byte_sizes L (appendJSONStringContentOwned p r v s)"
  using ensure_ok [OF assms(1) byte_sizes_le assms(2), of False "fst (p 0)" "int (length v) * 6"]
    escape_owned_from [OF _ assms(2), of "bytes_Ensure (fst (p 0)) r (int (length v) * 6) s" p v]
  by (simp_all add: appendJSONStringContentOwned_def bytes_Ensure_def Let_def)

text \<open>The copy of a packet in pooled memory reads as the packet and its attachments.\<close>

lemma owned_packet_exact:
  assumes "pool_ok byte_sizes L (mem_bytes m)" "pool_ok view_sizes V (mem_views m)" "newOwnedPacket isprint p pb pv packet atts m = (x, m')"
  shows "contents (mem_bytes m') (op_packetOwner x) = packet \<and> map (read_view m') (attachmentViews x m') = atts \<and>
    pool_ok byte_sizes L (mem_bytes (owned_packet_release x m')) \<and> pool_ok view_sizes V (mem_views (owned_packet_release x m'))"
proof -
  obtain r s1 where acq: "acquire byte_sizes (fst p) (int (length packet)) (mem_bytes m) = (r, s1)" by fastforce
  define s2 where "s2 = bytes_AppendBytes (fst p) (snd p) r packet s1"
  have fresh: "pool_ok byte_sizes (insert r L) s1" "r \<notin> L" "contents s1 r = []"
    using acquire_fresh [OF assms(1) byte_sizes_le acq] by (simp_all add: handed_out_def)
  have s2: "pool_ok byte_sizes (insert r L) s2" "contents s2 r = packet"
    using escape_step(2) [OF fresh(1), of r packet "fst p" "snd p"] fresh(3) by (simp_all add: s2_def wrote_def)
  define m1 where "m1 = m\<lparr>mem_bytes := s2\<rparr>"
  obtain b where b: "copyAttachmentsToBatch isprint pb pv atts m1 = (b, m')" "x = \<lparr>op_packetOwner = r, op_attachments = b, op_views = None\<rparr>"
    using assms(3) acq by (auto simp: newOwnedPacket_def acquireBytes_def s2_def m1_def Let_def split: prod.splits)
  have free: "pool_ok byte_sizes L (bytes_Release r u)" if "pool_ok byte_sizes (insert r L) u" for u
  proof -
    have "insert r L - {r} = L" using fresh(2) by auto
    then show ?thesis using release_ok [OF that byte_sizes_le, of r] by (simp add: bytes_Release_def)
  qed
  show ?thesis
  proof (cases "atts = []")
    case True
    then have "m' = m1" "b = None" using b(1) by (simp_all add: copyAttachmentsToBatch_def)
    then show ?thesis
      using True b(2) s2 free [OF s2(1)] assms(2) by (simp add: m1_def attachmentViews_def owned_packet_release_def)
  next
    case False
    obtain bt m2 where got: "acquireByteBatch pb pv (int (length atts)) (int (totalByteLen atts)) m1 = (bt, m2)" by fastforce
    then have m': "b = Some bt" "m' = run_ops (batch_step isprint bt) m2 (map (BBytes pb pv) atts)"
      using b(1) False by (simp_all add: copyAttachmentsToBatch_def)
    have start: "pool_ok byte_sizes (insert r L) (mem_bytes m1)" "pool_ok view_sizes V (mem_views m1)" using s2(1) assms(2) by (simp_all add: m1_def)
    note acquired = batch_acquired [OF start got]
    then have run: "batch_ok (insert r L) V bt (map batch_item (map (BBytes pb pv) atts)) m'" "keeps (insert r L) (mem_bytes m2) (mem_bytes m')"
      using batch_run_ok [of "insert r L" V bt "[]" m2 isprint "map (BBytes pb pv) atts"] by (simp_all add: Let_def m'(2))
    have "keeps (insert r L) s2 (mem_bytes m')" using acquired run(2) by (auto simp: m1_def intro: keeps_trans)
    then have "contents (mem_bytes m') r = packet"
      using keeps_ok(2) [of "insert r L" s2 "mem_bytes m'" r] s2 by (simp add: pool_ok_def heap_ok_def)
    moreover have "map (read_view m') (batch_Views bt m') = atts" using batch_reads [OF run(1)] by (simp add: comp_def)
    ultimately show ?thesis
      using batch_released [OF run(1)] free b(2) m'(1) by (simp add: attachmentViews_def owned_packet_release_def Let_def)
  qed
qed

section \<open>A string whose owner is gone\<close>

text \<open>A pool that hands out the buffer that came back last, and a request body read into one of its buffers.\<close>

definition reuse :: choice where
  "reuse = (\<lambda>free. if free = [] then None else Some 0, 0)"

definition post_body :: "bytes \<Rightarrow> byte store \<Rightarrow> (read_outcome \<times> byte store \<times> bytes list) option" where
  "post_body body s = readAllPooled (\<lambda>_. reuse) chunk_read [body] (int (length body)) s"

text \<open>
  The name of a namespace that a packet in a request body asks for, when the body arrives and after the next body has arrived. The name
  is the slice of the body that \<^verbatim>\<open>ParsePacketView\<close> returns; \<^verbatim>\<open>handleParsedSocketPacket\<close> makes a string view of it, \<^verbatim>\<open>Of\<close> files
  the new namespace under that string, and \<^verbatim>\<open>servePolling\<close> then releases the body.
\<close>

definition name_then_and_now :: "bytes \<Rightarrow> bytes \<Rightarrow> (bytes \<times> bytes) option" where
  "name_then_and_now body next_body =
     (case (post_body body (empty_store byte_sizes), ParsePacketView (drop 1 body)) of
        (Some (ReadOwned r, s1, _), Inr p) \<Rightarrow>
          (let name = bytesToStringView (pb_B (bs_objs s1 ! r)) 2 (2 + length (pv_Namespace p)) in
           case post_body next_body (bytes_Release r s1) of
             Some (ReadOwned _, s2, _) \<Rightarrow> Some (read_string s1 name, read_string s2 name)
           | _ \<Rightarrow> None)
      | _ \<Rightarrow> None)"

text \<open>
  The name of a namespace goes stale. With \<^verbatim>\<open>AcceptAnyNamespace\<close> a client that polls can create the namespace \<^verbatim>\<open>/chat\<close>; its name,
  which is also its key in the server's map, lies in the request body. The body goes back to the pool when the request has been
  answered, and the next request that gets the buffer rewrites the name: here to \<^verbatim>\<open>/game\<close>.
\<close>

theorem namespace_name_goes_stale: "name_then_and_now ''40/chat,'' ''40/game,'' = Some (''/chat'', ''/game'')"
  by code_simp

end
