(* ===== verification/Lifecycle.thy ===== *)
theory Lifecycle
  imports ServerInv
begin

text \<open>
  The background goroutines: \<^verbatim>\<open>lifecycle.go\<close>, the sweep loops of \<^verbatim>\<open>server.go\<close> and the DNS loop of \<^verbatim>\<open>cluster.go\<close>. A lifecycle is a
  context, a wait group and the goroutines it has started; calls of \<^verbatim>\<open>stop\<close> run beside them, with a helper goroutine each that waits
  for the wait group. Every interleaving is a run of \<open>lc_step\<close>. The loops of a connection call \<^verbatim>\<open>engineConn.close\<close>, and with it \<^verbatim>\<open>stop\<close>,
  from inside the lifecycle that \<^verbatim>\<open>stop\<close> waits for; what comes of that is a theorem below.
\<close>

section \<open>Loops over a context and a ticker\<close>

text \<open>What the \<^verbatim>\<open>select\<close> of a loop receives, in order. The flag of the result says whether the loop has returned.\<close>

datatype wakeup = CtxDone | Tick time

fun tick_loop :: "(time \<Rightarrow> 's \<Rightarrow> 's) \<Rightarrow> wakeup list \<Rightarrow> 's \<Rightarrow> 's \<times> bool" where
  "tick_loop work [] s = (s, False)"
| "tick_loop work (CtxDone # _) s = (s, True)"
| "tick_loop work (Tick now # ws) s = tick_loop work ws (work now s)"

definition ackSweepLoop :: "wakeup list \<Rightarrow> ('ty, 'v) Server \<Rightarrow> ('ty, 'v) Server \<times> bool" where
  "ackSweepLoop = tick_loop server_sweepAcks"

definition recoverySweepLoop :: "wakeup list \<Rightarrow> ('ty, 'v) Server \<Rightarrow> ('ty, 'v) Server \<times> bool" where
  "recoverySweepLoop = tick_loop recovery_sweep"

definition dnsRefreshLoop ::
    "(time \<Rightarrow> environment) \<Rightarrow> (bytes \<Rightarrow> parsed_url option) \<Rightarrow> (bytes \<Rightarrow> bytes) \<Rightarrow> (time \<Rightarrow> bytes \<Rightarrow> bytes list option) \<Rightarrow>
     wakeup list \<Rightarrow> ('ty, 'v) Server \<Rightarrow> ('ty, 'v) Server \<times> bool" where
  "dnsRefreshLoop env url_parse port_of lookup_host =
     tick_loop (\<lambda>now. server_refreshPeers (env now) url_parse port_of (lookup_host now))"

lemma tick_loop_keeps:
  assumes "\<And>now s. P s \<Longrightarrow> P (work now s)" "P s"
  shows "P (fst (tick_loop work ws s))"
  using assms(2)
proof (induction ws arbitrary: s)
  case (Cons w ws)
  then show ?case using assms(1) by (cases w) auto
qed simp

lemma tick_loop_returned: "snd (tick_loop work ws s) \<longleftrightarrow> CtxDone \<in> set ws"
  by (induction work ws s rule: tick_loop.induct) auto

lemma loops_consistent:
  assumes "consistent s"
  shows "consistent (fst (ackSweepLoop ws s))" "consistent (fst (recoverySweepLoop ws s))"
    "consistent (fst (dnsRefreshLoop env url_parse port_of lookup_host ws s))"
  unfolding ackSweepLoop_def recoverySweepLoop_def dnsRefreshLoop_def
  by (rule tick_loop_keeps [where P = consistent, OF _ assms]; simp add: consistent_def ok_server_sweepAcks ok_recovery_sweep ok_api)+

section \<open>State\<close>

text \<open>
  A goroutine is looping, blocked in the \<^verbatim>\<open>stop\<close> it has called (by its number in \<open>lc_stops\<close>), past that call, or returned, its
  \<^verbatim>\<open>wg.Done\<close> included. A \<^verbatim>\<open>Background\<close> one returns when the context is done and only then; a \<^verbatim>\<open>Transport\<close> one, a read or
  write loop of a connection, may also end by itself, and may close the connection first.
\<close>

datatype routine_kind = Background | Transport

datatype phase = Looping | InStop nat | Leaving | Returned

datatype stop_result = StopNil | StopTimedOut

text \<open>One call of \<^verbatim>\<open>stop\<close>: who made it, if a goroutine of the lifecycle did, when, and how many goroutines there were; \<open>sc_done\<close> is the channel \<^verbatim>\<open>done\<close>.\<close>

record stop_call =
  sc_caller :: "nat option"
  sc_timeout :: int
  sc_at :: time
  sc_started :: nat
  sc_done :: bool
  sc_result :: "stop_result option"

record lifecycle =
  lc_cancelled :: bool
  lc_wg :: int
  lc_routines :: "(routine_kind \<times> phase) list"
  lc_stops :: "stop_call list"
  lc_now :: time

section \<open>Operations\<close>

text \<open>A context made from a cancelled one is cancelled.\<close>

definition newLifecycle :: "bool \<Rightarrow> time \<Rightarrow> lifecycle" where
  "newLifecycle parent_cancelled now = \<lparr>lc_cancelled = parent_cancelled, lc_wg = 0, lc_routines = [], lc_stops = [], lc_now = now\<rparr>"

definition lifecycle_start :: "routine_kind \<Rightarrow> lifecycle \<Rightarrow> lifecycle" where
  "lifecycle_start kind l = l\<lparr>lc_wg := lc_wg l + 1, lc_routines := lc_routines l @ [(kind, Looping)]\<rparr>"

definition set_phase :: "nat \<Rightarrow> phase \<Rightarrow> lifecycle \<Rightarrow> lifecycle" where
  "set_phase i p l = l\<lparr>lc_routines := (lc_routines l)[i := (fst (lc_routines l ! i), p)]\<rparr>"

definition routine_returns :: "nat \<Rightarrow> lifecycle \<Rightarrow> lifecycle" where
  "routine_returns i l = (set_phase i Returned l)\<lparr>lc_wg := lc_wg l - 1\<rparr>"

text \<open>\<^verbatim>\<open>stop\<close> up to the point where it waits: the context is cancelled and the timer, if any, set.\<close>

definition stop_called :: "nat option \<Rightarrow> int \<Rightarrow> lifecycle \<Rightarrow> lifecycle" where
  "stop_called caller timeout l =
     (let l1 = (case caller of None \<Rightarrow> l | Some i \<Rightarrow> set_phase i (InStop (length (lc_stops l))) l)
      in l1\<lparr>lc_cancelled := True,
            lc_stops := lc_stops l @ [\<lparr>sc_caller = caller, sc_timeout = timeout, sc_at = lc_now l, sc_started = length (lc_routines l),
                                        sc_done = False, sc_result = None\<rparr>]\<rparr>)"

definition upd_stop :: "nat \<Rightarrow> (stop_call \<Rightarrow> stop_call) \<Rightarrow> lifecycle \<Rightarrow> lifecycle" where
  "upd_stop k g l = l\<lparr>lc_stops := (lc_stops l)[k := g (lc_stops l ! k)]\<rparr>"

text \<open>The \<^verbatim>\<open>select\<close> of \<^verbatim>\<open>stop\<close> has received: the caller goes on.\<close>

definition stop_returns :: "nat \<Rightarrow> stop_result \<Rightarrow> lifecycle \<Rightarrow> lifecycle" where
  "stop_returns k r l =
     (let l1 = upd_stop k (\<lambda>c. c\<lparr>sc_result := Some r\<rparr>) l
      in case sc_caller (lc_stops l ! k) of None \<Rightarrow> l1 | Some i \<Rightarrow> set_phase i Leaving l1)"

text \<open>
  \<open>lc_work\<close> is what goroutines, helpers and callers do once they are there; \<open>lc_step\<close> adds what comes from outside, a goroutine that calls
  \<^verbatim>\<open>stop\<close>, and the clock.
\<close>

inductive lc_work :: "lifecycle \<Rightarrow> lifecycle \<Rightarrow> bool" where
  loop_ends: "i < length (lc_routines l) \<Longrightarrow> lc_routines l ! i = (kind, Looping) \<Longrightarrow> lc_cancelled l \<or> kind = Transport \<Longrightarrow>
    lc_work l (routine_returns i l)"
| waited: "k < length (lc_stops l) \<Longrightarrow> \<not> sc_done (lc_stops l ! k) \<Longrightarrow> lc_wg l = 0 \<Longrightarrow> lc_work l (upd_stop k (\<lambda>c. c\<lparr>sc_done := True\<rparr>) l)"
| stopped: "k < length (lc_stops l) \<Longrightarrow> sc_result (lc_stops l ! k) = None \<Longrightarrow> sc_done (lc_stops l ! k) \<Longrightarrow>
    lc_work l (stop_returns k StopNil l)"
| timer_fires: "k < length (lc_stops l) \<Longrightarrow> sc_result (lc_stops l ! k) = None \<Longrightarrow> 0 < sc_timeout (lc_stops l ! k) \<Longrightarrow>
    sc_at (lc_stops l ! k) + sc_timeout (lc_stops l ! k) \<le> lc_now l \<Longrightarrow> lc_work l (stop_returns k StopTimedOut l)"
| leaves: "i < length (lc_routines l) \<Longrightarrow> lc_routines l ! i = (kind, Leaving) \<Longrightarrow> lc_work l (routine_returns i l)"

inductive lc_step :: "lifecycle \<Rightarrow> lifecycle \<Rightarrow> bool" where
  works: "lc_work l l' \<Longrightarrow> lc_step l l'"
| starts: "lc_step l (lifecycle_start kind l)"
| parent_ends: "lc_step l (l\<lparr>lc_cancelled := True\<rparr>)"
| outside_stops: "lc_step l (stop_called None timeout l)"
| loop_stops: "i < length (lc_routines l) \<Longrightarrow> lc_routines l ! i = (Transport, Looping) \<Longrightarrow> lc_step l (stop_called (Some i) timeout l)"
| time_passes: "0 < t \<Longrightarrow> lc_step l (l\<lparr>lc_now := lc_now l + t\<rparr>)"

inductive lc_reached :: "lifecycle \<Rightarrow> bool" where
  made: "lc_reached (newLifecycle parent_cancelled now)"
| moved: "lc_reached l \<Longrightarrow> lc_step l l' \<Longrightarrow> lc_reached l'"

section \<open>Invariant\<close>

text \<open>
  The wait group counts the goroutines that have not returned. A closed channel \<^verbatim>\<open>done\<close> means that all goroutines there were at the call
  have returned. The caller of an unfinished \<^verbatim>\<open>stop\<close> is blocked in it.
\<close>

definition running :: "routine_kind \<times> phase \<Rightarrow> nat" where
  "running r = (if snd r = Returned then 0 else 1)"

definition active :: "lifecycle \<Rightarrow> nat" where
  "active l = sum_list (map running (lc_routines l))"

definition stop_ok :: "lifecycle \<Rightarrow> nat \<Rightarrow> bool" where
  "stop_ok l k \<longleftrightarrow> (let c = lc_stops l ! k in
     sc_started c \<le> length (lc_routines l) \<and> sc_at c \<le> lc_now l \<and>
     (sc_done c \<longrightarrow> (\<forall>i < sc_started c. snd (lc_routines l ! i) = Returned)) \<and>
     (sc_result c = Some StopNil \<longrightarrow> sc_done c \<and> sc_caller c = None) \<and>
     (sc_result c = Some StopTimedOut \<longrightarrow> 0 < sc_timeout c \<and> sc_at c + sc_timeout c \<le> lc_now l) \<and>
     (\<forall>i. sc_caller c = Some i \<longrightarrow> i < sc_started c \<and> (sc_result c = None \<longrightarrow> snd (lc_routines l ! i) = InStop k)))"

definition lc_ok :: "lifecycle \<Rightarrow> bool" where
  "lc_ok l \<longleftrightarrow> lc_wg l = int (active l) \<and> (\<forall>k < length (lc_stops l). stop_ok l k) \<and> (lc_stops l \<noteq> [] \<longrightarrow> lc_cancelled l)
     \<and> (\<forall>i < length (lc_routines l). \<forall>k. snd (lc_routines l ! i) = InStop k \<longrightarrow>
          k < length (lc_stops l) \<and> sc_caller (lc_stops l ! k) = Some i \<and> sc_result (lc_stops l ! k) = None)"

lemma active_set_phase:
  "i < length (lc_routines l) \<Longrightarrow> active (set_phase i p l) + running (lc_routines l ! i) = active l + (if p = Returned then 0 else 1)"
  using sum_list_map_update [of i "lc_routines l" running "(fst (lc_routines l ! i), p)"] by (simp add: active_def set_phase_def running_def)

lemma none_active:
  assumes "active l = 0" "i < length (lc_routines l)"
  shows "snd (lc_routines l ! i) = Returned"
proof -
  have "running (lc_routines l ! i) = 0" using assms by (auto simp: active_def dest: nth_mem)
  then show ?thesis by (simp add: running_def split: if_splits)
qed

lemma lifecycle_sel [simp]:
  "lc_stops (set_phase i p l) = lc_stops l" "lc_now (set_phase i p l) = lc_now l" "lc_cancelled (set_phase i p l) = lc_cancelled l"
  "lc_wg (set_phase i p l) = lc_wg l" "length (lc_routines (set_phase i p l)) = length (lc_routines l)"
  "length (lc_stops (upd_stop k g l)) = length (lc_stops l)" "lc_routines (upd_stop k g l) = lc_routines l" "lc_now (upd_stop k g l) = lc_now l"
  "lc_cancelled (upd_stop k g l) = lc_cancelled l" "lc_wg (upd_stop k g l) = lc_wg l"
  by (simp_all add: set_phase_def upd_stop_def)

lemma phase_of [simp]:
  "i < length (lc_routines l) \<Longrightarrow> lc_routines (set_phase j p l) ! i = (if i = j then (fst (lc_routines l ! i), p) else lc_routines l ! i)"
  by (simp add: set_phase_def)

lemma stop_of [simp]: "k < length (lc_stops l) \<Longrightarrow> lc_stops (upd_stop j g l) ! k = (if k = j then g (lc_stops l ! k) else lc_stops l ! k)"
  by (simp add: upd_stop_def)

lemma stop_ok_later:
  assumes "stop_ok l k" "lc_stops l' ! k = lc_stops l ! k" "length (lc_routines l) \<le> length (lc_routines l')" "lc_now l \<le> lc_now l'"
    and "\<And>i. i < length (lc_routines l) \<Longrightarrow> snd (lc_routines l ! i) = Returned \<or> snd (lc_routines l ! i) = InStop k \<Longrightarrow>
      snd (lc_routines l' ! i) = snd (lc_routines l ! i)"
  shows "stop_ok l' k"
proof -
  let ?c = "lc_stops l ! k"
  have c: "sc_started ?c \<le> length (lc_routines l)" "sc_at ?c \<le> lc_now l"
      "sc_done ?c \<Longrightarrow> i < sc_started ?c \<Longrightarrow> snd (lc_routines l ! i) = Returned"
      "sc_caller ?c = Some i \<Longrightarrow> i < sc_started ?c" "sc_caller ?c = Some i \<Longrightarrow> sc_result ?c = None \<Longrightarrow> snd (lc_routines l ! i) = InStop k" for i
    using assms(1) by (simp_all add: stop_ok_def Let_def)
  have "snd (lc_routines l' ! i) = Returned" if "sc_done ?c" "i < sc_started ?c" for i
    using c(1) c(3) [OF that] assms(5) [of i] that by simp
  moreover have "snd (lc_routines l' ! i) = InStop k" if "sc_caller ?c = Some i" "sc_result ?c = None" for i
    using c(1) c(4) [OF that(1)] c(5) [OF that] assms(5) [of i] by simp
  ultimately show ?thesis using assms(1-4) c(4) by (auto simp: stop_ok_def Let_def)
qed

lemma lc_okI:
  assumes "lc_wg l = int (active l)" "\<And>k. k < length (lc_stops l) \<Longrightarrow> stop_ok l k" "lc_stops l \<noteq> [] \<Longrightarrow> lc_cancelled l"
    and "\<And>i k. i < length (lc_routines l) \<Longrightarrow> snd (lc_routines l ! i) = InStop k \<Longrightarrow>
      k < length (lc_stops l) \<and> sc_caller (lc_stops l ! k) = Some i \<and> sc_result (lc_stops l ! k) = None"
  shows "lc_ok l"
  using assms by (simp add: lc_ok_def)

lemma lc_okD:
  assumes "lc_ok l"
  shows "lc_wg l = int (active l)" "k < length (lc_stops l) \<Longrightarrow> stop_ok l k" "lc_stops l \<noteq> [] \<Longrightarrow> lc_cancelled l"
    "i < length (lc_routines l) \<Longrightarrow> snd (lc_routines l ! i) = InStop k \<Longrightarrow>
      k < length (lc_stops l) \<and> sc_caller (lc_stops l ! k) = Some i \<and> sc_result (lc_stops l ! k) = None"
  using assms by (simp_all add: lc_ok_def)

lemma start_ok: "lc_ok l \<Longrightarrow> lc_ok (lifecycle_start kind l)"
proof (rule lc_okI)
  assume ok: "lc_ok l"
  let ?l = "lifecycle_start kind l"
  show "lc_wg ?l = int (active ?l)" using lc_okD(1) [OF ok] by (simp add: lifecycle_start_def active_def running_def)
  show "stop_ok ?l k" if "k < length (lc_stops ?l)" for k
    by (rule stop_ok_later [OF lc_okD(2) [OF ok, of k]]) (use that in \<open>auto simp: lifecycle_start_def nth_append\<close>)
  show "k < length (lc_stops ?l) \<and> sc_caller (lc_stops ?l ! k) = Some i \<and> sc_result (lc_stops ?l ! k) = None"
    if "i < length (lc_routines ?l)" "snd (lc_routines ?l ! i) = InStop k" for i k
    using lc_okD(4) [OF ok, of i k] that by (auto simp: lifecycle_start_def nth_append split: if_splits)
qed (auto simp: lifecycle_start_def dest: lc_okD(3))

lemma return_ok:
  assumes ok: "lc_ok l" and i: "i < length (lc_routines l)" "lc_routines l ! i = (kind, p)" "p = Looping \<or> p = Leaving"
  shows "lc_ok (routine_returns i l)"
proof (rule lc_okI)
  let ?l = "routine_returns i l"
  show "lc_wg ?l = int (active ?l)"
    using lc_okD(1) [OF ok] active_set_phase [OF i(1), of Returned] i(2,3) by (auto simp: routine_returns_def active_def running_def)
  show "stop_ok ?l k" if "k < length (lc_stops ?l)" for k
    by (rule stop_ok_later [OF lc_okD(2) [OF ok, of k]]) (use that i in \<open>auto simp: routine_returns_def\<close>)
  show "k < length (lc_stops ?l) \<and> sc_caller (lc_stops ?l ! k) = Some j \<and> sc_result (lc_stops ?l ! k) = None"
    if "j < length (lc_routines ?l)" "snd (lc_routines ?l ! j) = InStop k" for j k
    using lc_okD(4) [OF ok, of j k] that by (auto simp: routine_returns_def split: if_splits)
qed (auto simp: routine_returns_def dest: lc_okD(3) [OF ok])

lemma stop_called_ok:
  assumes ok: "lc_ok l" and i: "\<And>i. caller = Some i \<Longrightarrow> i < length (lc_routines l) \<and> snd (lc_routines l ! i) = Looping"
  shows "lc_ok (stop_called caller timeout l)"
proof (rule lc_okI)
  let ?l = "stop_called caller timeout l"
  show "lc_wg ?l = int (active ?l)"
    using lc_okD(1) [OF ok] i active_set_phase [of "the caller" l "InStop (length (lc_stops l))"]
    by (cases caller) (auto simp: stop_called_def active_def running_def)
  show "stop_ok ?l k" if "k < length (lc_stops ?l)" for k
  proof (cases "k < length (lc_stops l)")
    case True
    then show ?thesis
      by (intro stop_ok_later [OF lc_okD(2) [OF ok, of k]]) (use i in \<open>auto simp: stop_called_def nth_append split: option.split\<close>)
  next
    case False
    then have "k = length (lc_stops l)" using that by (simp add: stop_called_def Let_def split: option.splits)
    then show ?thesis using i by (auto simp: stop_ok_def stop_called_def nth_append split: option.split)
  qed
  show "k < length (lc_stops ?l) \<and> sc_caller (lc_stops ?l ! k) = Some j \<and> sc_result (lc_stops ?l ! k) = None"
    if "j < length (lc_routines ?l)" "snd (lc_routines ?l ! j) = InStop k" for j k
    using lc_okD(4) [OF ok, of j k] that i by (auto simp: stop_called_def nth_append split: option.splits if_splits)
qed (simp add: stop_called_def Let_def)

lemma waited_ok:
  assumes ok: "lc_ok l" and k: "k < length (lc_stops l)" "lc_wg l = 0"
  shows "lc_ok (upd_stop k (\<lambda>c. c\<lparr>sc_done := True\<rparr>) l)"
proof (rule lc_okI)
  let ?l = "upd_stop k (\<lambda>c. c\<lparr>sc_done := True\<rparr>) l"
  have "active l = 0" using lc_okD(1) [OF ok] k(2) by simp
  then have all: "snd (lc_routines l ! i) = Returned" if "i < length (lc_routines l)" for i using none_active that by blast
  show "lc_wg ?l = int (active ?l)" using lc_okD(1) [OF ok] by (simp add: active_def)
  show "stop_ok ?l j" if "j < length (lc_stops ?l)" for j
    using lc_okD(2) [OF ok, of j] that all by (auto simp: stop_ok_def Let_def)
  show "j < length (lc_stops ?l) \<and> sc_caller (lc_stops ?l ! j) = Some i \<and> sc_result (lc_stops ?l ! j) = None"
    if "i < length (lc_routines ?l)" "snd (lc_routines ?l ! i) = InStop j" for i j
    using lc_okD(4) [OF ok, of i j] that by auto
qed (use lc_okD(3) [OF ok] k(1) in \<open>auto simp: upd_stop_def\<close>)

lemma answer_ok:
  assumes ok: "lc_ok l" and k: "k < length (lc_stops l)" "sc_result (lc_stops l ! k) = None"
    and r: "r = StopNil \<and> sc_done (lc_stops l ! k) \<or>
      r = StopTimedOut \<and> 0 < sc_timeout (lc_stops l ! k) \<and> sc_at (lc_stops l ! k) + sc_timeout (lc_stops l ! k) \<le> lc_now l"
  shows "lc_ok (stop_returns k r l)"
proof (rule lc_okI)
  let ?l = "stop_returns k r l" and ?c = "lc_stops l ! k"
  have c: "stop_ok l k" using lc_okD(2) [OF ok k(1)] .
  have caller: "i < length (lc_routines l) \<and> snd (lc_routines l ! i) = InStop k \<and> \<not> sc_done ?c" if "sc_caller ?c = Some i" for i
    using c k(2) that by (auto simp: stop_ok_def Let_def)
  show "lc_wg ?l = int (active ?l)"
    using lc_okD(1) [OF ok] caller active_set_phase [of "the (sc_caller ?c)" "upd_stop k (\<lambda>c. c\<lparr>sc_result := Some r\<rparr>) l" Leaving]
    by (auto simp: stop_returns_def Let_def active_def running_def split: option.split)
  show "stop_ok ?l j" if "j < length (lc_stops ?l)" for j
  proof (cases "j = k")
    case True
    then show ?thesis using c r k caller by (auto simp: stop_returns_def stop_ok_def Let_def split: option.split)
  next
    case False
    then show ?thesis
      by (intro stop_ok_later [OF lc_okD(2) [OF ok, of j]])
        (use that caller in \<open>auto simp: stop_returns_def Let_def upd_stop_def split: option.splits\<close>)
  qed
  show "j < length (lc_stops ?l) \<and> sc_caller (lc_stops ?l ! j) = Some i \<and> sc_result (lc_stops ?l ! j) = None"
    if "i < length (lc_routines ?l)" "snd (lc_routines ?l ! i) = InStop j" for i j
    using lc_okD(4) [OF ok, of i j] that caller by (auto simp: stop_returns_def Let_def split: option.splits if_splits)
qed (use lc_okD(3) [OF ok] k(1) in \<open>auto simp: stop_returns_def upd_stop_def Let_def split: option.splits\<close>)

lemma untouched_ok:
  assumes ok: "lc_ok l" and l': "lc_routines l' = lc_routines l" "lc_stops l' = lc_stops l" "lc_wg l' = lc_wg l" "lc_now l \<le> lc_now l'" "lc_cancelled l \<longrightarrow> lc_cancelled l'"
  shows "lc_ok l'"
proof (rule lc_okI)
  show "lc_wg l' = int (active l')" using lc_okD(1) [OF ok] l' by (simp add: active_def)
  show "stop_ok l' k" if "k < length (lc_stops l')" for k
    by (rule stop_ok_later [OF lc_okD(2) [OF ok, of k]]) (use that l' in simp_all)
qed (use l' lc_okD(3,4) [OF ok] in auto)

lemma lc_work_ok: "lc_work l l' \<Longrightarrow> lc_ok l \<Longrightarrow> lc_ok l'"
  by (induction rule: lc_work.induct) (auto intro: return_ok waited_ok answer_ok)

lemma lc_step_ok: "lc_step l l' \<Longrightarrow> lc_ok l \<Longrightarrow> lc_ok l'"
  by (induction rule: lc_step.induct) (auto intro: lc_work_ok start_ok stop_called_ok elim: untouched_ok)

lemma new_ok: "lc_ok (newLifecycle parent_cancelled now)"
  by (simp add: newLifecycle_def lc_ok_def active_def)

lemma reached_ok: "lc_reached l \<Longrightarrow> lc_ok l"
  by (induction rule: lc_reached.induct) (auto intro: lc_step_ok new_ok)

section \<open>Progress\<close>

definition phase_effort :: "routine_kind \<times> phase \<Rightarrow> nat" where
  "phase_effort r = (case snd r of Looping \<Rightarrow> 1 | InStop _ \<Rightarrow> 1 | Leaving \<Rightarrow> 1 | Returned \<Rightarrow> 0)"

definition stop_effort :: "stop_call \<Rightarrow> nat" where
  "stop_effort c = (if sc_done c then 0 else 1) + (if sc_result c = None then 1 else 0)"

text \<open>What is left to do, an upper bound on the number of steps.\<close>

definition shutdown_effort :: "lifecycle \<Rightarrow> nat" where
  "shutdown_effort l = sum_list (map phase_effort (lc_routines l)) + sum_list (map stop_effort (lc_stops l))"

lemma effort_set_phase:
  "i < length (lc_routines l) \<Longrightarrow> shutdown_effort (set_phase i p l) + phase_effort (lc_routines l ! i) = shutdown_effort l + phase_effort (fst (lc_routines l ! i), p)"
  using sum_list_map_update [of i "lc_routines l" phase_effort "(fst (lc_routines l ! i), p)"] by (simp add: shutdown_effort_def set_phase_def)

lemma effort_upd_stop:
  "k < length (lc_stops l) \<Longrightarrow> shutdown_effort (upd_stop k g l) + stop_effort (lc_stops l ! k) = shutdown_effort l + stop_effort (g (lc_stops l ! k))"
  using sum_list_map_update [of k "lc_stops l" stop_effort "g (lc_stops l ! k)"] by (simp add: shutdown_effort_def upd_stop_def)

lemma effort_return:
  assumes "i < length (lc_routines l)" "lc_routines l ! i = (kind, p)" "p = Looping \<or> p = Leaving"
  shows "shutdown_effort (routine_returns i l) < shutdown_effort l"
proof -
  have "shutdown_effort (routine_returns i l) = shutdown_effort (set_phase i Returned l)" by (simp add: routine_returns_def shutdown_effort_def)
  then show ?thesis using effort_set_phase [OF assms(1), of Returned] assms(2,3) by (auto simp: phase_effort_def)
qed

lemma effort_answer:
  assumes ok: "lc_ok l" and k: "k < length (lc_stops l)" "sc_result (lc_stops l ! k) = None"
  shows "shutdown_effort (stop_returns k r l) < shutdown_effort l"
proof -
  let ?l = "upd_stop k (\<lambda>c. c\<lparr>sc_result := Some r\<rparr>) l"
  have one: "shutdown_effort ?l < shutdown_effort l" using effort_upd_stop [OF k(1), of "\<lambda>c. c\<lparr>sc_result := Some r\<rparr>"] k(2) by (simp add: stop_effort_def)
  show ?thesis
  proof (cases "sc_caller (lc_stops l ! k)")
    case None
    then show ?thesis using one by (simp add: stop_returns_def Let_def)
  next
    case (Some i)
    then have "i < length (lc_routines l)" "snd (lc_routines l ! i) = InStop k"
      using lc_okD(2) [OF ok k(1)] k(2) by (auto simp: stop_ok_def Let_def)
    then show ?thesis using effort_set_phase [of i ?l Leaving] one Some by (simp add: stop_returns_def Let_def phase_effort_def)
  qed
qed

lemma lc_work_effort: "lc_work l l' \<Longrightarrow> lc_ok l \<Longrightarrow> shutdown_effort l' < shutdown_effort l"
proof (induction rule: lc_work.induct)
  case (waited k l)
  then show ?case using effort_upd_stop [OF waited(1), of "\<lambda>c. c\<lparr>sc_done := True\<rparr>"] by (auto simp: stop_effort_def)
qed (auto intro: effort_return effort_answer)

text \<open>What the work of the goroutines leaves as it is: who has called \<^verbatim>\<open>stop\<close> and when, the clock and the context.\<close>

definition call_data :: "stop_call \<Rightarrow> nat option \<times> int \<times> time" where
  "call_data c = (sc_caller c, sc_timeout c, sc_at c)"

lemma lc_work_fixed:
  "lc_work l l' \<Longrightarrow> map call_data (lc_stops l') = map call_data (lc_stops l) \<and> lc_now l' = lc_now l \<and> lc_cancelled l' = lc_cancelled l"
  by (induction rule: lc_work.induct)
    (auto simp: routine_returns_def stop_returns_def upd_stop_def Let_def map_update call_data_def list_eq_iff_nth_eq nth_list_update split: option.split)

interpretation shutdown: progress lc_work lc_ok shutdown_effort
  by unfold_locales (auto intro: lc_work_ok lc_work_effort)

lemma lc_run_ok:
  assumes "(lc_work ^^ n) l m" "lc_ok l"
  shows "lc_ok m \<and> n + shutdown_effort m \<le> shutdown_effort l
     \<and> map call_data (lc_stops m) = map call_data (lc_stops l) \<and> lc_now m = lc_now l \<and> lc_cancelled m = lc_cancelled l"
  using shutdown.run_ok [OF assms] shutdown.run_keeps [OF _ assms(1), of "\<lambda>l. (map call_data (lc_stops l), lc_now l, lc_cancelled l)"]
  by (auto dest: lc_work_fixed)

text \<open>The timers of the calls from inside have run out.\<close>

definition timers_out :: "lifecycle \<Rightarrow> bool" where
  "timers_out l \<longleftrightarrow> (\<forall>(caller, timeout, at) \<in> set (map call_data (lc_stops l)). caller \<noteq> None \<longrightarrow> 0 < timeout \<and> at + timeout \<le> lc_now l)"

lemma stuck_returned:
  assumes ok: "lc_ok l" and l: "lc_cancelled l" "timers_out l" and stuck: "\<nexists>l'. lc_work l l'" and i: "i < length (lc_routines l)"
  shows "snd (lc_routines l ! i) = Returned"
proof -
  obtain kind p where r: "lc_routines l ! i = (kind, p)" by fastforce
  have "p \<noteq> Looping" using lc_work.loop_ends [OF i] r l(1) stuck by blast
  moreover have "p \<noteq> Leaving" using lc_work.leaves [OF i] r stuck by blast
  moreover have "p \<noteq> InStop k" for k
  proof
    assume "p = InStop k"
    then have k: "k < length (lc_stops l)" "sc_caller (lc_stops l ! k) = Some i" "sc_result (lc_stops l ! k) = None"
      using lc_okD(4) [OF ok i, of k] r by simp_all
    then have "0 < sc_timeout (lc_stops l ! k)" "sc_at (lc_stops l ! k) + sc_timeout (lc_stops l ! k) \<le> lc_now l"
      using l(2) nth_mem [OF k(1)] by (auto simp: timers_out_def call_data_def)
    then show False using lc_work.timer_fires [OF k(1,3)] stuck by blast
  qed
  ultimately show ?thesis using r by (cases p) auto
qed

lemma stuck_answered:
  assumes ok: "lc_ok l" and returned: "\<And>i. i < length (lc_routines l) \<Longrightarrow> snd (lc_routines l ! i) = Returned"
    and stuck: "\<nexists>l'. lc_work l l'" and k: "k < length (lc_stops l)"
  shows "sc_result (lc_stops l ! k) \<noteq> None"
proof
  assume none: "sc_result (lc_stops l ! k) = None"
  have "map running (lc_routines l) = map (\<lambda>_. 0) (lc_routines l)" using returned by (auto simp: list_eq_iff_nth_eq running_def)
  then have "lc_wg l = 0" using lc_okD(1) [OF ok] by (simp add: active_def)
  then have "sc_done (lc_stops l ! k)" using lc_work.waited [OF k] stuck by blast
  then show False using lc_work.stopped [OF k none] stuck by blast
qed

text \<open>A stopped lifecycle whose inner timers have run out can always come to rest.\<close>

lemma shutdown_completes:
  assumes ok: "lc_ok l" and l: "lc_cancelled l" "timers_out l"
  shows "\<exists>n m. (lc_work ^^ n) l m \<and> (\<forall>i < length (lc_routines m). snd (lc_routines m ! i) = Returned)
    \<and> (\<forall>k < length (lc_stops m). sc_result (lc_stops m ! k) \<noteq> None)"
proof -
  obtain n m where m: "(lc_work ^^ n) l m" "\<nexists>m'. lc_work m m'" using shutdown.run_ends [OF ok] by blast
  have "lc_ok m" "lc_cancelled m" "timers_out m" using lc_run_ok [OF m(1) ok] l by (auto simp: timers_out_def)
  then show ?thesis using m stuck_returned [of m] stuck_answered [of m] by blast
qed

section \<open>Properties\<close>

text \<open>
  (C23) \<^verbatim>\<open>stop\<close> waits for the goroutines. In every interleaving, a \<^verbatim>\<open>stop\<close> that has returned without error was not called by a
  goroutine of the lifecycle, and every goroutine there was when it was called has returned. One that has returned with the error has a
  positive timeout and has waited that long. The counter of the wait group is never negative.
\<close>

theorem stop_waits_for_routines:
  assumes "lc_reached l" "k < length (lc_stops l)"
  defines "c \<equiv> lc_stops l ! k"
  shows "(sc_result c = Some StopNil \<longrightarrow> sc_caller c = None \<and> (\<forall>i < sc_started c. snd (lc_routines l ! i) = Returned))
    \<and> (sc_result c = Some StopTimedOut \<longrightarrow> 0 < sc_timeout c \<and> sc_at c + sc_timeout c \<le> lc_now l) \<and> 0 \<le> lc_wg l"
  using lc_okD(1,2) [OF reached_ok [OF assms(1)]] assms(2) unfolding c_def by (auto simp: stop_ok_def Let_def)

text \<open>
  (C24) A connection that closes itself never stops cleanly. The read and write loops of a connection call \<^verbatim>\<open>close\<close>, which calls \<^verbatim>\<open>stop\<close>
  of their own lifecycle: the loop waits for itself. Such a call never returns without error; it is blocked until its timer fires, which is
  no earlier than the timeout after the call, and for ever if there is no timer. With the second that \<^verbatim>\<open>close\<close> allows, every
  connection that ends this way stays in the table of the server for a second longer.
\<close>

theorem stop_from_inside_blocks:
  assumes "lc_reached l" "k < length (lc_stops l)" "sc_caller (lc_stops l ! k) = Some i"
  defines "c \<equiv> lc_stops l ! k"
  shows "sc_result c \<noteq> Some StopNil
    \<and> (sc_timeout c \<le> 0 \<or> lc_now l < sc_at c + sc_timeout c \<longrightarrow> sc_result c = None \<and> snd (lc_routines l ! i) = InStop k)"
proof -
  have ok: "stop_ok l k" by (rule lc_okD(2) [OF reached_ok [OF assms(1)] assms(2)])
  then have "sc_result c = None \<or> sc_result c = Some StopTimedOut"
    using assms(3) unfolding c_def by (cases "sc_result (lc_stops l ! k)"; cases "the (sc_result (lc_stops l ! k))") (auto simp: stop_ok_def Let_def)
  then show ?thesis using ok assms(3) unfolding c_def by (auto simp: stop_ok_def Let_def)
qed

text \<open>
  (C25) A shutdown ends. Once \<^verbatim>\<open>stop\<close> has been called and the timers of the calls from inside have run out, the goroutines and callers
  together take no more than \<open>shutdown_effort\<close> steps, in whatever order, and come to a halt only when every goroutine has returned and
  every \<^verbatim>\<open>stop\<close> has been answered; and there is such a run.
\<close>

theorem shutdown_ends:
  assumes "lc_reached l" "lc_stops l \<noteq> []" "timers_out l" "(lc_work ^^ n) l m"
  shows "n \<le> shutdown_effort l \<and> ((\<nexists>m'. lc_work m m') \<longrightarrow>
    (\<forall>i < length (lc_routines m). snd (lc_routines m ! i) = Returned) \<and> (\<forall>k < length (lc_stops m). sc_result (lc_stops m ! k) \<noteq> None))
    \<and> (\<exists>n' m'. (lc_work ^^ n') m m' \<and> (\<forall>i < length (lc_routines m'). snd (lc_routines m' ! i) = Returned)
        \<and> (\<forall>k < length (lc_stops m'). sc_result (lc_stops m' ! k) \<noteq> None))"
proof -
  have ok: "lc_ok l" by (rule reached_ok [OF assms(1)])
  have m: "lc_ok m" "n \<le> shutdown_effort l" "timers_out m" "lc_cancelled m"
    using lc_run_ok [OF assms(4) ok] lc_okD(3) [OF ok] assms(2,3) by (auto simp: timers_out_def)
  show ?thesis using m(2) stuck_returned [OF m(1,4,3)] stuck_answered [OF m(1)] shutdown_completes [OF m(1,4,3)] by blast
qed

section \<open>The closing of a connection\<close>

text \<open>A read loop and a write loop; the read loop fails and closes the connection; a second later the timer fires.\<close>

definition two_loops :: lifecycle where
  "two_loops = lifecycle_start Transport (lifecycle_start Transport (newLifecycle False 0))"

definition closing :: lifecycle where
  "closing = stop_called (Some 0) 1000 two_loops"

definition overdue :: lifecycle where
  "overdue = closing\<lparr>lc_now := lc_now closing + 1000\<rparr>"

definition gone :: lifecycle where
  "gone = stop_returns 0 StopTimedOut overdue"

lemmas closing_defs = gone_def overdue_def closing_def two_loops_def lifecycle_start_def newLifecycle_def stop_called_def stop_returns_def
  set_phase_def upd_stop_def

lemma closing_reached: "lc_reached closing" "lc_reached overdue" "lc_reached gone"
proof -
  have "lc_reached two_loops" unfolding two_loops_def by (intro lc_reached.moved [OF _ lc_step.starts] lc_reached.made)
  moreover have "lc_step two_loops closing" unfolding closing_def by (rule lc_step.loop_stops) (simp_all add: closing_defs)
  ultimately show c: "lc_reached closing" by (rule lc_reached.moved)
  show o: "lc_reached overdue" unfolding overdue_def by (rule lc_reached.moved [OF c lc_step.time_passes]) simp
  have "lc_work overdue gone" unfolding gone_def by (rule lc_work.timer_fires) (simp_all add: closing_defs)
  then show "lc_reached gone" by (intro lc_reached.moved [OF o] lc_step.works)
qed

theorem stop_waits_for_routines_witness: "sc_result (lc_stops gone ! 0) = Some StopTimedOut \<and> 0 + 1000 \<le> lc_now gone"
proof -
  have r: "sc_result (lc_stops gone ! 0) = Some StopTimedOut" "0 < length (lc_stops gone)" "sc_at (lc_stops gone ! 0) = 0" "sc_timeout (lc_stops gone ! 0) = 1000"
    by (simp_all add: closing_defs)
  show ?thesis using stop_waits_for_routines [OF closing_reached(3) r(2)] r by simp
qed

theorem stop_from_inside_blocks_witness: "sc_result (lc_stops closing ! 0) = None \<and> snd (lc_routines closing ! 0) = InStop 0"
proof -
  have c: "0 < length (lc_stops closing)" "sc_caller (lc_stops closing ! 0) = Some 0" "lc_now closing < sc_at (lc_stops closing ! 0) + sc_timeout (lc_stops closing ! 0)"
    by (simp_all add: closing_defs)
  show ?thesis using stop_from_inside_blocks [OF closing_reached(1) c(1,2)] c(3) by simp
qed

theorem shutdown_ends_witness: "lc_work overdue gone \<and> 1 \<le> shutdown_effort overdue"
proof -
  have "lc_work overdue gone" unfolding gone_def by (rule lc_work.timer_fires) (simp_all add: closing_defs)
  then have "(lc_work ^^ 1) overdue gone" by (simp add: eq_OO)
  moreover have "lc_stops overdue \<noteq> []" "timers_out overdue" by (simp_all add: closing_defs timers_out_def call_data_def)
  ultimately show ?thesis using shutdown_ends [OF closing_reached(2)] \<open>lc_work overdue gone\<close> by blast
qed

end
