(* ===== verification/ServerApi.thy ===== *)
theory ServerApi
  imports Lifecycle
begin

text \<open>
  The rest of the surface: methods of a namespace (\<^verbatim>\<open>namespace.go\<close>), the methods of \<^verbatim>\<open>Server\<close> that go to the namespace \<^verbatim>\<open>/\<close> (\<^verbatim>\<open>server.go\<close>), the operators of a remote socket
  (\<^verbatim>\<open>remote_socket.go\<close>) and \<^verbatim>\<open>MustNewServer\<close>, with what \<^verbatim>\<open>Run\<close> and \<^verbatim>\<open>Close\<close> allow.
\<close>

section \<open>Methods of a namespace\<close>

definition nsp_SocketsJoin :: "(clusterRequest \<Rightarrow> post_result) \<Rightarrow> bytes \<Rightarrow> Room list \<Rightarrow> ('ty, 'v) Server \<Rightarrow> ('ty, 'v) Server" where
  "nsp_SocketsJoin net name room s = op_SocketsJoin net (newBroadcastOperator name) room s"

definition nsp_SocketsLeave :: "(clusterRequest \<Rightarrow> post_result) \<Rightarrow> bytes \<Rightarrow> Room list \<Rightarrow> ('ty, 'v) Server \<Rightarrow> ('ty, 'v) Server" where
  "nsp_SocketsLeave net name room s = op_SocketsLeave net (newBroadcastOperator name) room s"

definition nsp_DisconnectSockets ::
    "(clusterRequest \<Rightarrow> post_result) \<Rightarrow> time \<Rightarrow> bytes \<Rightarrow> bool \<Rightarrow> ('ty, 'v) Server \<Rightarrow> ('ty, 'v) Server" where
  "nsp_DisconnectSockets net now name close s = op_DisconnectSockets net now (newBroadcastOperator name) close s"

section \<open>Methods of the server\<close>

definition server_To :: "Room list \<Rightarrow> ('ty, 'v) Server \<Rightarrow> BroadcastOperator \<times> ('ty, 'v) Server" where
  "server_To room s = on_root (\<lambda>name s. (nsp_To name room, s)) s"

definition server_Except :: "Room list \<Rightarrow> ('ty, 'v) Server \<Rightarrow> BroadcastOperator \<times> ('ty, 'v) Server" where
  "server_Except room s = on_root (\<lambda>name s. (nsp_Except name room, s)) s"

definition server_Local :: "('ty, 'v) Server \<Rightarrow> BroadcastOperator \<times> ('ty, 'v) Server" where
  "server_Local s = on_root (\<lambda>name s. (nsp_Local name, s)) s"

definition server_Timeout :: "int \<Rightarrow> ('ty, 'v) Server \<Rightarrow> BroadcastOperator \<times> ('ty, 'v) Server" where
  "server_Timeout timeout s = on_root (\<lambda>name s. (nsp_Timeout name timeout, s)) s"

definition server_Sockets :: "('ty, 'v) Server \<Rightarrow> sockref list \<times> ('ty, 'v) Server" where
  "server_Sockets s = on_root nsp_Sockets s"

definition server_FetchSockets ::
    "('ty, 'v) outside \<Rightarrow> (clusterRequest \<Rightarrow> post_result) \<Rightarrow> Room list \<Rightarrow> ('ty, 'v) Server \<Rightarrow> fetched list \<times> ('ty, 'v) Server" where
  "server_FetchSockets x net room s = on_root (\<lambda>name. nsp_FetchSockets x net name room) s"

definition server_SocketsJoin :: "(clusterRequest \<Rightarrow> post_result) \<Rightarrow> Room list \<Rightarrow> ('ty, 'v) Server \<Rightarrow> ('ty, 'v) Server" where
  "server_SocketsJoin net room s = on_root (\<lambda>name. nsp_SocketsJoin net name room) s"

definition server_SocketsLeave :: "(clusterRequest \<Rightarrow> post_result) \<Rightarrow> Room list \<Rightarrow> ('ty, 'v) Server \<Rightarrow> ('ty, 'v) Server" where
  "server_SocketsLeave net room s = on_root (\<lambda>name. nsp_SocketsLeave net name room) s"

definition server_DisconnectSockets :: "(clusterRequest \<Rightarrow> post_result) \<Rightarrow> time \<Rightarrow> bool \<Rightarrow> ('ty, 'v) Server \<Rightarrow> ('ty, 'v) Server" where
  "server_DisconnectSockets net now close s = on_root (\<lambda>name. nsp_DisconnectSockets net now name close) s"

definition server_OnServerSideEmit :: "bytes \<Rightarrow> 'ty fnval \<Rightarrow> ('ty, 'v) Server \<Rightarrow> (handler_error, ('ty, 'v) Server) result" where
  "server_OnServerSideEmit eventName handler s = on_root (\<lambda>name. nsp_OnServerSideEmit name eventName handler) s"

section \<open>Operators of a remote socket\<close>

definition remote_To :: "remoteSocket \<Rightarrow> Room list \<Rightarrow> BroadcastOperator" where
  "remote_To r room = nsp_To (rm_namespace r) room"

definition remote_Except :: "remoteSocket \<Rightarrow> Room list \<Rightarrow> BroadcastOperator" where
  "remote_Except r room = nsp_Except (rm_namespace r) room"

definition remote_Local :: "remoteSocket \<Rightarrow> BroadcastOperator" where
  "remote_Local r = nsp_Local (rm_namespace r)"

section \<open>Running\<close>

text \<open>A panic is the error of \<^verbatim>\<open>Run\<close>.\<close>

definition MustNewServer ::
    "environment \<Rightarrow> (bytes \<Rightarrow> parsed_url option) \<Rightarrow> (bytes \<Rightarrow> bytes) \<Rightarrow> (bytes \<Rightarrow> bytes list option) \<Rightarrow> bytes option \<Rightarrow> ServerConfig
     \<Rightarrow> (run_error, ('ty, 'v) Server) result" where
  "MustNewServer env url_parse port_of lookup_host random config =
     (case server_Run (NewServer env url_parse port_of lookup_host random config) of
        (Some err, _) \<Rightarrow> Inl err
      | (None, s) \<Rightarrow> Inr s)"

lemma on_root_consistent:
  assumes "\<And>name s. consistent s \<Longrightarrow> consistent (sel (f name s))" "consistent s"
  shows "consistent (sel (on_root f s))"
proof -
  obtain name s1 where root: "server_Of ''/'' s = (name, s1)" by fastforce
  then have "consistent s1" using ok_Of [of 0 0 0 s "''/''"] assms(2) by (simp add: consistent_def)
  then show ?thesis using assms(1) root by (simp add: on_root_def)
qed

lemma nsp_api_consistent:
  fixes s :: "('ty, 'v) Server"
  assumes "consistent s"
  shows "consistent (nsp_SocketsJoin net name room s)" "consistent (nsp_SocketsLeave net name room s)"
    "consistent (nsp_DisconnectSockets net now name close s)" "consistent (snd (nsp_FetchSockets x net name room s))"
    "consistent (snd (nsp_Sockets name s))"
proof -
  obtain w :: "('ty, 'v) world" where w: "w_net w = net" "w_now w = now" "w_outside w = x" by (metis world.select_convs(1,2,6))
  have "consistent (server_do w s oper)" for oper using server_do_ok assms by (simp add: consistent_def)
  from this [of "SocketsJoin (newBroadcastOperator name) room"] this [of "SocketsLeave (newBroadcastOperator name) room"]
    this [of "DisconnectSockets (newBroadcastOperator name) close"] this [of "FetchSockets (op_To room (newBroadcastOperator name))"] this [of "NspSockets name"]
  show "consistent (nsp_SocketsJoin net name room s)" "consistent (nsp_SocketsLeave net name room s)"
    "consistent (nsp_DisconnectSockets net now name close s)" "consistent (snd (nsp_FetchSockets x net name room s))"
    "consistent (snd (nsp_Sockets name s))"
    by (simp_all add: w nsp_SocketsJoin_def nsp_SocketsLeave_def nsp_DisconnectSockets_def nsp_FetchSockets_def)
qed

lemma server_api_consistent:
  assumes "consistent s"
  shows "consistent (snd (server_To room s))" "consistent (snd (server_Except room s))" "consistent (snd (server_Local s))"
    "consistent (snd (server_Timeout timeout s))" "consistent (snd (server_Sockets s))" "consistent (snd (server_FetchSockets x net room s))"
  unfolding server_To_def server_Except_def server_Local_def server_Timeout_def server_Sockets_def server_FetchSockets_def
  by (rule on_root_consistent [where sel = snd, OF _ assms]; simp add: nsp_api_consistent)+

lemma server_selection_consistent:
  assumes "consistent s"
  shows "consistent (server_SocketsJoin net room s)" "consistent (server_SocketsLeave net room s)" "consistent (server_DisconnectSockets net now close s)"
  unfolding server_SocketsJoin_def server_SocketsLeave_def server_DisconnectSockets_def
  by (rule on_root_consistent [where sel = "\<lambda>s. s", OF _ assms]; simp add: nsp_api_consistent)+

lemma MustNewServer_running:
  fixes s :: "('ty, 'v) Server"
  assumes "MustNewServer env url_parse port_of lookup_host random config = Inr s"
  shows "consistent s \<and> sv_running s \<and> \<not> sv_stopped s \<and> sv_initErr s = None \<and> second \<le> sv_pingInterval s \<and> second \<le> sv_pingTimeout s"
proof -
  define new where "new = (NewServer env url_parse port_of lookup_host random config :: ('ty, 'v) Server)"
  have new: "consistent new" "\<not> sv_ran new" "\<not> sv_stopped new" unfolding new_def by (rule consistent_new) (simp_all add: NewServer_def Let_def)
  have run: "server_Run new = (None, s)" using assms by (auto simp: MustNewServer_def new_def split: prod.splits option.splits)
  have "consistent s" using server_do_ok [of 0 0 0 new undefined RunServer] new(1) run by (simp add: consistent_def)
  then show ?thesis using run new(2,3) by (auto simp: server_Run_def Let_def split: if_splits option.splits)
qed

text \<open>
  \<^verbatim>\<open>Run\<close> keeps the outcome of its first call. A server that ran and was closed reports no error when it is run again, although it
  does not serve: the message that a server cannot be restarted is given only when \<^verbatim>\<open>Close\<close> came before the first \<^verbatim>\<open>Run\<close>.
\<close>

lemma run_after_close:
  assumes "fst (server_Run s) = None" "sv_conns (snd (server_Run s)) = []" "\<not> sv_ran s" "sv_runErr s = None"
  shows "fst (server_Run (server_Close now (snd (server_Run s)))) = None \<and> \<not> sv_running (snd (server_Run (server_Close now (snd (server_Run s)))))"
    "fst (server_Run (server_Close now (s\<lparr>sv_conns := []\<rparr>))) = Some ServerClosed"
  using assms by (auto simp: server_Run_def server_Close_def Let_def split: if_splits option.splits)

end
