(* ===== verification/PollQueue.thy ===== *)
theory PollQueue
  imports EngineConn "HOL-Library.Multiset"
begin

text \<open>
  The queue of a polling connection (\<^verbatim>\<open>pollQueue\<close> of \<^verbatim>\<open>engine_conn.go\<close>) under concurrent use. \<^verbatim>\<open>add\<close> and \<^verbatim>\<open>take\<close> hold the lock only for
  the slice; the channel \<^verbatim>\<open>ready\<close>, with room for one token, is used outside it. Any number of goroutines may be in \<^verbatim>\<open>add\<close> and in
  \<^verbatim>\<open>take\<close> at once; every interleaving is a run of \<open>poll_step\<close>. The rest of the development uses \<open>poll_add\<close> and \<open>poll_take\<close>, which
  are the runs in which nobody comes in between.
\<close>

section \<open>State and steps\<close>

text \<open>Where a call of \<^verbatim>\<open>add\<close> is: before its critical section, before the \<^verbatim>\<open>select\<close>, or done.\<close>

datatype adder = Appends engineFrame | Signals engineFrame | AddDone engineFrame

text \<open>Where a call of \<^verbatim>\<open>take\<close> is: before its first critical section, in the \<^verbatim>\<open>select\<close>, before the second critical section, or done with its result.\<close>

datatype taker = TakeEnters | TakeWaits | TakeCollects | TakeReturned "engineFrame list"

text \<open>\<open>pr_log\<close> are the frames that were appended and \<open>pr_taken\<close> those that were taken, in the order of the critical sections.\<close>

record poll_run =
  pr_queue :: pollQueue
  pr_adders :: "adder list"
  pr_takers :: "taker list"
  pr_log :: "engineFrame list"
  pr_taken :: "engineFrame list"

definition new_run :: poll_run where
  "new_run = \<lparr>pr_queue = newPollQueue, pr_adders = [], pr_takers = [], pr_log = [], pr_taken = []\<rparr>"

definition append_frame :: "nat \<Rightarrow> engineFrame \<Rightarrow> poll_run \<Rightarrow> poll_run" where
  "append_frame i f r = r\<lparr>pr_queue := (pr_queue r)\<lparr>pq_frames := pq_frames (pr_queue r) @ [f]\<rparr>,
     pr_adders := (pr_adders r)[i := Signals f], pr_log := pr_log r @ [f]\<rparr>"

definition signal_ready :: "nat \<Rightarrow> engineFrame \<Rightarrow> poll_run \<Rightarrow> poll_run" where
  "signal_ready i f r = r\<lparr>pr_queue := (pr_queue r)\<lparr>pq_ready := True\<rparr>, pr_adders := (pr_adders r)[i := AddDone f]\<rparr>"

definition grab_frames :: "nat \<Rightarrow> poll_run \<Rightarrow> poll_run" where
  "grab_frames j r = r\<lparr>pr_queue := (pr_queue r)\<lparr>pq_frames := []\<rparr>, pr_takers := (pr_takers r)[j := TakeReturned (pq_frames (pr_queue r))],
     pr_taken := pr_taken r @ pq_frames (pr_queue r)\<rparr>"

definition set_taker :: "nat \<Rightarrow> taker \<Rightarrow> poll_run \<Rightarrow> poll_run" where
  "set_taker j t r = r\<lparr>pr_takers := (pr_takers r)[j := t]\<rparr>"

definition wake_up :: "nat \<Rightarrow> poll_run \<Rightarrow> poll_run" where
  "wake_up j r = (set_taker j TakeCollects r)\<lparr>pr_queue := (pr_queue r)\<lparr>pq_ready := False\<rparr>\<rparr>"

inductive poll_work :: "poll_run \<Rightarrow> poll_run \<Rightarrow> bool" where
  appends: "i < length (pr_adders r) \<Longrightarrow> pr_adders r ! i = Appends f \<Longrightarrow> poll_work r (append_frame i f r)"
| signals: "i < length (pr_adders r) \<Longrightarrow> pr_adders r ! i = Signals f \<Longrightarrow> poll_work r (signal_ready i f r)"
| takes_now: "j < length (pr_takers r) \<Longrightarrow> pr_takers r ! j = TakeEnters \<Longrightarrow> pq_frames (pr_queue r) \<noteq> [] \<Longrightarrow> poll_work r (grab_frames j r)"
| waits: "j < length (pr_takers r) \<Longrightarrow> pr_takers r ! j = TakeEnters \<Longrightarrow> pq_frames (pr_queue r) = [] \<Longrightarrow> poll_work r (set_taker j TakeWaits r)"
| wakes: "j < length (pr_takers r) \<Longrightarrow> pr_takers r ! j = TakeWaits \<Longrightarrow> pq_ready (pr_queue r) \<Longrightarrow> poll_work r (wake_up j r)"
| collects: "j < length (pr_takers r) \<Longrightarrow> pr_takers r ! j = TakeCollects \<Longrightarrow> poll_work r (grab_frames j r)"

inductive poll_step :: "poll_run \<Rightarrow> poll_run \<Rightarrow> bool" where
  works: "poll_work r r' \<Longrightarrow> poll_step r r'"
| add_called: "poll_step r (r\<lparr>pr_adders := pr_adders r @ [Appends f]\<rparr>)"
| take_called: "poll_step r (r\<lparr>pr_takers := pr_takers r @ [TakeEnters]\<rparr>)"
| times_out: "j < length (pr_takers r) \<Longrightarrow> pr_takers r ! j = TakeWaits \<Longrightarrow> poll_step r (set_taker j TakeCollects r)"

inductive poll_reached :: "poll_run \<Rightarrow> bool" where
  new: "poll_reached new_run"
| moved: "poll_reached r \<Longrightarrow> poll_step r r' \<Longrightarrow> poll_reached r'"

section \<open>Invariant\<close>

fun appended :: "adder \<Rightarrow> engineFrame multiset" where
  "appended (Appends f) = {#}"
| "appended (Signals f) = {#f#}"
| "appended (AddDone f) = {#f#}"

fun result_of :: "taker \<Rightarrow> engineFrame multiset" where
  "result_of (TakeReturned fs) = mset fs"
| "result_of _ = {#}"

definition all_appended :: "poll_run \<Rightarrow> engineFrame multiset" where
  "all_appended r = (\<Sum>a \<in># mset (pr_adders r). appended a)"

definition all_results :: "poll_run \<Rightarrow> engineFrame multiset" where
  "all_results r = (\<Sum>t \<in># mset (pr_takers r). result_of t)"

text \<open>Whoever is going to look at the frames: a token, a call that is about to send one, or a woken \<^verbatim>\<open>take\<close>.\<close>

definition announced :: "poll_run \<Rightarrow> bool" where
  "announced r \<longleftrightarrow> pq_ready (pr_queue r) \<or> (\<exists>f. Signals f \<in> set (pr_adders r)) \<or> TakeCollects \<in> set (pr_takers r)"

definition poll_ok :: "poll_run \<Rightarrow> bool" where
  "poll_ok r \<longleftrightarrow> pr_taken r @ pq_frames (pr_queue r) = pr_log r \<and> mset (pr_log r) = all_appended r \<and> mset (pr_taken r) = all_results r
     \<and> (pq_frames (pr_queue r) \<noteq> [] \<longrightarrow> announced r)"

lemma sum_mset_update:
  fixes g :: "'a \<Rightarrow> 'b multiset"
  assumes "i < length xs"
  shows "(\<Sum>x \<in># mset (xs[i := y]). g x) + g (xs ! i) = (\<Sum>x \<in># mset xs. g x) + g y"
  using assms by (induction xs arbitrary: i) (auto simp: less_Suc_eq_0_disj ac_simps)

lemma update_quiet: "i < length xs \<Longrightarrow> g (xs ! i) = {#} \<Longrightarrow> (\<Sum>x \<in># mset (xs[i := y]). g x) = (\<Sum>x \<in># mset xs. g x) + g y"
  for g :: "'a \<Rightarrow> 'b multiset"
  using sum_mset_update [of i xs g y] by simp

lemma grab_ok:
  assumes "poll_ok r" "j < length (pr_takers r)" "result_of (pr_takers r ! j) = {#}"
  shows "poll_ok (grab_frames j r)"
proof -
  let ?r = "grab_frames j r"
  have "all_results ?r = all_results r + mset (pq_frames (pr_queue r))"
    using assms(2,3) update_quiet [of j "pr_takers r" result_of "TakeReturned (pq_frames (pr_queue r))"] by (simp add: grab_frames_def all_results_def)
  moreover have "pr_taken ?r = pr_taken r @ pq_frames (pr_queue r)" by (simp add: grab_frames_def)
  moreover have "mset (pr_taken r) = all_results r" using assms(1) by (simp add: poll_ok_def)
  ultimately have "mset (pr_taken ?r) = all_results ?r" by simp
  then show ?thesis using assms(1) by (simp add: poll_ok_def) (simp add: grab_frames_def all_appended_def)
qed

lemma set_taker_ok:
  assumes "poll_ok r" "j < length (pr_takers r)" "pr_takers r ! j = TakeEnters \<and> t = TakeWaits \<and> pq_frames (pr_queue r) = [] \<or> pr_takers r ! j = TakeWaits \<and> t = TakeCollects"
  shows "poll_ok (set_taker j t r)"
proof -
  have "announced (set_taker j t r)" if "announced r" "t = TakeCollects" using that assms(2) set_update_memI [of j "pr_takers r"] by (auto simp: announced_def set_taker_def)
  then show ?thesis
    using assms update_quiet [of j "pr_takers r" result_of t] by (auto simp: poll_ok_def set_taker_def all_appended_def all_results_def)
qed

lemma poll_work_ok: "poll_work r r' \<Longrightarrow> poll_ok r \<Longrightarrow> poll_ok r'"
proof (induction rule: poll_work.induct)
  case (appends i r f)
  have "Signals f \<in> set ((pr_adders r)[i := Signals f])" using appends(1) by (rule set_update_memI)
  then show ?case
    using appends update_quiet [of i "pr_adders r" appended "Signals f"]
    by (auto simp: poll_ok_def append_frame_def all_appended_def all_results_def announced_def)
next
  case (signals i r f)
  then show ?case
    using sum_mset_update [of i "pr_adders r" appended "AddDone f"]
    by (auto simp: poll_ok_def signal_ready_def all_appended_def all_results_def announced_def)
next
  case (wakes j r)
  have "TakeCollects \<in> set ((pr_takers r)[j := TakeCollects])" using wakes(1) by (rule set_update_memI)
  then show ?case
    using wakes update_quiet [of j "pr_takers r" result_of TakeCollects]
    by (auto simp: poll_ok_def wake_up_def set_taker_def all_appended_def all_results_def announced_def)
qed (auto intro: grab_ok set_taker_ok)

lemma poll_step_ok: "poll_step r r' \<Longrightarrow> poll_ok r \<Longrightarrow> poll_ok r'"
proof (induction rule: poll_step.induct)
  case (works r r')
  then show ?case by (rule poll_work_ok)
next
  case (times_out j r)
  then show ?case by (auto intro: set_taker_ok)
qed (auto simp: poll_ok_def all_appended_def all_results_def announced_def)

lemma poll_reached_ok: "poll_reached r \<Longrightarrow> poll_ok r"
proof (induction rule: poll_reached.induct)
  case new
  then show ?case by (simp add: poll_ok_def new_run_def newPollQueue_def all_appended_def all_results_def)
qed (rule poll_step_ok)

section \<open>Progress\<close>

fun adder_effort :: "adder \<Rightarrow> nat" where
  "adder_effort (Appends f) = 2"
| "adder_effort (Signals f) = 1"
| "adder_effort (AddDone f) = 0"

fun taker_effort :: "taker \<Rightarrow> nat" where
  "taker_effort TakeEnters = 3"
| "taker_effort TakeWaits = 2"
| "taker_effort TakeCollects = 1"
| "taker_effort (TakeReturned fs) = 0"

definition poll_effort :: "poll_run \<Rightarrow> nat" where
  "poll_effort r = sum_list (map adder_effort (pr_adders r)) + sum_list (map taker_effort (pr_takers r))"

lemma poll_work_effort: "poll_work r r' \<Longrightarrow> poll_effort r' < poll_effort r"
proof (induction rule: poll_work.induct)
  case (appends i r f)
  then show ?case using sum_list_map_update [of i "pr_adders r" adder_effort "Signals f"] by (simp add: poll_effort_def append_frame_def)
next
  case (signals i r f)
  then show ?case using sum_list_map_update [of i "pr_adders r" adder_effort "AddDone f"] by (simp add: poll_effort_def signal_ready_def)
next
  case (takes_now j r)
  then show ?case using sum_list_map_update [of j "pr_takers r" taker_effort "TakeReturned (pq_frames (pr_queue r))"] by (simp add: poll_effort_def grab_frames_def)
next
  case (waits j r)
  then show ?case using sum_list_map_update [of j "pr_takers r" taker_effort TakeWaits] by (simp add: poll_effort_def set_taker_def)
next
  case (wakes j r)
  then show ?case using sum_list_map_update [of j "pr_takers r" taker_effort TakeCollects] by (simp add: poll_effort_def wake_up_def set_taker_def)
next
  case (collects j r)
  then show ?case using sum_list_map_update [of j "pr_takers r" taker_effort "TakeReturned (pq_frames (pr_queue r))"] by (simp add: poll_effort_def grab_frames_def)
qed

interpretation polling: progress poll_work poll_ok poll_effort
  by unfold_locales (auto intro: poll_work_ok poll_work_effort)

lemma resting_adders:
  assumes "\<nexists>r'. poll_work r r'" "i < length (pr_adders r)"
  shows "\<exists>f. pr_adders r ! i = AddDone f"
  using poll_work.appends [OF assms(2)] poll_work.signals [OF assms(2)] assms(1) by (cases "pr_adders r ! i") auto

lemma resting_takers:
  assumes "\<nexists>r'. poll_work r r'" "j < length (pr_takers r)"
  shows "(\<exists>fs. pr_takers r ! j = TakeReturned fs) \<or> pr_takers r ! j = TakeWaits \<and> \<not> pq_ready (pr_queue r)"
  using poll_work.takes_now [OF assms(2)] poll_work.waits [OF assms(2)] poll_work.wakes [OF assms(2)] poll_work.collects [OF assms(2)] assms(1)
  by (cases "pr_takers r ! j") auto

lemma resting_empty:
  assumes ok: "poll_ok r" and rest: "\<nexists>r'. poll_work r r'" and j: "j < length (pr_takers r)" "pr_takers r ! j = TakeWaits"
  shows "pq_frames (pr_queue r) = []"
proof (rule ccontr)
  assume "pq_frames (pr_queue r) \<noteq> []"
  then have "announced r" using ok by (simp add: poll_ok_def)
  moreover have "\<not> pq_ready (pr_queue r)" using resting_takers [OF rest j(1)] j(2) by auto
  moreover have "Signals f \<notin> set (pr_adders r)" for f using resting_adders [OF rest] by (force simp: in_set_conv_nth)
  moreover have "TakeCollects \<notin> set (pr_takers r)" using resting_takers [OF rest] by (force simp: in_set_conv_nth)
  ultimately show False by (auto simp: announced_def)
qed

section \<open>The undisturbed runs\<close>

definition idle_run :: "pollQueue \<Rightarrow> poll_run" where
  "idle_run q = \<lparr>pr_queue = q, pr_adders = [], pr_takers = [], pr_log = pq_frames q, pr_taken = []\<rparr>"

text \<open>\<open>poll_add\<close> is the queue after a call of \<^verbatim>\<open>add\<close> that runs alone.\<close>

lemma poll_add_is_run:
  "\<exists>r. (poll_work ^^ 2) ((idle_run q)\<lparr>pr_adders := [Appends f]\<rparr>) r \<and> pr_queue r = poll_add q f \<and> pr_adders r = [AddDone f]"
proof -
  let ?r0 = "(idle_run q)\<lparr>pr_adders := [Appends f]\<rparr>"
  let ?r1 = "append_frame 0 f ?r0"
  have "poll_work ?r0 ?r1" by (rule poll_work.appends) simp_all
  moreover have "poll_work ?r1 (signal_ready 0 f ?r1)" by (rule poll_work.signals) (simp_all add: append_frame_def)
  ultimately have "(poll_work ^^ 2) ?r0 (signal_ready 0 f ?r1)" by (auto simp: eval_nat_numeral relcompp_apply)
  moreover have "pr_queue (signal_ready 0 f ?r1) = poll_add q f \<and> pr_adders (signal_ready 0 f ?r1) = [AddDone f]"
    by (simp add: signal_ready_def append_frame_def poll_add_def idle_run_def)
  ultimately show ?thesis by blast
qed

text \<open>\<open>poll_take\<close> without an arrival is the result and the queue of a call of \<^verbatim>\<open>take\<close> that runs alone.\<close>

lemma poll_take_is_run:
  assumes "poll_take None q = (fs, q')"
  shows "\<exists>r. poll_step\<^sup>*\<^sup>* ((idle_run q)\<lparr>pr_takers := [TakeEnters]\<rparr>) r \<and> pr_queue r = q' \<and> pr_takers r = [TakeReturned fs]"
proof -
  let ?r0 = "(idle_run q)\<lparr>pr_takers := [TakeEnters]\<rparr>"
  show ?thesis
  proof (cases "pq_frames q = []")
    case False
    then have "poll_step ?r0 (grab_frames 0 ?r0)" by (intro poll_step.works poll_work.takes_now) (simp_all add: idle_run_def)
    then show ?thesis
      using assms False by (intro exI [of _ "grab_frames 0 ?r0"] conjI r_into_rtranclp) (auto simp: grab_frames_def idle_run_def poll_take_def)
  next
    case True
    let ?r1 = "set_taker 0 TakeWaits ?r0"
    let ?r2 = "if pq_ready q then wake_up 0 ?r1 else set_taker 0 TakeCollects ?r1"
    have "poll_step ?r0 ?r1" using True by (intro poll_step.works poll_work.waits) (simp_all add: idle_run_def)
    moreover have "poll_step ?r1 (wake_up 0 ?r1)" if "pq_ready q"
      using that by (intro poll_step.works poll_work.wakes) (simp_all add: set_taker_def idle_run_def)
    moreover have "poll_step ?r1 (set_taker 0 TakeCollects ?r1)" by (rule poll_step.times_out) (simp_all add: set_taker_def)
    ultimately have steps: "poll_step ?r0 ?r1" "poll_step ?r1 ?r2" by simp_all
    moreover have "poll_step ?r2 (grab_frames 0 ?r2)"
      by (intro poll_step.works poll_work.collects) (simp_all add: wake_up_def set_taker_def)
    ultimately have "poll_step\<^sup>*\<^sup>* ?r0 (grab_frames 0 ?r2)" by (blast intro: converse_rtranclp_into_rtranclp)
    moreover have "pr_queue (grab_frames 0 ?r2) = q' \<and> pr_takers (grab_frames 0 ?r2) = [TakeReturned fs]"
      using assms True by (cases "pq_ready q") (auto simp: grab_frames_def wake_up_def set_taker_def idle_run_def poll_take_def)
    ultimately show ?thesis by blast
  qed
qed

section \<open>Properties\<close>

text \<open>
  (C20) The poll queue hands every frame out once and in order. However calls of \<^verbatim>\<open>add\<close> and \<^verbatim>\<open>take\<close> interleave, what has been taken followed by
  what is in the queue is what has been added, in the order in which the frames were appended; the results that the calls of \<^verbatim>\<open>take\<close> have
  returned are together, each frame as often, the frames taken.
\<close>

theorem poll_queue_exact:
  assumes "poll_reached r"
  shows "pr_taken r @ pq_frames (pr_queue r) = pr_log r \<and> mset (pr_log r) = all_appended r \<and> mset (pr_taken r) = all_results r
    \<and> all_appended r = all_results r + mset (pq_frames (pr_queue r))"
  using poll_reached_ok [OF assms] by (simp add: poll_ok_def) (metis mset_append)

text \<open>
  (C21) No poll sleeps on a frame. From every reachable state the calls that are under way take no more than \<open>poll_effort\<close> steps, without any timer
  firing, and when they come to rest every \<^verbatim>\<open>add\<close> is done, every \<^verbatim>\<open>take\<close> has returned or waits, and if one waits the queue is
  empty: the token of the channel is never lost.
\<close>

theorem poll_wakes_for_frames:
  assumes "poll_reached r" "(poll_work ^^ n) r r'"
  shows "n \<le> poll_effort r \<and> ((\<nexists>r''. poll_work r' r'') \<longrightarrow>
    (\<forall>i < length (pr_adders r'). \<exists>f. pr_adders r' ! i = AddDone f) \<and>
    (\<forall>j < length (pr_takers r'). (\<exists>fs. pr_takers r' ! j = TakeReturned fs) \<or> pr_takers r' ! j = TakeWaits \<and> pq_frames (pr_queue r') = []))"
proof -
  have "poll_ok r'" "n \<le> poll_effort r" using polling.run_ok [OF assms(2) poll_reached_ok [OF assms(1)]] by auto
  then show ?thesis using resting_adders [of r'] resting_takers [of r'] resting_empty [of r'] by blast
qed

text \<open>
  A token may be stale. A frame that is added and then taken at once leaves its token in the channel; the next poll finds the queue empty,
  takes the token and returns no frame, without waiting for anything. The client gets an empty response.
\<close>

lemma stale_token_ends_poll:
  "fst (poll_take arrives (snd (poll_take arrives' (poll_add newPollQueue f)))) = []"
  by (simp add: poll_take_def poll_add_def newPollQueue_def)

section \<open>A frame for a waiting poll\<close>

definition waiting_run :: "engineFrame \<Rightarrow> poll_run" where
  "waiting_run f = new_run\<lparr>pr_takers := [TakeWaits], pr_adders := [Appends f]\<rparr>"

lemma waiting_reached: "poll_reached (waiting_run f)"
proof -
  let ?r1 = "new_run\<lparr>pr_takers := [TakeEnters]\<rparr>"
  have "poll_reached (new_run\<lparr>pr_takers := pr_takers new_run @ [TakeEnters]\<rparr>)" by (rule poll_reached.moved [OF poll_reached.new poll_step.take_called])
  then have "poll_reached ?r1" by (simp add: new_run_def)
  moreover have "poll_step ?r1 (set_taker 0 TakeWaits ?r1)"
    by (intro poll_step.works poll_work.waits) (simp_all add: new_run_def newPollQueue_def)
  ultimately have "poll_reached (set_taker 0 TakeWaits ?r1)" by (rule poll_reached.moved)
  from poll_reached.moved [OF this poll_step.add_called [of _ f]] show ?thesis by (simp add: waiting_run_def set_taker_def new_run_def)
qed

lemma waiting_run_served: "\<exists>r. (poll_work ^^ 4) (waiting_run f) r \<and> pr_takers r = [TakeReturned [f]]"
proof -
  let ?r1 = "append_frame 0 f (waiting_run f)"
  let ?r2 = "signal_ready 0 f ?r1"
  let ?r3 = "wake_up 0 ?r2"
  have "poll_work (waiting_run f) ?r1" by (rule poll_work.appends) (simp_all add: waiting_run_def)
  moreover have "poll_work ?r1 ?r2" by (rule poll_work.signals) (simp_all add: append_frame_def waiting_run_def)
  moreover have "poll_work ?r2 ?r3" by (rule poll_work.wakes) (simp_all add: signal_ready_def append_frame_def waiting_run_def)
  moreover have "poll_work ?r3 (grab_frames 0 ?r3)"
    by (rule poll_work.collects) (simp_all add: wake_up_def set_taker_def signal_ready_def append_frame_def waiting_run_def)
  ultimately have "(poll_work ^^ 4) (waiting_run f) (grab_frames 0 ?r3)" by (auto simp: eval_nat_numeral relcompp_apply)
  moreover have "pr_takers (grab_frames 0 ?r3) = [TakeReturned [f]]"
    by (simp add: grab_frames_def wake_up_def set_taker_def signal_ready_def append_frame_def waiting_run_def new_run_def newPollQueue_def)
  ultimately show ?thesis by blast
qed

definition sample_frame :: engineFrame where
  "sample_frame = newEngineMessageFrame ''2[1]''"

lemma run_poll_reached: "(poll_work ^^ n) r r' \<Longrightarrow> poll_reached r \<Longrightarrow> poll_reached r'"
  by (induction n arbitrary: r') (auto intro: poll_reached.moved poll_step.works)

theorem poll_queue_exact_witness:
  "\<exists>r. pr_takers r = [TakeReturned [sample_frame]] \<and> poll_reached r \<and> mset (pr_taken r) = {#sample_frame#}"
proof -
  obtain r where r: "(poll_work ^^ 4) (waiting_run sample_frame) r" "pr_takers r = [TakeReturned [sample_frame]]" using waiting_run_served by blast
  have reached: "poll_reached r" using run_poll_reached [OF r(1) waiting_reached] .
  then show ?thesis using poll_queue_exact [OF reached] r(2) by (auto simp: all_results_def)
qed

theorem poll_wakes_for_frames_witness: "4 \<le> poll_effort (waiting_run sample_frame)"
proof -
  obtain r where "(poll_work ^^ 4) (waiting_run sample_frame) r" using waiting_run_served by blast
  then show ?thesis using poll_wakes_for_frames [OF waiting_reached] by blast
qed

end
