(* ===== verification/AckRace.thy ===== *)
theory AckRace
  imports AckStore
begin

text \<open>
  One broadcast tracker of \<^verbatim>\<open>server.go\<close> under concurrent use. \<^verbatim>\<open>accept\<close>, \<^verbatim>\<open>addExpected\<close> and \<^verbatim>\<open>maybeFinish\<close> hold the lock of the tracker only
  while they decide; the one that finds the broadcast complete then removes the tracker from the table (under \<^verbatim>\<open>ackMu\<close>), counts it and runs the
  handler. \<^verbatim>\<open>sweepAcks\<close> holds \<^verbatim>\<open>ackMu\<close> all the while. Every interleaving of any number of such calls is a run of \<open>race_step\<close>; the
  theory \<open>AckStore\<close> has the runs in which each call runs alone.
\<close>

section \<open>State and steps\<close>

text \<open>
  Where a call is. \<open>Accepting\<close>, \<open>Adding\<close> and \<open>Checking\<close> are before the lock of the tracker; \<open>Removing\<close>, \<open>Counting\<close> and \<open>Calling\<close> are what the
  one that set \<^verbatim>\<open>done\<close> has still to do. A sweep that found the tracker in the table and its deadline past is \<open>TimingOut\<close> before it looks
  at \<^verbatim>\<open>done\<close>, and \<open>Expiring\<close> when it has set it.
\<close>

datatype ack_thread = Accepting | Adding int | Checking | Removing | Counting | Calling | Sweeping | TimingOut | Expiring | Over

datatype outcome = Acked | Expired

text \<open>\<open>ar_present\<close> says whether the tracker is in the table, \<open>ar_held\<close> whether a sweep holds \<^verbatim>\<open>ackMu\<close>, \<open>ar_fired\<close> what the handler, which runs once, was run with.\<close>

record ack_race =
  ar_expected :: int
  ar_got :: int
  ar_done :: bool
  ar_present :: bool
  ar_held :: bool
  ar_resolved :: nat
  ar_timedOut :: nat
  ar_fired :: "outcome option"
  ar_threads :: "ack_thread list"

definition new_race :: ack_race where
  "new_race = \<lparr>ar_expected = 0, ar_got = 0, ar_done = False, ar_present = True, ar_held = False, ar_resolved = 0, ar_timedOut = 0,
     ar_fired = None, ar_threads = []\<rparr>"

definition goes :: "nat \<Rightarrow> ack_thread \<Rightarrow> ack_race \<Rightarrow> ack_race" where
  "goes i t r = r\<lparr>ar_threads := (ar_threads r)[i := t]\<rparr>"

definition decide :: "nat \<Rightarrow> bool \<Rightarrow> ack_race \<Rightarrow> ack_race" where
  "decide i fin r = (if fin then goes i Removing (r\<lparr>ar_done := True\<rparr>) else goes i Over r)"

definition accept_locked :: "nat \<Rightarrow> ack_race \<Rightarrow> ack_race" where
  "accept_locked i r =
     (if ar_done r then goes i Over r
      else (let got = ar_got r + 1 in decide i (ar_expected r > 0 \<and> got \<ge> ar_expected r) (r\<lparr>ar_got := got\<rparr>)))"

definition addExpected_locked :: "nat \<Rightarrow> int \<Rightarrow> ack_race \<Rightarrow> ack_race" where
  "addExpected_locked i n r =
     (if ar_done r then goes i Over r
      else (let expected = ar_expected r + n in decide i (expected > 0 \<and> ar_got r \<ge> expected) (r\<lparr>ar_expected := expected\<rparr>)))"

definition maybeFinish_locked :: "nat \<Rightarrow> ack_race \<Rightarrow> ack_race" where
  "maybeFinish_locked i r = decide i (\<not> ar_done r \<and> ar_expected r = 0) r"

definition sweep_locked :: "nat \<Rightarrow> ack_race \<Rightarrow> ack_race" where
  "sweep_locked i r =
     (if ar_present r then goes i TimingOut (r\<lparr>ar_present := False, ar_timedOut := ar_timedOut r + 1, ar_held := True\<rparr>) else goes i Over r)"

definition timeout_locked :: "nat \<Rightarrow> ack_race \<Rightarrow> ack_race" where
  "timeout_locked i r =
     (if ar_done r then goes i Over (r\<lparr>ar_held := False\<rparr>) else goes i Expiring (r\<lparr>ar_done := True\<rparr>))"

text \<open>\<^verbatim>\<open>h.once.Do\<close>\<close>

definition fire :: "outcome \<Rightarrow> ack_race \<Rightarrow> ack_race" where
  "fire x r = (case ar_fired r of None \<Rightarrow> r\<lparr>ar_fired := Some x\<rparr> | Some _ \<Rightarrow> r)"

inductive race_work :: "ack_race \<Rightarrow> ack_race \<Rightarrow> bool" where
  accepts: "i < length (ar_threads r) \<Longrightarrow> ar_threads r ! i = Accepting \<Longrightarrow> race_work r (accept_locked i r)"
| adds: "i < length (ar_threads r) \<Longrightarrow> ar_threads r ! i = Adding n \<Longrightarrow> race_work r (addExpected_locked i n r)"
| checks: "i < length (ar_threads r) \<Longrightarrow> ar_threads r ! i = Checking \<Longrightarrow> race_work r (maybeFinish_locked i r)"
| removes: "i < length (ar_threads r) \<Longrightarrow> ar_threads r ! i = Removing \<Longrightarrow> \<not> ar_held r \<Longrightarrow> race_work r (goes i Counting (r\<lparr>ar_present := False\<rparr>))"
| counts: "i < length (ar_threads r) \<Longrightarrow> ar_threads r ! i = Counting \<Longrightarrow> race_work r (goes i Calling (r\<lparr>ar_resolved := ar_resolved r + 1\<rparr>))"
| calls: "i < length (ar_threads r) \<Longrightarrow> ar_threads r ! i = Calling \<Longrightarrow> race_work r (goes i Over (fire Acked r))"
| sweeps: "i < length (ar_threads r) \<Longrightarrow> ar_threads r ! i = Sweeping \<Longrightarrow> \<not> ar_held r \<Longrightarrow> race_work r (sweep_locked i r)"
| times_out: "i < length (ar_threads r) \<Longrightarrow> ar_threads r ! i = TimingOut \<Longrightarrow> race_work r (timeout_locked i r)"
| expires: "i < length (ar_threads r) \<Longrightarrow> ar_threads r ! i = Expiring \<Longrightarrow> race_work r (goes i Over ((fire Expired r)\<lparr>ar_held := False\<rparr>))"

inductive race_step :: "ack_race \<Rightarrow> ack_race \<Rightarrow> bool" where
  works: "race_work r r' \<Longrightarrow> race_step r r'"
| begins: "t = Accepting \<or> t = Adding n \<or> t = Checking \<or> t = Sweeping \<Longrightarrow> race_step r (r\<lparr>ar_threads := ar_threads r @ [t]\<rparr>)"

inductive race_reached :: "ack_race \<Rightarrow> bool" where
  new: "race_reached new_race"
| moved: "race_reached r \<Longrightarrow> race_step r r' \<Longrightarrow> race_reached r'"

section \<open>Invariant\<close>

definition tally :: "ack_thread set \<Rightarrow> ack_race \<Rightarrow> nat" where
  "tally A r = sum_list (map (\<lambda>t. of_bool (t \<in> A)) (ar_threads r))"

lemma tally_goes: "i < length (ar_threads r) \<Longrightarrow> tally A (goes i t r) + of_bool (ar_threads r ! i \<in> A) = tally A r + of_bool (t \<in> A)"
  using sum_list_map_update [of i "ar_threads r" "\<lambda>t. of_bool (t \<in> A)" t] by (simp add: tally_def goes_def)

lemma tally_pos: "i < length (ar_threads r) \<Longrightarrow> ar_threads r ! i \<in> A \<Longrightarrow> 0 < tally A r"
  using member_le_sum_list [of 1 "map (\<lambda>t. of_bool (t \<in> A)) (ar_threads r)"] nth_mem [of i "ar_threads r"]
  by (force simp: tally_def)

abbreviation finishers :: "ack_thread set" where "finishers \<equiv> {Removing, Counting, Calling, Expiring}"
abbreviation holders :: "ack_thread set" where "holders \<equiv> {TimingOut, Expiring}"

text \<open>
  Whoever has set \<^verbatim>\<open>done\<close> is a finisher until the handler has run. A sweep holds \<^verbatim>\<open>ackMu\<close> exactly while it is between the table and the end of the
  timeout. The tracker is counted as resolved by the finisher that calls the handler, as timed out by the sweep that found it in the table.
\<close>

definition race_ok :: "ack_race \<Rightarrow> bool" where
  "race_ok r \<longleftrightarrow> tally finishers r + of_bool (ar_fired r \<noteq> None) = of_bool (ar_done r)
     \<and> tally holders r = of_bool (ar_held r)
     \<and> tally {Calling} r + of_bool (ar_fired r = Some Acked) = ar_resolved r
     \<and> ar_timedOut r \<le> 1 \<and> (ar_present r \<longrightarrow> ar_timedOut r = 0)
     \<and> (0 < tally holders r \<or> ar_fired r = Some Expired \<longrightarrow> ar_timedOut r = 1)"

lemma goes_sel [simp]:
  "ar_expected (goes i t r) = ar_expected r" "ar_got (goes i t r) = ar_got r" "ar_done (goes i t r) = ar_done r" "ar_present (goes i t r) = ar_present r"
  "ar_held (goes i t r) = ar_held r" "ar_resolved (goes i t r) = ar_resolved r" "ar_timedOut (goes i t r) = ar_timedOut r"
  "ar_fired (goes i t r) = ar_fired r" "length (ar_threads (goes i t r)) = length (ar_threads r)"
  by (simp_all add: goes_def)

text \<open>One call moves from one place to another; the rest is arithmetic.\<close>

lemma moves_ok:
  assumes "race_ok r" "i < length (ar_threads r)" "ar_threads r ! i = t" "ar_threads r1 = ar_threads r"
    and "\<And>finishing holding calling finishing' holding' calling'.
      finishing' + of_bool (t \<in> finishers) = finishing + of_bool (t' \<in> finishers) \<Longrightarrow>
      holding' + of_bool (t \<in> holders) = holding + of_bool (t' \<in> holders) \<Longrightarrow>
      calling' + of_bool (t \<in> {Calling}) = calling + of_bool (t' \<in> {Calling}) \<Longrightarrow>
      finishing + of_bool (ar_fired r \<noteq> None) = (of_bool (ar_done r) :: nat) \<Longrightarrow> holding = (of_bool (ar_held r) :: nat) \<Longrightarrow>
      calling + of_bool (ar_fired r = Some Acked) = ar_resolved r \<Longrightarrow> calling \<le> finishing \<Longrightarrow>
      ar_timedOut r \<le> 1 \<Longrightarrow> ar_present r \<longrightarrow> ar_timedOut r = 0 \<Longrightarrow> 0 < holding \<or> ar_fired r = Some Expired \<longrightarrow> ar_timedOut r = 1 \<Longrightarrow>
      finishing' + of_bool (ar_fired r1 \<noteq> None) = of_bool (ar_done r1) \<and> holding' = of_bool (ar_held r1)
        \<and> calling' + of_bool (ar_fired r1 = Some Acked) = ar_resolved r1
        \<and> ar_timedOut r1 \<le> 1 \<and> (ar_present r1 \<longrightarrow> ar_timedOut r1 = 0)
        \<and> (0 < holding' \<or> ar_fired r1 = Some Expired \<longrightarrow> ar_timedOut r1 = 1)"
  shows "race_ok (goes i t' r1)"
proof -
  have same: "tally A r1 = tally A r" for A using assms(4) by (simp add: tally_def)
  have moved: "tally A (goes i t' r1) + of_bool (t \<in> A) = tally A r + of_bool (t' \<in> A)" for A
    using tally_goes [of i r1 A t'] assms(2-4) same by simp
  have "tally {Calling} r \<le> tally finishers r" unfolding tally_def by (rule sum_list_mono) auto
  then show ?thesis
    using assms(5) [OF moved moved moved] assms(1) by (simp add: race_ok_def)
qed

lemma race_work_ok: "race_work r r' \<Longrightarrow> race_ok r \<Longrightarrow> race_ok r'"
proof (induction rule: race_work.induct)
  case (accepts i r)
  show ?case unfolding accept_locked_def decide_def Let_def
    by (simp only: split: if_split, intro conjI impI; rule moves_ok [OF accepts(3,1,2)]; auto)
next
  case (adds i r n)
  show ?case unfolding addExpected_locked_def decide_def Let_def
    by (simp only: split: if_split, intro conjI impI; rule moves_ok [OF adds(3,1,2)]; auto)
next
  case (checks i r)
  show ?case unfolding maybeFinish_locked_def decide_def by (split if_split, intro conjI impI) (rule moves_ok [OF checks(3,1,2)]; auto)+
next
  case (removes i r)
  show ?case by (rule moves_ok [OF removes(4,1,2)]) auto
next
  case (counts i r)
  show ?case by (rule moves_ok [OF counts(3,1,2)]) auto
next
  case (calls i r)
  show ?case by (rule moves_ok [OF calls(3,1,2)]; cases "ar_done r"; cases "ar_fired r") (auto simp: fire_def)
next
  case (sweeps i r)
  show ?case unfolding sweep_locked_def using sweeps(3)
    by (split if_split, intro conjI impI) (rule moves_ok [OF sweeps(4,1,2)]; auto)+
next
  case (times_out i r)
  show ?case unfolding timeout_locked_def
    by (split if_split, intro conjI impI) (rule moves_ok [OF times_out(3,1,2)]; cases "ar_held r"; auto)+
next
  case (expires i r)
  show ?case by (rule moves_ok [OF expires(3,1,2)]; cases "ar_done r"; cases "ar_held r"; cases "ar_fired r") (auto simp: fire_def)
qed

lemma race_step_ok: "race_step r r' \<Longrightarrow> race_ok r \<Longrightarrow> race_ok r'"
proof (induction rule: race_step.induct)
  case (begins t n r)
  then have "tally A (r\<lparr>ar_threads := ar_threads r @ [t]\<rparr>) = tally A r" if "A \<subseteq> finishers \<union> holders" for A
    using that by (auto simp: tally_def)
  then show ?case using begins(2) by (simp add: race_ok_def)
qed (rule race_work_ok)

lemma race_reached_ok: "race_reached r \<Longrightarrow> race_ok r"
proof (induction rule: race_reached.induct)
  case new
  then show ?case by (simp add: race_ok_def new_race_def tally_def)
qed (rule race_step_ok)

section \<open>Progress\<close>

fun thread_effort :: "ack_thread \<Rightarrow> nat" where
  "thread_effort Accepting = 4"
| "thread_effort (Adding n) = 4"
| "thread_effort Checking = 4"
| "thread_effort Removing = 3"
| "thread_effort Counting = 2"
| "thread_effort Calling = 1"
| "thread_effort Sweeping = 3"
| "thread_effort TimingOut = 2"
| "thread_effort Expiring = 1"
| "thread_effort Over = 0"

definition race_effort :: "ack_race \<Rightarrow> nat" where
  "race_effort r = sum_list (map thread_effort (ar_threads r))"

lemma effort_goes:
  "i < length (ar_threads r) \<Longrightarrow> thread_effort t < thread_effort (ar_threads r ! i) \<Longrightarrow> ar_threads r1 = ar_threads r \<Longrightarrow>
   race_effort (goes i t r1) < race_effort r"
  using sum_list_map_update [of i "ar_threads r" thread_effort t] by (simp add: race_effort_def goes_def)

lemma race_work_effort: "race_work r r' \<Longrightarrow> race_effort r' < race_effort r"
  by (induction rule: race_work.induct)
    (auto simp: accept_locked_def addExpected_locked_def maybeFinish_locked_def sweep_locked_def timeout_locked_def decide_def fire_def Let_def
      intro!: effort_goes split: option.split)

interpretation race: progress race_work race_ok race_effort
  by unfold_locales (auto intro: race_work_ok race_work_effort)

lemma race_rest:
  assumes ok: "race_ok r" and rest: "\<nexists>r'. race_work r r'" and i: "i < length (ar_threads r)"
  shows "ar_threads r ! i = Over"
proof -
  have none: "ar_threads r ! j \<notin> holders" if "j < length (ar_threads r)" for j
    using race_work.times_out [OF that] race_work.expires [OF that] rest by blast
  have "tally holders r = 0"
    unfolding tally_def using none by (auto simp: in_set_conv_nth)
  then have "\<not> ar_held r" using ok by (simp add: race_ok_def split: if_splits)
  then show ?thesis
    using race_work.intros [OF i] rest by (cases "ar_threads r ! i") blast+
qed

section \<open>Properties\<close>

text \<open>
  (C22) A broadcast with acknowledgement has one outcome. However acknowledgements, counts of peers and sweeps interleave, the handler runs
  with at most one outcome: with the acknowledgement only if the tracker was counted as resolved, with the timeout only if it was counted as
  timed out and not as resolved; each counter is raised once at most. The calls that are under way take a bounded number of steps, and when all
  are over the handler has run exactly if the tracker is done.
\<close>

theorem broadcast_ack_one_outcome:
  assumes "race_reached r" "(race_work ^^ n) r r'"
  shows "n \<le> race_effort r \<and> ar_resolved r' \<le> 1 \<and> ar_timedOut r' \<le> 1
    \<and> (ar_fired r' = Some Acked \<longrightarrow> ar_resolved r' = 1) \<and> (ar_fired r' = Some Expired \<longrightarrow> ar_timedOut r' = 1 \<and> ar_resolved r' = 0)
    \<and> ((\<nexists>r''. race_work r' r'') \<longrightarrow> set (ar_threads r') \<subseteq> {Over} \<and> (ar_done r' \<longleftrightarrow> ar_fired r' \<noteq> None))"
proof -
  have ok: "race_ok r'" "n \<le> race_effort r" using race.run_ok [OF assms(2) race_reached_ok [OF assms(1)]] by auto
  have "tally {Calling} r' \<le> tally finishers r'" unfolding tally_def by (rule sum_list_mono) auto
  then have counts: "ar_resolved r' \<le> 1" "ar_fired r' = Some Acked \<longrightarrow> ar_resolved r' = 1"
      "ar_fired r' = Some Expired \<longrightarrow> ar_timedOut r' = 1 \<and> ar_resolved r' = 0" "ar_timedOut r' \<le> 1"
    using ok(1) by (auto simp: race_ok_def split: if_splits) (cases "ar_done r'"; cases "ar_fired r'"; cases "the (ar_fired r')"; simp)+
  have "set (ar_threads r') \<subseteq> {Over} \<and> (ar_done r' \<longleftrightarrow> ar_fired r' \<noteq> None)" if "\<nexists>r''. race_work r' r''"
  proof -
    have over: "set (ar_threads r') \<subseteq> {Over}" using race_rest [OF ok(1) that] by (auto simp: in_set_conv_nth)
    then have "tally finishers r' = 0" unfolding tally_def by auto
    then show ?thesis using over ok(1) by (cases "ar_done r'"; cases "ar_fired r'") (simp_all add: race_ok_def)
  qed
  then show ?thesis using ok(2) counts by blast
qed

text \<open>The handler of a timeout runs while the sweep holds \<^verbatim>\<open>ackMu\<close>.\<close>

lemma timeout_runs_under_lock: "race_reached r \<Longrightarrow> i < length (ar_threads r) \<Longrightarrow> ar_threads r ! i = Expiring \<Longrightarrow> ar_held r"
  using race_reached_ok [of r] tally_pos [of i r holders] by (auto simp: race_ok_def split: if_splits)

section \<open>A late sweep\<close>

text \<open>
  One acknowledgement, one expected, and a sweep past the deadline between the decision of \<^verbatim>\<open>accept\<close> and its removal of the tracker: the handler runs with the
  acknowledgement, and the broadcast is counted as resolved and as timed out.
\<close>

definition late_start :: ack_race where
  "late_start = new_race\<lparr>ar_expected := 1, ar_threads := [Over, Accepting, Sweeping]\<rparr>"

definition late_end :: ack_race where
  "late_end = late_start\<lparr>ar_got := 1, ar_done := True, ar_present := False, ar_resolved := 1, ar_timedOut := 1, ar_fired := Some Acked,
     ar_threads := [Over, Over, Over]\<rparr>"

lemmas late_defs = late_start_def late_end_def new_race_def accept_locked_def addExpected_locked_def sweep_locked_def timeout_locked_def decide_def goes_def fire_def

lemma late_reached: "race_reached late_start"
proof -
  have "race_reached (new_race\<lparr>ar_threads := ar_threads new_race @ [Adding 1]\<rparr>)"
    by (rule race_reached.moved [OF race_reached.new race_step.begins]) simp
  then have "race_reached (new_race\<lparr>ar_threads := [Adding 1]\<rparr>)" by (simp add: new_race_def)
  moreover have "race_work (new_race\<lparr>ar_threads := [Adding 1]\<rparr>) (addExpected_locked 0 1 (new_race\<lparr>ar_threads := [Adding 1]\<rparr>))"
    by (rule race_work.adds) simp_all
  ultimately have "race_reached (addExpected_locked 0 1 (new_race\<lparr>ar_threads := [Adding 1]\<rparr>))" by (metis race_reached.moved race_step.works)
  from race_reached.moved [OF race_reached.moved [OF this race_step.begins [of Accepting]] race_step.begins [of Sweeping]]
  show ?thesis by (simp add: late_defs)
qed

lemma late_run: "(race_work ^^ 6) late_start late_end"
proof -
  let ?r1 = "accept_locked 1 late_start"
  let ?r2 = "sweep_locked 2 ?r1"
  let ?r3 = "timeout_locked 2 ?r2"
  let ?r4 = "goes 1 Counting (?r3\<lparr>ar_present := False\<rparr>)"
  let ?r5 = "goes 1 Calling (?r4\<lparr>ar_resolved := ar_resolved ?r4 + 1\<rparr>)"
  have 1: "race_work late_start ?r1" by (rule race_work.accepts) (simp_all add: late_defs)
  have 2: "race_work ?r1 ?r2" by (rule race_work.sweeps) (simp_all add: late_defs)
  have 3: "race_work ?r2 ?r3" by (rule race_work.times_out) (simp_all add: late_defs)
  have 4: "race_work ?r3 ?r4" by (rule race_work.removes) (simp_all add: late_defs)
  have 5: "race_work ?r4 ?r5" by (rule race_work.counts) (simp_all add: late_defs)
  have 6: "race_work ?r5 (goes 1 Over (fire Acked ?r5))" by (rule race_work.calls) (simp_all add: late_defs)
  note goes_on = relpowp_Suc_I2 [of race_work]
  have "goes 1 Over (fire Acked ?r5) = late_end" by (simp add: late_defs)
  with goes_on [OF 1 goes_on [OF 2 goes_on [OF 3 goes_on [OF 4 goes_on [OF 5 goes_on [OF 6 relpowp_0_I [of race_work]]]]]]]
  have "(race_work ^^ Suc (Suc (Suc (Suc (Suc (Suc 0)))))) late_start late_end" by (simp only:)
  moreover have "(6 :: nat) = Suc (Suc (Suc (Suc (Suc (Suc 0)))))" by simp
  ultimately show ?thesis by (simp only:)
qed

theorem broadcast_ack_one_outcome_witness: "6 \<le> race_effort late_start \<and> ar_fired late_end = Some Acked \<and> ar_resolved late_end = 1"
proof -
  have "ar_fired late_end = Some Acked" by (simp add: late_end_def)
  then show ?thesis using broadcast_ack_one_outcome [OF late_reached late_run] by blast
qed

text \<open>The double count.\<close>

lemma resolved_and_timed_out: "race_reached late_end \<and> ar_resolved late_end = 1 \<and> ar_timedOut late_end = 1 \<and> set (ar_threads late_end) = {Over}"
proof -
  have "(race_work ^^ n) r r' \<Longrightarrow> race_reached r \<Longrightarrow> race_reached r'" for n r r'
    by (induction n arbitrary: r') (auto intro: race_reached.moved race_step.works)
  then show ?thesis using late_run late_reached by (auto simp: late_end_def)
qed

end
