(* ===== verification/Spec2Isabelle.thy ===== *)
theory Spec2Isabelle
  imports PacketView ServerProps Incoming Peers Resume PoolProps Metrics Client Fanout Owned Lifecycle ServerApi PollQueue AckRace
begin

text \<open>
  \<^bold>\<open>A Socket.IO server with cluster support\<close>

  This is a verification of the Go package in \<^verbatim>\<open>src/\<close>: a Socket.IO server (protocol 5 over Engine.IO 4) whose nodes form a cluster
  without a message broker. It models the package file by file, as functions on records of the same shape, and proves what the parts
  promise each other and their users.

  \<^bold>\<open>The parts of the program and how they work together.\<close> An HTTP request comes to \<^verbatim>\<open>Server.ServeHTTP\<close> (\<^verbatim>\<open>server.go\<close>). Polling and
  WebSocket requests belong to a connection (\<^verbatim>\<open>engine_conn.go\<close>), which cuts what arrives into packets, parses them
  (\<^verbatim>\<open>packet_view.go\<close>), collects binary attachments and hands each packet to a socket (\<^verbatim>\<open>socket.go\<close>) of a namespace (\<^verbatim>\<open>namespace.go\<close>). The
  socket runs event handlers (\<^verbatim>\<open>handler.go\<close>, \<^verbatim>\<open>callbacks.go\<close>) and resolves acknowledgements (\<^verbatim>\<open>ack_store.go\<close>). A broadcast
  (\<^verbatim>\<open>broadcast_operator.go\<close>) is encoded once, sent to the sockets that the room index (\<^verbatim>\<open>adapter.go\<close>) selects, logged for clients that
  are away (\<^verbatim>\<open>recovery.go\<close>) and posted to the other nodes (\<^verbatim>\<open>cluster.go\<close>), which do the same for theirs. Buffers come from pools
  (\<^verbatim>\<open>bytepool.go\<close>, \<^verbatim>\<open>frame.go\<close>, \<^verbatim>\<open>unsafe.go\<close>); goroutines belong to lifecycles (\<^verbatim>\<open>lifecycle.go\<close>); counters are read by \<^verbatim>\<open>metrics.go\<close>.

  \<^bold>\<open>Theories.\<close> Each opens with what it holds; here is where each part of the source is.

  \<^item> \<open>Prelude\<close>: bytes, results, index loops, finite maps as association lists; the locales \<open>component\<close> (an invariant of a
    sequence of operations) and \<open>progress\<close> (concurrent work that uses up an effort), which the components interpret.
  \<^item> \<open>GoLib\<close>, \<open>GoStrings\<close>, \<open>Base64\<close>: the parts of Go's standard library that the sources call (\<^verbatim>\<open>strconv\<close>, \<^verbatim>\<open>bytes\<close>, \<^verbatim>\<open>strings\<close>,
    \<^verbatim>\<open>encoding/binary\<close>, \<^verbatim>\<open>encoding/base64\<close>).
  \<^item> \<open>JsonScan\<close>, \<open>JsonGrammar\<close>, \<open>PacketView\<close>: \<^verbatim>\<open>packet_view.go\<close>; the scanner against a grammar of JSON texts, the parser
    \<^verbatim>\<open>ParsePacketView\<close>, the printers \<^verbatim>\<open>Append*\<close> and their round trips.
  \<^item> \<open>Handlers\<close>: \<^verbatim>\<open>callbacks.go\<close> and \<^verbatim>\<open>handler.go\<close>, with the in-place filter over a shared array; the locale \<open>once_registry\<close> is what
    a registry of one-shot and persistent callbacks promises. \<open>Encode\<close>: \<^verbatim>\<open>encodeAnyArgs\<close> of \<^verbatim>\<open>socket.go\<close> and the reply arguments of \<^verbatim>\<open>handler.go\<close>.
  \<^item> \<open>AckStore\<close>: \<^verbatim>\<open>ack_store.go\<close> and the broadcast trackers of \<^verbatim>\<open>server.go\<close>. \<open>Adapter\<close>: \<^verbatim>\<open>adapter.go\<close>, refined to a table of
    memberships. \<open>AckRace\<close>: a tracker with every interleaving of acknowledgements and sweeps. \<open>Recovery\<close>: \<^verbatim>\<open>recovery.go\<close>, against an abstract log of what was saved, sent and taken.
  \<^item> \<open>ClusterCodec\<close>, \<open>ClusterConfig\<close>, \<open>ClusterNode\<close>: \<^verbatim>\<open>cluster.go\<close>: the bodies nodes exchange (locales \<open>codec\<close> and
    \<open>bounded_reader\<close>), configuration and discovery, the requests posted to peers. \<open>Fanout\<close>: the worker pool that posts them, with
    every interleaving.
  \<^item> \<open>ServerState\<close>: the records of a server, \<^verbatim>\<open>Server\<close>, \<^verbatim>\<open>engineConn\<close>, \<^verbatim>\<open>serverSocket\<close> and \<^verbatim>\<open>Namespace\<close>; connections and sockets are objects
    in heaps and refer to each other by address. \<open>EngineConn\<close>: sending and closing. \<open>PollQueue\<close>: the queue of a
    polling connection with every interleaving of its users. \<open>Sockets\<close>: what arrives and what a socket
    does, \<^verbatim>\<open>Namespace.add\<close>. \<open>Broadcast\<close>: \<^verbatim>\<open>broadcast_operator.go\<close> and the handler of cluster requests. \<open>HttpServer\<close>: construction,
    routing, both transports, the sweeps. \<open>Api\<close>, \<open>ServerApi\<close>: the rest of the public interface, \<^verbatim>\<open>remote_socket.go\<close> and \<^verbatim>\<open>emitter.go\<close>.
  \<^item> \<open>ServerInv\<close>: the invariant of the whole server, kept by every operation; \<open>Delivery\<close>, \<open>Scenarios\<close>, \<open>ServerProps\<close>, \<open>Incoming\<close>, \<open>Peers\<close>,
    \<open>Resume\<close>: what the server as a whole does with what is sent, what arrives, what peers ask and who returns.
  \<^item> \<open>Lifecycle\<close>: \<^verbatim>\<open>lifecycle.go\<close> and the background loops, with every interleaving of goroutines, calls of \<^verbatim>\<open>stop\<close> and timers.
  \<^item> \<open>BytePool\<close>, \<open>ByteBatch\<close>, \<open>PoolProps\<close>, \<open>Owned\<close>: \<^verbatim>\<open>bytepool.go\<close>, \<^verbatim>\<open>frame.go\<close>, \<^verbatim>\<open>unsafe.go\<close> and the owned strings and packets of
    \<^verbatim>\<open>recovery.go\<close>, on a store of shared arrays; the locale \<open>buffers\<close> is what a pool promises its clients.
  \<^item> \<open>Metrics\<close>: \<^verbatim>\<open>metrics.go\<close>. \<open>Client\<close>: the client of \<^verbatim>\<open>siotest/client.go\<close>, which speaks the other side of the protocol.

  \<^bold>\<open>What the theorems show.\<close>

  \<^item> \<^emph>\<open>Delivery.\<close> A broadcast reaches the queues of exactly the selected sockets, in order and with its attachments; the selection is
    exactly the set that rooms and exceptions describe; packets written by one side are read by the other with the same contents,
    between server and client, between nodes, and over polling; binary packets are put together again.
  \<^item> \<^emph>\<open>State.\<close> In every reachable state of the server the tables, heaps, room indexes and gauges agree; the room index is a
    membership table; acknowledgements are neither lost nor doubled.
  \<^item> \<^emph>\<open>Recovery.\<close> A session is resumed exactly when it was saved, not taken and not expired, with exactly the missed packets, on
    the same node or on another; replay selects what live delivery selects.
  \<^item> \<^emph>\<open>Memory.\<close> Every pooled buffer in use behaves as a string of its own, although arrays are shared and reused; views into a batch
    follow the buffer when it moves; the strings of a session stay intact until its release.
  \<^item> \<^emph>\<open>Concurrency.\<close> The poll queue loses no frame and no wake-up; a broadcast acknowledgement has one outcome; the fan-out returns what a sequential run returns and cannot deadlock; \<^verbatim>\<open>stop\<close> waits for all goroutines, a shutdown
    ends, and a connection that closes itself runs into the timeout of \<^verbatim>\<open>stop\<close>.
  \<^item> \<^emph>\<open>Errors and limits.\<close> Decoders return no more than they were given; requests without the secret change nothing; a huge room count
    makes a decoder panic; reading a body ends.

  Theorems about behaviour that is surely not meant (lost one-shot handlers, a leaked socket, an early end of a broadcast
  acknowledgement, a stale namespace name, a stale token in a poll queue, a broadcast counted twice, the self-made timeout of \<^verbatim>\<open>close\<close>) state what the code does.

  \<^bold>\<open>How the model relates to the code.\<close> Byte strings are lists of \<^typ>\<open>char\<close>; 64-bit counters and ids are words, times and durations are
  integers in nanoseconds; maps are association lists in insertion order, so that loops over a map run in that order. Errors and panics are
  values. Code that is not in \<^verbatim>\<open>src/\<close> is an argument with its documented behaviour as hypothesis where one is needed: JSON
  encoding and decoding, URL parsing, DNS, the HTTP client, the WebSocket library, random numbers, the environment, the choices of
  \<^verbatim>\<open>sync.Pool\<close> and of the allocator. Handlers and requests run one at a time, and what the user's code does is a later operation; the
  output list of the server records what was called. There is no fuel: loops are structural or have a measure; \<^verbatim>\<open>readAllPooled\<close>,
  which depends on a reader, is a partial function that is proved to return for every reader that makes progress; the concurrent
  parts have an effort that bounds the steps of every run.

  \<^bold>\<open>Not modelled.\<close> Calls from user callbacks back into the same operation, and the locks that such calls would meet; interleavings
  inside one operation, other than those of the fan-out, the lifecycles, the poll queue and the broadcast trackers; the state after a recovered panic; the random order of Go's maps;
  the rounding of metrics to floating point; the encoding of query strings. The helpers that only release several pooled objects in
  turn (\<^verbatim>\<open>clusterPacketBody.Release\<close>, \<^verbatim>\<open>releaseReplayPackets\<close>, \<^verbatim>\<open>releaseClusterResponses\<close>). The programs under \<^verbatim>\<open>examples/\<close> and
  \<^verbatim>\<open>test/\<close>, which set up a server or a test and only call the package.
\<close>

end
